(* ===== verification/Prelude.thy ===== *)
theory Prelude
  imports Main "HOL-Library.Word" "HOL-Library.Signed_Division"
begin

text \<open>
  Shared vocabulary of the development: the machine types of the target (a 32-bit
  microcontroller), the ways a call can fail to come back (\<open>fault\<close>), the result type
  every stateful operation returns, the rules that push a pre- and postcondition through a
  composed operation (collection \<open>wp\<close>), and the facts on 32-bit words the components share.
\<close>

section \<open>Machine types\<close>

type_synonym byte = "8 word"
type_synonym u8 = "8 word"
type_synonym u16 = "16 word"
type_synonym u32 = "32 word"
type_synonym size_t = "32 word"

text \<open>A C++ address. The null pointer is \<open>0\<close>.\<close>

type_synonym ptr = "32 word"

text \<open>
  \<open>std::chrono::steady_clock\<close> time points and durations, in nanoseconds;
  \<open>time_point{}\<close> is \<open>0\<close>.
\<close>

type_synonym time_point = int
type_synonym duration = int

abbreviation nanos_per_milli :: int where
  "nanos_per_milli \<equiv> 1000000"

text \<open>
  \<open>duration_cast\<close> to milliseconds truncates towards zero; a \<open>uint32_t\<close>
  representation then keeps the value modulo \<open>2 ^ 32\<close>.
\<close>

definition cast_millis :: "duration \<Rightarrow> int" where
  "cast_millis d = d sdiv nanos_per_milli"

definition cast_millis_u32 :: "duration \<Rightarrow> u32" where
  "cast_millis_u32 d = word_of_int (cast_millis d)"

section \<open>Results of operations\<close>

text \<open>
  A call that does not return a value: it spins for ever (\<open>Hang\<close>), it locks a mutex its
  own thread already holds (\<open>Deadlock\<close>; \<open>std::mutex\<close> is not recursive), it touches
  an object that has been deleted (\<open>UseAfterFree\<close>) or through a null pointer (\<open>NullPointer\<close>),
  or \<open>operator new\<close> throws (\<open>BadAlloc\<close>).
\<close>

datatype fault = Hang | Deadlock | UseAfterFree | NullPointer | BadAlloc

type_synonym 'a res = "fault + 'a"

fun bind_res :: "'a res \<Rightarrow> ('a \<Rightarrow> 'b res) \<Rightarrow> 'b res" where
  "bind_res (Inl e) f = Inl e"
| "bind_res (Inr x) f = f x"

definition of_option :: "'a option \<Rightarrow> 'a res" where
  "of_option r = (case r of None \<Rightarrow> Inl Hang | Some x \<Rightarrow> Inr x)"

lemma of_option_simps [simp]:
  "of_option None = Inl Hang"
  "of_option (Some x) = Inr x"
  by (simp_all add: of_option_def)

lemma bind_res_Inr_iff:
  "bind_res m f = Inr y \<longleftrightarrow> (\<exists>x. m = Inr x \<and> f x = Inr y)"
  by (cases m) auto

text \<open>
  \<open>holds E P r\<close>: the result \<open>r\<close> is a value that satisfies \<open>P\<close>, or one of the
  faults in \<open>E\<close>. With \<open>E = {}\<close> this is total correctness: the call returns.
\<close>

definition holds :: "fault set \<Rightarrow> ('a \<Rightarrow> bool) \<Rightarrow> 'a res \<Rightarrow> bool" where
  "holds E P r = (case r of Inl e \<Rightarrow> e \<in> E | Inr x \<Rightarrow> P x)"

named_theorems wp \<open>postconditions of composed operations\<close>

lemma holds_Inr [simp]: "holds E P (Inr x) = P x"
  by (simp add: holds_def)

lemma holds_Inl [simp]: "holds E P (Inl e) = (e \<in> E)"
  by (simp add: holds_def)

lemma holds_bind [simp]:
  "holds E P (bind_res m f) = holds E (\<lambda>x. holds E P (f x)) m"
  by (cases m) auto

lemma holds_mono: "holds E P r \<Longrightarrow> (\<And>x. P x \<Longrightarrow> Q x) \<Longrightarrow> holds E Q r"
  by (cases r) auto

lemma holds_weaken:
  "holds E P r \<Longrightarrow> E \<subseteq> F \<Longrightarrow> (\<And>x. P x \<Longrightarrow> Q x) \<Longrightarrow> holds F Q r"
  by (cases r) auto

lemma holds_total_any: "holds {} P r \<Longrightarrow> holds E P r"
  by (cases r) auto

lemma holds_conj: "holds E P r \<Longrightarrow> holds E Q r \<Longrightarrow> holds E (\<lambda>x. P x \<and> Q x) r"
  by (cases r) auto

lemma holdsD: "holds E P r \<Longrightarrow> r = Inr x \<Longrightarrow> P x"
  by simp

lemma holds_total: "holds {} P r \<Longrightarrow> \<exists>x. r = Inr x \<and> P x"
  by (cases r) auto

lemma holds_no_fault: "holds E P r \<Longrightarrow> e \<notin> E \<Longrightarrow> r \<noteq> Inl e"
  by auto

lemma holds_bindI [wp]:
  "holds E (\<lambda>x. holds E P (f x)) m \<Longrightarrow> holds E P (bind_res m f)"
  by simp

lemma holds_if [wp]:
  "(b \<Longrightarrow> holds E P x) \<Longrightarrow> (\<not> b \<Longrightarrow> holds E P y) \<Longrightarrow> holds E P (if b then x else y)"
  by simp

section \<open>Words\<close>

lemma unat_plus_le:
  fixes a b :: "'a::len word"
  assumes "unat a + unat b \<le> unat (c :: 'a word)"
  shows "unat (a + b) = unat a + unat b"
proof -
  have "unat c < 2 ^ LENGTH('a)" by (rule unsigned_less)
  with assms have "unat a + unat b < 2 ^ LENGTH('a)" by linarith
  then show ?thesis by (rule unat_add_lem [THEN iffD1])
qed

lemma unat_minus_le:
  fixes a b :: "'a::len word"
  shows "b \<le> a \<Longrightarrow> unat (a - b) = unat a - unat b"
  by (simp add: unat_sub)

lemma unat_of_int_le:
  fixes c :: "'a::len word"
  assumes "0 \<le> r" and "r \<le> int (unat c)"
  shows "unat (word_of_int r :: 'a word) = nat r"
proof -
  from assms(1) obtain n where n: "r = int n" by (rule nonneg_int_cases)
  have "unat c < 2 ^ LENGTH('a)" by (rule unsigned_less)
  moreover from assms(2) n have "n \<le> unat c" by (simp only: of_nat_le_iff)
  ultimately have "n < 2 ^ LENGTH('a)" by linarith
  then have "unat (word_of_nat n :: 'a word) = n" by (simp add: unsigned_of_nat take_bit_nat_eq_self)
  with n show ?thesis by simp
qed

end
