(* ===== verification/Lwip.thy ===== *)
theory Lwip
  imports Prelude
begin

text \<open>
  What the library calls and does not define: lwIP's sockets and DNS, the Arduino class
  \<open>IPAddress\<close>, the clock and the memory. All of it is a parameter of the model, one record
  \<open>os\<close> of constants and functions that every operation takes as its first argument. A system
  call takes the world (a value of an arbitrary type \<open>'w\<close>) and returns its result with the
  next world, so the outside may change in any way at every call. What the code relies on is
  stated below as named predicates on \<open>os\<close>; no definition assumes them.
\<close>

section \<open>Socket addresses and options\<close>

record sockaddr_in =
  sin_len :: u8
  sin_port :: u16
  s_addr :: u32

datatype sockopt =
    SO_LINGER int int        \<comment> \<open>\<open>l_onoff\<close>, \<open>l_linger\<close>\<close>
  | TCP_NODELAY int
  | SO_KEEPALIVE int

section \<open>The interface\<close>

text \<open>
  \<open>ssize_t\<close> and \<open>int\<close> results are integers; a failing call returns a negative number and
  sets \<open>errno\<close>, returned next to it. \<open>mem\<close> reads the byte at an address.
\<close>

record ('w, 'ip) os =
  TCP_SND_BUF :: size_t
  TCP_MSS :: size_t
  CONFIG_LWIP_MAX_SOCKETS :: "nat option"
  EAGAIN :: int
  EWOULDBLOCK :: int
  O_NONBLOCK :: int
  ERR_OK :: int
  ERR_INPROGRESS :: int
  ERR_ABRT :: int
  sizeof_sockaddr_in :: u8
  htons :: "u16 \<Rightarrow> u16"
  IPAddress_none :: 'ip
  IPAddress_any :: 'ip
  IPAddress_u32 :: "'ip \<Rightarrow> u32"
  mem :: "'w \<Rightarrow> ptr \<Rightarrow> byte"
  steady_now :: "'w \<Rightarrow> time_point \<times> 'w"
  sys_socket :: "'w \<Rightarrow> int \<times> 'w"
  sys_connect :: "int \<Rightarrow> sockaddr_in \<Rightarrow> 'w \<Rightarrow> (int \<times> int) \<times> 'w"
  sys_close :: "int \<Rightarrow> 'w \<Rightarrow> 'w"
  fcntl_getfl :: "int \<Rightarrow> 'w \<Rightarrow> int \<times> 'w"
  fcntl_setfl :: "int \<Rightarrow> int \<Rightarrow> 'w \<Rightarrow> int \<times> 'w"
  setsockopt :: "int \<Rightarrow> sockopt \<Rightarrow> 'w \<Rightarrow> int \<times> 'w"
  getsockopt_error :: "int \<Rightarrow> 'w \<Rightarrow> (int \<times> int \<times> int) \<times> 'w"
  getsockopt_nodelay :: "int \<Rightarrow> 'w \<Rightarrow> (int \<times> int) \<times> 'w"
  select_w :: "int \<Rightarrow> 'w \<Rightarrow> int \<times> 'w"
  select_r :: "int \<Rightarrow> 'w \<Rightarrow> int \<times> 'w"
  lwip_write :: "int \<Rightarrow> byte list \<Rightarrow> 'w \<Rightarrow> (int \<times> int) \<times> 'w"
  lwip_read :: "int \<Rightarrow> size_t \<Rightarrow> 'w \<Rightarrow> (int \<times> int \<times> byte list) \<times> 'w"
  dns_gethostbyname :: "string \<Rightarrow> ptr \<Rightarrow> 'w \<Rightarrow> (int \<times> 'ip) \<times> 'w"
  sys_bind :: "int \<Rightarrow> sockaddr_in \<Rightarrow> 'w \<Rightarrow> int \<times> 'w"
  sys_listen :: "int \<Rightarrow> int \<Rightarrow> 'w \<Rightarrow> int \<times> 'w"
  sys_accept :: "int \<Rightarrow> 'w \<Rightarrow> int \<times> 'w"
  select_all :: "int \<Rightarrow> int list \<Rightarrow> int list \<Rightarrow> 'w \<Rightarrow> (int \<times> int list \<times> int list) \<times> 'w"
  operator_new :: "(ptr \<Rightarrow> bool) \<Rightarrow> 'w \<Rightarrow> ptr option \<times> 'w"

section \<open>What the code relies on\<close>

text \<open>
  \<open>lwip_write\<close> on a non-empty buffer either fails or accepts between one byte and all of
  them (POSIX \<open>write\<close> on a stream socket).
\<close>

definition write_sound :: "('w, 'ip) os \<Rightarrow> bool" where
  "write_sound os \<longleftrightarrow>
     (\<forall>fd bs w r e w'. lwip_write os fd bs w = ((r, e), w') \<longrightarrow> bs \<noteq> [] \<longrightarrow> 0 \<le> r \<longrightarrow>
        0 < r \<and> r \<le> int (length bs))"

lemma write_soundD:
  assumes "write_sound os" and "lwip_write os fd bs w = ((r, e), w')" and "bs \<noteq> []" and "0 \<le> r"
  shows "0 < r" and "r \<le> int (length bs)"
  using assms unfolding write_sound_def by blast+

text \<open>
  \<open>sent w fd\<close> is the byte stream the socket \<open>fd\<close> has accepted so far: a successful write
  appends the bytes it reports, a failing one and the clock append nothing. The second part
  says that these calls do not write to the application's memory.
\<close>

definition stream_law :: "('w, 'ip) os \<Rightarrow> ('w \<Rightarrow> int \<Rightarrow> byte list) \<Rightarrow> bool" where
  "stream_law os sent \<longleftrightarrow>
     (\<forall>fd bs w r e w'. lwip_write os fd bs w = ((r, e), w') \<longrightarrow>
        sent w' fd = sent w fd @ (if 0 \<le> r then take (nat r) bs else []) \<and> mem os w' = mem os w) \<and>
     (\<forall>fd w t w'. steady_now os w = (t, w') \<longrightarrow> sent w' fd = sent w fd \<and> mem os w' = mem os w)"

lemma stream_law_write:
  "stream_law os sent \<Longrightarrow> lwip_write os fd bs w = ((r, e), w') \<Longrightarrow>
    sent w' fd = sent w fd @ (if 0 \<le> r then take (nat r) bs else []) \<and> mem os w' = mem os w"
  unfolding stream_law_def by blast

lemma stream_law_now:
  "stream_law os sent \<Longrightarrow> steady_now os w = (t, w') \<Longrightarrow>
    sent w' fd = sent w fd \<and> mem os w' = mem os w"
  unfolding stream_law_def by blast

text \<open>
  A socket whose send buffer is full (or that has failed) stays so during one pass over the
  write queue: \<open>stuck w fd\<close> holds after a failing write, and a write fails while it holds. lwIP does not promise this: its own thread
  may free buffer space between two calls.
\<close>

definition sticky_law :: "('w, 'ip) os \<Rightarrow> ('w \<Rightarrow> int \<Rightarrow> bool) \<Rightarrow> bool" where
  "sticky_law os stuck \<longleftrightarrow>
     (\<forall>fd bs w r e w'. lwip_write os fd bs w = ((r, e), w') \<longrightarrow>
        (stuck w fd \<longrightarrow> r < 0) \<and> (r < 0 \<longrightarrow> stuck w' fd))"

lemma sticky_law_blocked:
  "sticky_law os stuck \<Longrightarrow> lwip_write os fd bs w = ((r, e), w') \<Longrightarrow> stuck w fd \<Longrightarrow> r < 0"
  unfolding sticky_law_def by blast

lemma sticky_law_fails:
  "sticky_law os stuck \<Longrightarrow> lwip_write os fd bs w = ((r, e), w') \<Longrightarrow> r < 0 \<Longrightarrow> stuck w' fd"
  unfolding sticky_law_def by blast

text \<open>\<open>operator new\<close>, told which addresses are in use, hands out one that is not, or nothing.\<close>

definition new_law :: "('w, 'ip) os \<Rightarrow> bool" where
  "new_law os \<longleftrightarrow>
     (\<forall>used w p w'. operator_new os used w = (Some p, w') \<longrightarrow> p \<noteq> 0 \<and> \<not> used p)"

lemma new_lawD:
  "new_law os \<Longrightarrow> operator_new os used w = (Some p, w') \<Longrightarrow> p \<noteq> 0 \<and> \<not> used p"
  unfolding new_law_def by blast

text \<open>A socket call on descriptor \<open>-1\<close> fails (\<open>EBADF\<close>).\<close>

definition badfd_law :: "('w, 'ip) os \<Rightarrow> bool" where
  "badfd_law os \<longleftrightarrow> (\<forall>w r e v w'. getsockopt_error os (-1) w = ((r, e, v), w') \<longrightarrow> r < 0)"

lemma badfd_lawD: "badfd_law os \<Longrightarrow> getsockopt_error os (-1) w = ((r, e, v), w') \<Longrightarrow> r < 0"
  unfolding badfd_law_def by blast

end
