(* ===== verification/WriteQueueBuffer.thy ===== *)
theory WriteQueueBuffer
  imports Lwip
begin

text \<open>
  \<open>src/src/WriteQueueBuffer.hpp\<close>: one entry of a client's write queue, which either owns a
  copy of its bytes or borrows them from the application's memory, and the loop that pushes
  an entry into the socket.
\<close>

section \<open>Data\<close>

record WriteStats =
  ws_length :: size_t
  ws_delay :: u32

record CommonWriteQueueBuffer =
  amountWritten :: size_t
  queuedAt :: time_point
  writtenAt :: time_point
  errorCode :: int

text \<open>
  The variant: a borrowed buffer is a \<open>std::span\<close> (address and size), an owned one a
  \<open>std::vector\<close> (the bytes).
\<close>

datatype WriteQueueBuffer =
    BorrowedWriteQueueBuffer CommonWriteQueueBuffer ptr size_t
  | OwnedWriteQueueBuffer CommonWriteQueueBuffer "byte list"

fun asCommonView :: "WriteQueueBuffer \<Rightarrow> CommonWriteQueueBuffer" where
  "asCommonView (BorrowedWriteQueueBuffer c p n) = c"
| "asCommonView (OwnedWriteQueueBuffer c bs) = c"

fun map_common ::
  "(CommonWriteQueueBuffer \<Rightarrow> CommonWriteQueueBuffer) \<Rightarrow> WriteQueueBuffer \<Rightarrow> WriteQueueBuffer"
where
  "map_common f (BorrowedWriteQueueBuffer c p n) = BorrowedWriteQueueBuffer (f c) p n"
| "map_common f (OwnedWriteQueueBuffer c bs) = OwnedWriteQueueBuffer (f c) bs"

text \<open>\<open>data.size()\<close> and \<open>data = {}\<close>.\<close>

fun data_size :: "WriteQueueBuffer \<Rightarrow> size_t" where
  "data_size (BorrowedWriteQueueBuffer c p n) = n"
| "data_size (OwnedWriteQueueBuffer c bs) = of_nat (length bs)"

fun clear_data :: "WriteQueueBuffer \<Rightarrow> WriteQueueBuffer" where
  "clear_data (BorrowedWriteQueueBuffer c p n) = BorrowedWriteQueueBuffer c 0 0"
| "clear_data (OwnedWriteQueueBuffer c bs) = OwnedWriteQueueBuffer c []"

text \<open>The \<open>n\<close> bytes of a memory from address \<open>p\<close> on.\<close>

definition read_mem :: "(ptr \<Rightarrow> byte) \<Rightarrow> ptr \<Rightarrow> size_t \<Rightarrow> byte list" where
  "read_mem m p n = map (\<lambda>i. m (p + of_nat i)) [0..<unat n]"

text \<open>The \<open>n\<close> bytes of the buffer from offset \<open>k\<close> on (\<open>data.data() + k\<close>).\<close>

fun data_from :: "(ptr \<Rightarrow> byte) \<Rightarrow> WriteQueueBuffer \<Rightarrow> size_t \<Rightarrow> size_t \<Rightarrow> byte list" where
  "data_from m (BorrowedWriteQueueBuffer c p sz) k n = read_mem m (p + k) n"
| "data_from m (OwnedWriteQueueBuffer c bs) k n = take (unat n) (drop (unat k) bs)"

section \<open>Operations\<close>

definition hasError :: "WriteQueueBuffer \<Rightarrow> bool" where
  "hasError buf \<longleftrightarrow> errorCode (asCommonView buf) \<noteq> 0"

definition isFullyWritten :: "WriteQueueBuffer \<Rightarrow> bool" where
  "isFullyWritten buf \<longleftrightarrow> data_size buf \<le> amountWritten (asCommonView buf)"

text \<open>
  The \<open>do \<dots> while\<close> of \<open>write\<close>: \<open>None\<close> when it never leaves the loop, which a socket that
  keeps accepting nothing would cause.
\<close>

partial_function (option) write_loop ::
  "('w, 'ip) os \<Rightarrow> int \<Rightarrow> WriteQueueBuffer \<Rightarrow> size_t \<Rightarrow> 'w \<Rightarrow>
     (size_t \<times> WriteQueueBuffer \<times> 'w) option"
where
  "write_loop os fd it writtenTotal w =
     (let amount = amountWritten (asCommonView it);
          toWrite = data_size it - amount;
          ((result, errno), w1) = lwip_write os fd (data_from (mem os w) it amount toWrite) w
      in if 0 \<le> result then
           let it1 = map_common (\<lambda>c. c\<lparr>amountWritten := amountWritten c + word_of_int result\<rparr>) it;
               total1 = writtenTotal + word_of_int result
           in if isFullyWritten it1 then
                let (t, w2) = steady_now os w1
                in Some (total1, clear_data (map_common (\<lambda>c. c\<lparr>writtenAt := t\<rparr>) it1), w2)
              else write_loop os fd it1 total1 w1
         else if errno = EAGAIN os \<or> errno = EWOULDBLOCK os then Some (writtenTotal, it, w1)
         else Some (writtenTotal, map_common (\<lambda>c. c\<lparr>errorCode := errno\<rparr>) it, w1))"

declare write_loop.simps [code]

definition write_buffer ::
  "('w, 'ip) os \<Rightarrow> WriteQueueBuffer \<Rightarrow> int \<Rightarrow> 'w \<Rightarrow> (size_t \<times> WriteQueueBuffer \<times> 'w) option"
where
  "write_buffer os buf fd w = write_loop os fd buf 0 w"


section \<open>Well-formed buffers\<close>

text \<open>
  A buffer in the queue is either unfinished (fewer bytes written than it holds) or finished,
  and then its data has been dropped. An owned vector has at most \<open>2 ^ 32 - 1\<close> bytes.
\<close>

fun data_fits :: "WriteQueueBuffer \<Rightarrow> bool" where
  "data_fits (BorrowedWriteQueueBuffer c p n) = True"
| "data_fits (OwnedWriteQueueBuffer c bs) = (length bs < 2 ^ 32)"

definition buf_ok :: "WriteQueueBuffer \<Rightarrow> bool" where
  "buf_ok b \<longleftrightarrow> data_fits b \<and> (isFullyWritten b \<longrightarrow> data_size b = 0)"

definition remaining :: "WriteQueueBuffer \<Rightarrow> nat" where
  "remaining b = (if isFullyWritten b then 0 else unat (data_size b - amountWritten (asCommonView b)))"

definition pending_bytes :: "(ptr \<Rightarrow> byte) \<Rightarrow> WriteQueueBuffer \<Rightarrow> byte list" where
  "pending_bytes m b =
     (if isFullyWritten b then []
      else data_from m b (amountWritten (asCommonView b))
             (data_size b - amountWritten (asCommonView b)))"

abbreviation advance :: "int \<Rightarrow> WriteQueueBuffer \<Rightarrow> WriteQueueBuffer" where
  "advance r \<equiv> map_common (\<lambda>c. c\<lparr>amountWritten := amountWritten c + word_of_int r\<rparr>)"

abbreviation fail_with :: "int \<Rightarrow> WriteQueueBuffer \<Rightarrow> WriteQueueBuffer" where
  "fail_with e \<equiv> map_common (\<lambda>c. c\<lparr>errorCode := e\<rparr>)"

abbreviation finish_at :: "time_point \<Rightarrow> WriteQueueBuffer \<Rightarrow> WriteQueueBuffer" where
  "finish_at t b \<equiv> clear_data (map_common (\<lambda>c. c\<lparr>writtenAt := t\<rparr>) b)"

lemma asCommonView_map [simp]: "asCommonView (map_common f b) = f (asCommonView b)"
  by (cases b) auto

lemma asCommonView_clear [simp]: "asCommonView (clear_data b) = asCommonView b"
  by (cases b) auto

lemma data_size_map [simp]: "data_size (map_common f b) = data_size b"
  by (cases b) auto

lemma data_size_clear [simp]: "data_size (clear_data b) = 0"
  by (cases b) auto

lemma data_fits_map [simp]: "data_fits (map_common f b) = data_fits b"
  by (cases b) auto

lemma data_fits_clear [simp]: "data_fits (clear_data b)"
  by (cases b) auto

lemma data_from_map [simp]: "data_from m (map_common f b) k n = data_from m b k n"
  by (cases b) auto

lemma isFullyWritten_clear [simp]: "isFullyWritten (clear_data b)"
  by (simp add: isFullyWritten_def)

lemma isFullyWritten_fail [simp]: "isFullyWritten (fail_with e b) = isFullyWritten b"
  by (simp add: isFullyWritten_def)

lemma isFullyWritten_finish [simp]: "isFullyWritten (finish_at t b)"
  by (simp add: isFullyWritten_def)

lemma hasError_advance [simp]: "hasError (advance r b) = hasError b"
  by (simp add: hasError_def)

lemma hasError_finish [simp]: "hasError (finish_at t b) = hasError b"
  by (simp add: hasError_def)

lemma hasError_fail [simp]: "hasError (fail_with e b) = (e \<noteq> 0)"
  by (simp add: hasError_def)

lemma remaining_finish [simp]: "remaining (finish_at t b) = 0"
  by (simp add: remaining_def)

lemma remaining_fail [simp]: "remaining (fail_with e b) = remaining b"
  by (simp add: remaining_def)

lemma pending_finish [simp]: "pending_bytes m (finish_at t b) = []"
  by (simp add: pending_bytes_def)

lemma pending_fail [simp]: "pending_bytes m (fail_with e b) = pending_bytes m b"
  by (simp add: pending_bytes_def)

lemma buf_ok_finish [simp]: "buf_ok (finish_at t b)"
  by (simp add: buf_ok_def)

lemma buf_ok_fail [simp]: "buf_ok (fail_with e b) = buf_ok b"
  by (simp add: buf_ok_def)

lemma buf_ok_unfinished: "buf_ok b \<Longrightarrow> data_fits b"
  by (simp add: buf_ok_def)

lemma remaining_pos: "\<not> isFullyWritten b \<Longrightarrow> 0 < remaining b"
  by (auto simp: remaining_def isFullyWritten_def unat_gt_0)

lemma length_data_from:
  assumes "data_fits b" and "k \<le> data_size b"
  shows "length (data_from m b k (data_size b - k)) = unat (data_size b - k)"
proof (cases b)
  case (BorrowedWriteQueueBuffer c p n)
  then show ?thesis by (simp add: read_mem_def)
next
  case (OwnedWriteQueueBuffer c bs)
  with assms(1) have "unat (data_size b) = length bs"
    by (simp add: unsigned_of_nat take_bit_nat_eq_self)
  with OwnedWriteQueueBuffer assms(2) show ?thesis
    by (simp add: unat_minus_le)
qed

lemma length_pending: "data_fits b \<Longrightarrow> length (pending_bytes m b) = remaining b"
  by (auto simp: pending_bytes_def remaining_def isFullyWritten_def length_data_from)


section \<open>One accepted write\<close>

lemma read_mem_shift:
  assumes "j \<le> n"
  shows "read_mem m (p + j) (n - j) = drop (unat j) (read_mem m p n)"
proof (rule nth_equalityI)
  from assms have n: "unat (n - j) = unat n - unat j" by (rule unat_minus_le)
  then show "length (read_mem m (p + j) (n - j)) = length (drop (unat j) (read_mem m p n))"
    by (simp add: read_mem_def)
  fix i assume "i < length (read_mem m (p + j) (n - j))"
  with n have i: "i < unat n - unat j" by (simp add: read_mem_def)
  then have "[0..<unat n] ! (unat j + i) = unat j + i" by simp
  with i show "read_mem m (p + j) (n - j) ! i = drop (unat j) (read_mem m p n) ! i"
    using n by (simp add: read_mem_def add.assoc)
qed

lemma data_from_shift:
  assumes "j \<le> n" and "unat (k + j) = unat k + unat j"
  shows "data_from m b (k + j) (n - j) = drop (unat j) (data_from m b k n)"
proof (cases b)
  case (BorrowedWriteQueueBuffer c p sz)
  with assms(1) show ?thesis by (simp add: read_mem_shift flip: add.assoc)
next
  case (OwnedWriteQueueBuffer c bs)
  with assms show ?thesis by (simp add: unat_minus_le drop_take add.commute)
qed

text \<open>The socket took \<open>r\<close> of the bytes an unfinished buffer still holds.\<close>

definition accepts :: "WriteQueueBuffer \<Rightarrow> int \<Rightarrow> bool" where
  "accepts b r \<longleftrightarrow> \<not> isFullyWritten b \<and> 0 < r \<and> r \<le> int (remaining b)"

lemma accepts_unat: "accepts b r \<Longrightarrow> unat (word_of_int r :: size_t) = nat r"
  by (intro unat_of_int_le) (auto simp: accepts_def remaining_def)

lemma accepts_step_le:
  assumes "accepts b r"
  shows "word_of_int r \<le> data_size b - amountWritten (asCommonView b)"
proof -
  have "nat r \<le> unat (data_size b - amountWritten (asCommonView b))"
    using assms by (auto simp: accepts_def remaining_def nat_le_iff)
  then show ?thesis by (simp add: word_le_nat_alt accepts_unat [OF assms])
qed

lemma remaining_unfinished:
  assumes "\<not> isFullyWritten b"
  shows "remaining b + unat (amountWritten (asCommonView b)) = unat (data_size b)"
proof -
  have "amountWritten (asCommonView b) \<le> data_size b"
    using assms by (simp add: isFullyWritten_def)
  then show ?thesis
    using assms by (simp add: remaining_def unat_minus_le word_le_nat_alt)
qed

lemma advance_amount:
  assumes "accepts b r"
  shows "unat (amountWritten (asCommonView b) + word_of_int r) =
    unat (amountWritten (asCommonView b)) + nat r"
proof -
  have "nat r \<le> remaining b" using assms by (simp add: accepts_def nat_le_iff)
  then have "unat (amountWritten (asCommonView b)) + unat (word_of_int r :: size_t)
      \<le> unat (data_size b)"
    using remaining_unfinished [of b] assms accepts_unat [OF assms] by (simp add: accepts_def)
  then have "unat (amountWritten (asCommonView b) + word_of_int r) =
      unat (amountWritten (asCommonView b)) + unat (word_of_int r :: size_t)"
    by (rule unat_plus_le)
  then show ?thesis by (simp only: accepts_unat [OF assms])
qed

lemma advance_full: "accepts b r \<Longrightarrow> isFullyWritten (advance r b) \<longleftrightarrow> nat r = remaining b"
  using advance_amount [of b r] remaining_unfinished [of b]
  by (auto simp: isFullyWritten_def word_le_nat_alt accepts_def nat_le_iff)

lemma advance_remaining:
  assumes "accepts b r"
  shows "remaining (advance r b) = remaining b - nat r"
proof (cases "isFullyWritten (advance r b)")
  case True
  with assms show ?thesis by (simp add: advance_full remaining_def)
next
  case False
  then have "remaining (advance r b) + unat (amountWritten (asCommonView (advance r b)))
      = unat (data_size b)"
    using remaining_unfinished [of "advance r b"] by simp
  with assms show ?thesis
    using advance_amount [of b r] remaining_unfinished [of b] by (simp add: accepts_def)
qed

lemma advance_pending:
  assumes "accepts b r" and "data_fits b"
  shows "pending_bytes m (advance r b) = drop (nat r) (pending_bytes m b)"
proof (cases "isFullyWritten (advance r b)")
  case True
  then have "pending_bytes m (advance r b) = []" by (simp add: pending_bytes_def)
  moreover from True assms have "nat r = length (pending_bytes m b)"
    by (simp add: advance_full length_pending)
  ultimately show ?thesis by simp
next
  case False
  let ?a = "amountWritten (asCommonView b)"
  have "data_from m b (?a + word_of_int r) (data_size b - ?a - word_of_int r) =
      drop (unat (word_of_int r :: size_t)) (data_from m b ?a (data_size b - ?a))"
    using advance_amount [OF assms(1)] accepts_step_le [OF assms(1)]
    by (intro data_from_shift) (simp_all add: accepts_unat [OF assms(1)])
  then have "data_from m b (?a + word_of_int r) (data_size b - (?a + word_of_int r)) =
      drop (nat r) (data_from m b ?a (data_size b - ?a))"
    by (simp only: accepts_unat [OF assms(1)] diff_diff_eq)
  moreover from assms(1) have "\<not> isFullyWritten b" by (simp add: accepts_def)
  ultimately show ?thesis using False by (simp add: pending_bytes_def)
qed

section \<open>The write loop\<close>

text \<open>
  The rule of the loop, with an invariant \<open>I\<close> over the running total, the buffer and the
  world: the loop is entered with an unfinished buffer; each accepted write keeps \<open>I\<close>;
  leaving through the last accepted write, a full socket or an error gives \<open>Q\<close>. Under
  \<open>write_sound\<close> the loop is left, because every round shrinks what remains.
\<close>

lemma write_loop_rule:
  assumes snd: "write_sound os"
    and "\<not> isFullyWritten b" and "data_fits b" and "I tot b w"
    and more: "\<And>tot b w r e w1. I tot b w \<Longrightarrow> data_fits b \<Longrightarrow> accepts b r \<Longrightarrow>
      lwip_write os fd (pending_bytes (mem os w) b) w = ((r, e), w1) \<Longrightarrow> nat r < remaining b \<Longrightarrow>
      I (tot + word_of_int r) (advance r b) w1"
    and last: "\<And>tot b w r e w1 t w2. I tot b w \<Longrightarrow> data_fits b \<Longrightarrow> accepts b r \<Longrightarrow>
      lwip_write os fd (pending_bytes (mem os w) b) w = ((r, e), w1) \<Longrightarrow> nat r = remaining b \<Longrightarrow>
      steady_now os w1 = (t, w2) \<Longrightarrow> Q (tot + word_of_int r, finish_at t (advance r b), w2)"
    and full: "\<And>tot b w r e w1. I tot b w \<Longrightarrow> data_fits b \<Longrightarrow> \<not> isFullyWritten b \<Longrightarrow>
      lwip_write os fd (pending_bytes (mem os w) b) w = ((r, e), w1) \<Longrightarrow> r < 0 \<Longrightarrow>
      Q (tot, if e = EAGAIN os \<or> e = EWOULDBLOCK os then b else fail_with e b, w1)"
  shows "\<exists>x. write_loop os fd b tot w = Some x \<and> Q x"
  using assms(2-4)
proof (induction "remaining b" arbitrary: b tot w rule: less_induct)
  case less
  let ?a = "amountWritten (asCommonView b)"
  obtain r e w1 where wr: "lwip_write os fd (pending_bytes (mem os w) b) w = ((r, e), w1)"
    by (metis surj_pair)
  have data: "data_from (mem os w) b ?a (data_size b - ?a) = pending_bytes (mem os w) b"
    using less.prems(1) by (simp add: pending_bytes_def)
  have len: "length (pending_bytes (mem os w) b) = remaining b"
    using less.prems(2) by (rule length_pending)
  show ?case
  proof (cases "0 \<le> r")
    case True
    have "pending_bytes (mem os w) b \<noteq> []"
      using len remaining_pos [OF less.prems(1)] by auto
    with True have acc: "accepts b r"
      using write_soundD [OF snd wr] len less.prems(1) by (simp add: accepts_def)
    show ?thesis
    proof (cases "nat r = remaining b")
      case fin: True
      obtain t w2 where now: "steady_now os w1 = (t, w2)" by (metis surj_pair)
      have "write_loop os fd b tot w = Some (tot + word_of_int r, finish_at t (advance r b), w2)"
        using True fin acc by (subst write_loop.simps) (simp add: data wr now advance_full Let_def)
      then show ?thesis using last [OF less.prems(3,2) acc wr fin now] by blast
    next
      case part: False
      have less_r: "nat r < remaining b"
        using acc part unfolding accepts_def by linarith
      have unf: "write_loop os fd b tot w = write_loop os fd (advance r b) (tot + word_of_int r) w1"
        using True part acc by (subst write_loop.simps) (simp add: data wr advance_full Let_def)
      have "\<exists>x. write_loop os fd (advance r b) (tot + word_of_int r) w1 = Some x \<and> Q x"
      proof (rule less.hyps)
        show "remaining (advance r b) < remaining b"
          using acc less_r by (simp add: advance_remaining accepts_def)
        show "\<not> isFullyWritten (advance r b)" using acc part by (simp add: advance_full)
        show "data_fits (advance r b)" using less.prems(2) by simp
        show "I (tot + word_of_int r) (advance r b) w1"
          by (rule more [OF less.prems(3,2) acc wr less_r])
      qed
      then show ?thesis by (simp only: unf)
    qed
  next
    case False
    have "write_loop os fd b tot w =
        Some (tot, if e = EAGAIN os \<or> e = EWOULDBLOCK os then b else fail_with e b, w1)"
      using False by (subst write_loop.simps) (simp add: data wr Let_def)
    then show ?thesis using full [OF less.prems(3,2,1) wr] False by auto
  qed
qed


section \<open>What one write does\<close>

lemma unat_of_int_remaining:
  assumes "unat tot + remaining b = k" and "k < 2 ^ 32" and "accepts b r"
  shows "unat (tot + word_of_int r :: size_t) = unat tot + nat r"
proof -
  have "nat r \<le> remaining b" using assms(3) by (simp add: accepts_def nat_le_iff)
  with assms have "unat tot + unat (word_of_int r :: size_t) < 2 ^ LENGTH(32)"
    by (simp add: accepts_unat)
  then have "unat (tot + word_of_int r) = unat tot + unat (word_of_int r :: size_t)"
    by (rule unat_add_lem [THEN iffD1])
  with assms(3) show ?thesis by (simp add: accepts_unat)
qed

lemma remaining_bound: "remaining b < 2 ^ 32"
proof -
  have "unat (data_size b - amountWritten (asCommonView b)) < 2 ^ LENGTH(32)"
    by (rule unsigned_less)
  then show ?thesis by (simp add: remaining_def)
qed

text \<open>
  Accounting: the call returns; what it reports as written, plus what the buffer still holds,
  is what the buffer held before; \<open>amountWritten\<close> grows by the reported number, the queueing
  time stays, and a buffer that is finished afterwards carries no new error.
\<close>

definition write_counts :: "WriteQueueBuffer \<Rightarrow> size_t \<Rightarrow> WriteQueueBuffer \<Rightarrow> bool" where
  "write_counts b n b' \<longleftrightarrow>
     buf_ok b' \<and> unat n + remaining b' = remaining b \<and>
     amountWritten (asCommonView b') = amountWritten (asCommonView b) + n \<and>
     queuedAt (asCommonView b') = queuedAt (asCommonView b) \<and>
     (isFullyWritten b' \<longrightarrow> errorCode (asCommonView b') = errorCode (asCommonView b))"

lemma write_buffer_counts:
  assumes "write_sound os" and "buf_ok b" and "\<not> isFullyWritten b"
  shows "\<exists>n b' w'. write_buffer os b fd w = Some (n, b', w') \<and> write_counts b n b'"
proof -
  let ?I = "\<lambda>tot c w. unat tot + remaining c = remaining b \<and>
      amountWritten (asCommonView c) = amountWritten (asCommonView b) + tot \<and>
      queuedAt (asCommonView c) = queuedAt (asCommonView b) \<and>
      errorCode (asCommonView c) = errorCode (asCommonView b)"
  have "\<exists>x. write_loop os fd b 0 w = Some x \<and> (\<lambda>(n, b', w'). write_counts b n b') x"
  proof (rule write_loop_rule [where I = ?I, OF assms(1,3) buf_ok_unfinished [OF assms(2)]])
    show "?I 0 b w" by simp
  next
    fix tot c w r e w1
    assume "?I tot c w" and "accepts c r"
    then show "?I (tot + word_of_int r) (advance r c) w1"
      using unat_of_int_remaining [of tot c "remaining b" r] remaining_bound [of b]
      by (auto simp: advance_remaining accepts_def)
  next
    fix tot c w r e w1 t w2
    assume "?I tot c w" and "accepts c r" and "nat r = remaining c"
    then show "(\<lambda>(n, b', w'). write_counts b n b')
        (tot + word_of_int r, finish_at t (advance r c), w2)"
      using unat_of_int_remaining [of tot c "remaining b" r] remaining_bound [of b]
      by (auto simp: write_counts_def)
  next
    fix tot c w r e w1
    assume "?I tot c w" and "data_fits c" and "\<not> isFullyWritten c"
    then show "(\<lambda>(n, b', w'). write_counts b n b')
        (tot, if e = EAGAIN os \<or> e = EWOULDBLOCK os then c else fail_with e c, w1)"
      by (auto simp: write_counts_def buf_ok_def)
  qed
  then show ?thesis by (auto simp: write_buffer_def)
qed

text \<open>
  Stream order: the bytes the socket accepted during the call, followed by what the buffer
  still holds, are the bytes the buffer held. If the buffer is unfinished afterwards, the last
  write failed; if the socket was stuck before, nothing was accepted.
\<close>

definition write_streams ::
  "('w, 'ip) os \<Rightarrow> ('w \<Rightarrow> int \<Rightarrow> byte list) \<Rightarrow> ('w \<Rightarrow> int \<Rightarrow> bool) \<Rightarrow> int \<Rightarrow>
    WriteQueueBuffer \<Rightarrow> 'w \<Rightarrow> WriteQueueBuffer \<Rightarrow> 'w \<Rightarrow> bool"
where
  "write_streams os sent stuck fd b w b' w' \<longleftrightarrow>
     mem os w' = mem os w \<and>
     sent w' fd @ pending_bytes (mem os w) b' = sent w fd @ pending_bytes (mem os w) b \<and>
     (\<not> isFullyWritten b' \<longrightarrow> stuck w' fd) \<and>
     (stuck w fd \<longrightarrow> sent w' fd = sent w fd \<and> stuck w' fd)"

lemma write_buffer_streams:
  assumes "write_sound os" and "stream_law os sent" and "sticky_law os stuck"
    and "buf_ok b" and "\<not> isFullyWritten b"
  shows "\<exists>n b' w'. write_buffer os b fd w = Some (n, b', w') \<and>
    write_streams os sent stuck fd b w b' w'"
proof -
  let ?I = "\<lambda>tot c v. mem os v = mem os w \<and>
      sent v fd @ pending_bytes (mem os w) c = sent w fd @ pending_bytes (mem os w) b \<and>
      (stuck w fd \<longrightarrow> v = w)"
  have "\<exists>x. write_loop os fd b 0 w = Some x \<and>
      (\<lambda>(n, b', w'). write_streams os sent stuck fd b w b' w') x"
  proof (rule write_loop_rule [where I = ?I, OF assms(1,5) buf_ok_unfinished [OF assms(4)]])
    show "?I 0 b w" by simp
  next
    fix tot c v r e v1
    assume I: "?I tot c v" and "data_fits c" and acc: "accepts c r"
      and wr: "lwip_write os fd (pending_bytes (mem os v) c) v = ((r, e), v1)"
    moreover have "\<not> stuck v fd"
      using sticky_law_blocked [OF assms(3) wr] acc by (auto simp: accepts_def)
    ultimately show "?I (tot + word_of_int r) (advance r c) v1"
      using stream_law_write [OF assms(2) wr] by (auto simp: advance_pending accepts_def)
  next
    fix tot c v r e v1 t v2
    assume I: "?I tot c v" and "data_fits c" and acc: "accepts c r"
      and wr: "lwip_write os fd (pending_bytes (mem os v) c) v = ((r, e), v1)"
      and fin: "nat r = remaining c" and now: "steady_now os v1 = (t, v2)"
    moreover have "\<not> stuck v fd"
      using sticky_law_blocked [OF assms(3) wr] acc by (auto simp: accepts_def)
    ultimately show "(\<lambda>(n, b', w'). write_streams os sent stuck fd b w b' w')
        (tot + word_of_int r, finish_at t (advance r c), v2)"
      using stream_law_write [OF assms(2) wr] stream_law_now [OF assms(2) now]
        length_pending [of c "mem os w"]
      by (auto simp: write_streams_def accepts_def)
  next
    fix tot c v r e v1
    assume "?I tot c v" and "\<not> isFullyWritten c" and "r < 0"
      and wr: "lwip_write os fd (pending_bytes (mem os v) c) v = ((r, e), v1)"
    then show "(\<lambda>(n, b', w'). write_streams os sent stuck fd b w b' w')
        (tot, if e = EAGAIN os \<or> e = EWOULDBLOCK os then c else fail_with e c, v1)"
      using stream_law_write [OF assms(2) wr] sticky_law_fails [OF assms(3) wr]
      by (auto simp: write_streams_def)
  qed
  then show ?thesis by (auto simp: write_buffer_def)
qed

end
