(* ===== verification/WriteQueue.thy ===== *)
theory WriteQueue
  imports WriteQueueBuffer
begin

text \<open>
  The two loops of \<open>ClientBase\<close> over its write queue (\<open>src/src/ClientBase.tpp\<close>):
  \<open>_processWriteQueue\<close>, which pushes every unfinished entry into the socket, and the scan of
  \<open>_cleanupWriteQueue\<close>, which takes the finished entries off the front. The first is written
  over the interface it uses, the namespace \<open>WriteQueueBufferUtil\<close>, stated as a locale with
  the laws it needs; \<open>WriteQueueBuffer\<close> provides them.
\<close>

section \<open>The loops\<close>

text \<open>
  \<open>_processWriteQueue\<close>: the loop over \<open>_writeQueue\<close>, with \<open>_writeSpaceRemaining\<close> and the
  \<open>activity\<close> flag. An entry that already has an error ends the loop; an entry that gets its
  error, or finds the socket full, during this pass does not.
\<close>

fun process_queue ::
  "('b \<Rightarrow> bool) \<Rightarrow> ('b \<Rightarrow> bool) \<Rightarrow> ('b \<Rightarrow> 'w \<Rightarrow> (size_t \<times> 'b \<times> 'w) option) \<Rightarrow>
     bool \<Rightarrow> 'b list \<Rightarrow> size_t \<Rightarrow> 'w \<Rightarrow> (bool \<times> 'b list \<times> size_t \<times> 'w) option"
where
  "process_queue err full wr activity [] space w = Some (activity, [], space, w)"
| "process_queue err full wr activity (b # bs) space w =
     (if err b then Some (activity, b # bs, space, w)
      else if full b then
        (case process_queue err full wr activity bs space w of
           None \<Rightarrow> None
         | Some (a, bs', s, w') \<Rightarrow> Some (a, b # bs', s, w'))
      else
        (case wr b w of
           None \<Rightarrow> None
         | Some (written, b', w1) \<Rightarrow>
             (case process_queue err full wr (activity \<or> 0 < written) bs (space + written) w1 of
                None \<Rightarrow> None
              | Some (a, bs', s, w2) \<Rightarrow> Some (a, b' # bs', s, w2))))"

definition processWriteQueue ::
  "('w, 'ip) os \<Rightarrow> int \<Rightarrow> WriteQueueBuffer list \<Rightarrow> size_t \<Rightarrow> 'w \<Rightarrow>
     (bool \<times> WriteQueueBuffer list \<times> size_t \<times> 'w) option"
where
  "processWriteQueue os fd q space w =
     process_queue hasError isFullyWritten (\<lambda>b. write_buffer os b fd) False q space w"

text \<open>The statistics one finished entry reports: its length and how long it waited.\<close>

definition stats_of :: "WriteQueueBuffer \<Rightarrow> WriteStats" where
  "stats_of b =
     (let c = asCommonView b
      in \<lparr>ws_length = amountWritten c, ws_delay = cast_millis_u32 (writtenAt c - queuedAt c)\<rparr>)"

text \<open>
  The scan of \<open>_cleanupWriteQueue\<close>: the code of the first error met, if any; the statistics
  of the finished entries in front; \<open>_rx_last_packet\<close> advanced to their latest \<open>writtenAt\<close>;
  and what is left of the queue.
\<close>

fun cleanup_scan ::
  "WriteQueueBuffer list \<Rightarrow> time_point \<Rightarrow>
     int option \<times> WriteStats list \<times> time_point \<times> WriteQueueBuffer list"
where
  "cleanup_scan [] rx = (None, [], rx, [])"
| "cleanup_scan (b # bs) rx =
     (if hasError b then (Some (errorCode (asCommonView b)), [], rx, b # bs)
      else if \<not> isFullyWritten b then (None, [], rx, b # bs)
      else
        let rx1 = (if rx < writtenAt (asCommonView b) then writtenAt (asCommonView b) else rx);
            (e, stats, rx2, rest) = cleanup_scan bs rx1
        in (e, stats_of b # stats, rx2, rest))"

section \<open>The interface of a queue entry\<close>

text \<open>
  What \<open>_processWriteQueue\<close> needs of an entry: its three operations, the invariant \<open>ok\<close> they
  keep, the number \<open>rem\<close> of bytes it still holds, and \<open>sound\<close>, what is assumed of the
  socket underneath.
\<close>

locale buffer_util =
  fixes err :: "'b \<Rightarrow> bool"
    and full :: "'b \<Rightarrow> bool"
    and wr :: "'b \<Rightarrow> 'w \<Rightarrow> (size_t \<times> 'b \<times> 'w) option"
    and ok :: "'b \<Rightarrow> bool"
    and rem :: "'b \<Rightarrow> nat"
    and sound :: bool
  assumes wr_counts: "sound \<Longrightarrow> ok b \<Longrightarrow> \<not> full b \<Longrightarrow>
      \<exists>n b' w'. wr b w = Some (n, b', w') \<and> ok b' \<and> unat n + rem b' = rem b"
begin

lemma pass_counts:
  assumes "sound" and "\<forall>b \<in> set q. ok b" and "unat space + sum_list (map rem q) < 2 ^ 32"
  shows "\<exists>a q' s w'. process_queue err full wr act q space w = Some (a, q', s, w') \<and>
    length q' = length q \<and> (\<forall>b \<in> set q'. ok b) \<and>
    unat s + sum_list (map rem q') = unat space + sum_list (map rem q) \<and>
    (a \<longleftrightarrow> act \<or> sum_list (map rem q') < sum_list (map rem q)) \<and>
    sum_list (map rem q') \<le> sum_list (map rem q)"
  using assms(2,3)
proof (induction q arbitrary: act space w)
  case Nil
  then show ?case by simp
next
  case (Cons b q)
  show ?case
  proof (cases "err b")
    case True
    then show ?thesis using Cons.prems by simp
  next
    case noerr: False
    show ?thesis
    proof (cases "full b")
      case True
      have ex: "\<exists>a q' s w'. process_queue err full wr act q space w = Some (a, q', s, w') \<and>
          length q' = length q \<and> (\<forall>b \<in> set q'. ok b) \<and>
          unat s + sum_list (map rem q') = unat space + sum_list (map rem q) \<and>
          (a \<longleftrightarrow> act \<or> sum_list (map rem q') < sum_list (map rem q)) \<and>
          sum_list (map rem q') \<le> sum_list (map rem q)"
        by (rule Cons.IH) (use Cons.prems in auto)
      then show ?thesis using noerr True Cons.prems by auto
    next
      case False
      from Cons.prems have "ok b" by simp
      from wr_counts [OF assms(1) this False] obtain n b' w1
        where w: "wr b w = Some (n, b', w1)" and "ok b'" and n: "unat n + rem b' = rem b"
        by blast
      have "unat space + unat n < 2 ^ LENGTH(32)"
        using Cons.prems(2) n by simp
      then have sp: "unat (space + n) = unat space + unat n"
        by (rule unat_add_lem [THEN iffD1])
      have "\<exists>a q' s w'. process_queue err full wr (act \<or> 0 < n) q (space + n) w1 = Some (a, q', s, w') \<and>
          length q' = length q \<and> (\<forall>b \<in> set q'. ok b) \<and>
          unat s + sum_list (map rem q') = unat (space + n) + sum_list (map rem q) \<and>
          (a \<longleftrightarrow> (act \<or> 0 < n) \<or> sum_list (map rem q') < sum_list (map rem q)) \<and>
          sum_list (map rem q') \<le> sum_list (map rem q)"
        by (rule Cons.IH) (use Cons.prems sp n in auto)
      then show ?thesis
        using noerr False w \<open>ok b'\<close> n sp by (auto simp: word_less_nat_alt)
    qed
  qed
qed

end

text \<open>
  With a byte stream underneath: \<open>sent\<close> is what the socket accepted, \<open>pend\<close> the bytes an
  entry still holds, and \<open>stuck\<close> says that the socket accepts nothing more in this pass.
\<close>

locale fifo_buffer_util = buffer_util err full wr ok rem sound
  for err :: "'b \<Rightarrow> bool" and full :: "'b \<Rightarrow> bool"
    and wr :: "'b \<Rightarrow> 'w \<Rightarrow> (size_t \<times> 'b \<times> 'w) option"
    and ok :: "'b \<Rightarrow> bool" and rem :: "'b \<Rightarrow> nat" and sound :: bool +
  fixes sent :: "'w \<Rightarrow> byte list"
    and pend :: "'w \<Rightarrow> 'b \<Rightarrow> byte list"
    and stuck :: "'w \<Rightarrow> bool"
  assumes wr_stream: "sound \<Longrightarrow> ok b \<Longrightarrow> \<not> full b \<Longrightarrow> wr b w = Some (n, b', w') \<Longrightarrow>
      pend w' = pend w \<and> sent w' @ pend w b' = sent w @ pend w b \<and>
      (\<not> full b' \<longrightarrow> stuck w') \<and> (stuck w \<longrightarrow> sent w' = sent w \<and> stuck w')"
    and full_pend: "full b \<Longrightarrow> pend w b = []"
begin

lemma pass_stuck:
  assumes "sound" and "\<forall>b \<in> set q. ok b" and "stuck w"
    and "process_queue err full wr act q space w = Some (a, q', s, w')"
  shows "sent w' = sent w \<and> pend w' = pend w \<and>
    concat (map (pend w) q') = concat (map (pend w) q)"
  using assms(2-4)
proof (induction q arbitrary: act space w a q' s w')
  case Nil
  then show ?case by simp
next
  case (Cons b q)
  show ?case
  proof (cases "err b \<or> full b")
    case True
    with Cons.prems show ?thesis
      by (auto split: if_splits option.splits dest!: Cons.IH)
  next
    case False
    with Cons.prems(3) obtain n b' w1 q1 where w: "wr b w = Some (n, b', w1)"
      and p: "process_queue err full wr (act \<or> 0 < n) q (space + n) w1 = Some (a, q1, s, w')"
      and q': "q' = b' # q1"
      by (auto split: option.splits)
    from Cons.prems False have "ok b" and "\<not> full b" by auto
    note st = wr_stream [OF assms(1) this w]
    with Cons.prems p have "sent w' = sent w1 \<and> pend w' = pend w1 \<and>
        concat (map (pend w1) q1) = concat (map (pend w1) q)"
      by (intro Cons.IH [of w1 "act \<or> 0 < n" "space + n"]) auto
    with st Cons.prems(2) q' show ?thesis by auto
  qed
qed

lemma pass_fifo:
  assumes "sound" and "\<forall>b \<in> set q. ok b"
    and "process_queue err full wr act q space w = Some (a, q', s, w')"
  shows "pend w' = pend w \<and>
    sent w' @ concat (map (pend w) q') = sent w @ concat (map (pend w) q)"
  using assms(2,3)
proof (induction q arbitrary: act space w a q' s w')
  case Nil
  then show ?case by simp
next
  case (Cons b q)
  show ?case
  proof (cases "err b \<or> full b")
    case True
    with Cons.prems show ?thesis
      by (auto split: if_splits option.splits simp: full_pend dest!: Cons.IH)
  next
    case False
    with Cons.prems(2) obtain n b' w1 q1 where w: "wr b w = Some (n, b', w1)"
      and p: "process_queue err full wr (act \<or> 0 < n) q (space + n) w1 = Some (a, q1, s, w')"
      and q': "q' = b' # q1"
      by (auto split: option.splits)
    from Cons.prems False have "ok b" and "\<not> full b" by auto
    note st = wr_stream [OF assms(1) this w]
    show ?thesis
    proof (cases "full b'")
      case True
      have "pend w' = pend w1 \<and>
          sent w' @ concat (map (pend w1) q1) = sent w1 @ concat (map (pend w1) q)"
        by (rule Cons.IH [OF _ p]) (use Cons.prems in simp)
      moreover have "sent w1 = sent w @ pend w b" using st True by (simp add: full_pend)
      ultimately show ?thesis using st q' True by (simp add: full_pend)
    next
      case False
      with st have "stuck w1" by simp
      have "sent w' = sent w1 \<and> pend w' = pend w1 \<and>
          concat (map (pend w1) q1) = concat (map (pend w1) q)"
        by (rule pass_stuck [OF assms(1) _ \<open>stuck w1\<close> p]) (use Cons.prems in simp)
      with st q' show ?thesis by simp
    qed
  qed
qed

end

section \<open>The provider\<close>

interpretation wqb: buffer_util hasError isFullyWritten "\<lambda>b. write_buffer os b fd" buf_ok remaining
  "write_sound os"
  for os :: "('w, 'ip) os" and fd :: int
proof
  fix b w
  assume "write_sound os" and "buf_ok b" and "\<not> isFullyWritten b"
  from write_buffer_counts [OF this] show "\<exists>n b' w'. write_buffer os b fd w = Some (n, b', w') \<and>
      buf_ok b' \<and> unat n + remaining b' = remaining b"
    unfolding write_counts_def by blast
qed

interpretation wqf: fifo_buffer_util hasError isFullyWritten "\<lambda>b. write_buffer os b fd" buf_ok
  remaining "write_sound os \<and> stream_law os sent \<and> sticky_law os stuck"
  "\<lambda>w. sent w fd" "\<lambda>w. pending_bytes (mem os w)" "\<lambda>w. stuck w fd"
  for os :: "('w, 'ip) os" and fd :: int and sent :: "'w \<Rightarrow> int \<Rightarrow> byte list"
    and stuck :: "'w \<Rightarrow> int \<Rightarrow> bool"
proof
  fix b w
  assume "write_sound os \<and> stream_law os sent \<and> sticky_law os stuck"
    and "buf_ok b" and "\<not> isFullyWritten b"
  then show "\<exists>n b' w'. write_buffer os b fd w = Some (n, b', w') \<and>
      buf_ok b' \<and> unat n + remaining b' = remaining b"
    using write_buffer_counts [of os b fd w] by (auto simp: write_counts_def)
next
  fix b w n b' w'
  assume "write_sound os \<and> stream_law os sent \<and> sticky_law os stuck"
    and "buf_ok b" and "\<not> isFullyWritten b" and "write_buffer os b fd w = Some (n, b', w')"
  then show "pending_bytes (mem os w') = pending_bytes (mem os w) \<and>
      sent w' fd @ pending_bytes (mem os w) b' = sent w fd @ pending_bytes (mem os w) b \<and>
      (\<not> isFullyWritten b' \<longrightarrow> stuck w' fd) \<and> (stuck w fd \<longrightarrow> sent w' fd = sent w fd \<and> stuck w' fd)"
    using write_buffer_streams [of os sent stuck b fd w] by (auto simp: write_streams_def)
next
  fix b w
  assume "isFullyWritten b"
  then show "pending_bytes (mem os w) b = []" by (simp add: pending_bytes_def)
qed

end
