(* ===== verification/Sample.thy ===== *)
theory Sample
  imports Lwip
begin

text \<open>
  A small concrete platform, used only by the witnesses: it shows that the hypotheses of the
  theorems can hold, and lets them be evaluated on concrete runs. Its socket accepts data as a
  script says: an entry \<open>Suc k\<close> accepts at most \<open>Suc k\<close> bytes, an entry \<open>0\<close> refuses one
  call with \<open>EAGAIN\<close> (and stays in place on the \<open>steady\<close> variant), and an exhausted script
  refuses every call.
\<close>

record sample_world =
  script :: "nat list"
  clock :: time_point
  outs :: "int \<Rightarrow> byte list"
  bytes_at :: "ptr \<Rightarrow> byte"

definition sample_write ::
  "bool \<Rightarrow> int \<Rightarrow> byte list \<Rightarrow> sample_world \<Rightarrow> (int \<times> int) \<times> sample_world"
where
  "sample_write steady fd bs w =
     (case script w of
        [] \<Rightarrow> ((-1, 11), w)
      | k # ks \<Rightarrow>
          (if k = 0 then ((-1, 11), if steady then w else w\<lparr>script := ks\<rparr>)
           else let n = min k (length bs)
                in ((int n, 0),
                    w\<lparr>script := ks, outs := (outs w)(fd := outs w fd @ take n bs)\<rparr>)))"

definition sample_os :: "bool \<Rightarrow> (sample_world, u32) os" where
  "sample_os steady =
     \<lparr>TCP_SND_BUF = 5760, TCP_MSS = 1440, CONFIG_LWIP_MAX_SOCKETS = Some 16,
      EAGAIN = 11, EWOULDBLOCK = 11, O_NONBLOCK = 1, ERR_OK = 0, ERR_INPROGRESS = -5,
      ERR_ABRT = -13, sizeof_sockaddr_in = 16, htons = (\<lambda>p. p),
      IPAddress_none = 0, IPAddress_any = 0, IPAddress_u32 = (\<lambda>i. i),
      mem = bytes_at,
      steady_now = (\<lambda>w. (clock w, w\<lparr>clock := clock w + 1000000\<rparr>)),
      sys_socket = (\<lambda>w. (50, w)),
      sys_connect = (\<lambda>fd a w. ((-1, 119), w)),
      sys_close = (\<lambda>fd w. w),
      fcntl_getfl = (\<lambda>fd w. (0, w)),
      fcntl_setfl = (\<lambda>fd fl w. (if fd < 0 then -1 else 0, w)),
      setsockopt = (\<lambda>fd opt w. (0, w)),
      getsockopt_error = (\<lambda>fd w. (if fd < 0 then (-1, 9, 0) else (0, 0, 0), w)),
      getsockopt_nodelay = (\<lambda>fd w. ((0, 0), w)),
      select_w = (\<lambda>fd w. (1, w)),
      select_r = (\<lambda>fd w. (0, w)),
      lwip_write = sample_write steady,
      lwip_read = (\<lambda>fd n w. ((-1, 11, []), w)),
      dns_gethostbyname = (\<lambda>host self w. ((-5, 0), w)),
      sys_bind = (\<lambda>fd a w. (0, w)),
      sys_listen = (\<lambda>fd n w. (0, w)),
      sys_accept = (\<lambda>fd w. (51, w)),
      select_all = (\<lambda>n rs ws w. ((1, rs, ws), w)),
      operator_new = (\<lambda>used w.
        (if \<not> used 4096 then Some 4096 else if \<not> used 8192 then Some 8192 else None, w))\<rparr>"

definition sample_start :: "nat list \<Rightarrow> sample_world" where
  "sample_start ks = \<lparr>script = ks, clock = 0, outs = (\<lambda>_. []), bytes_at = (\<lambda>p. ucast p)\<rparr>"

definition sample_stuck :: "sample_world \<Rightarrow> int \<Rightarrow> bool" where
  "sample_stuck w fd \<longleftrightarrow> script w = [] \<or> hd (script w) = 0"

lemma sample_write_sound: "write_sound (sample_os steady)"
  by (auto simp: write_sound_def sample_os_def sample_write_def Let_def split: list.splits if_splits)

lemma sample_stream_law: "stream_law (sample_os steady) outs"
  by (auto simp: stream_law_def sample_os_def sample_write_def Let_def
      split: list.splits if_splits)

lemma sample_sticky_law: "sticky_law (sample_os True) sample_stuck"
  by (auto simp: sticky_law_def sample_os_def sample_write_def sample_stuck_def Let_def
      split: list.splits if_splits)

lemma sample_badfd_law: "badfd_law (sample_os steady)"
  by (auto simp: badfd_law_def sample_os_def)

lemma sample_new_law: "new_law (sample_os steady)"
  by (auto simp: new_law_def sample_os_def split: if_splits)

end
