(* ===== verification/QueueProperties.thy ===== *)
theory QueueProperties
  imports WriteQueue Sample
begin

text \<open>
  What the write queue promises: a pass over it returns and accounts for every byte, it keeps
  the byte order on a socket that stays full once it is full, and what happens on one that
  does not.
\<close>

definition sample_buffer :: "byte list \<Rightarrow> WriteQueueBuffer" where
  "sample_buffer bs =
     OwnedWriteQueueBuffer \<lparr>amountWritten = 0, queuedAt = 0, writtenAt = 0, errorCode = 0\<rparr> bs"

lemma sample_buffer_ok: "bs \<noteq> [] \<Longrightarrow> length bs < 2 ^ 32 \<Longrightarrow> buf_ok (sample_buffer bs)"
  by (auto simp: buf_ok_def sample_buffer_def isFullyWritten_def word_le_nat_alt
      unsigned_of_nat take_bit_nat_eq_self)

text \<open>
  C17: \<open>_processWriteQueue\<close> returns on every socket that makes progress or fails. The free
  space and the bytes still queued add up to what they were before, no entry is added or
  removed, and the flag it returns says exactly whether any byte was written.
\<close>

theorem process_accounts:
  assumes "write_sound os" and "\<forall>b \<in> set q. buf_ok b"
    and "unat space + sum_list (map remaining q) < 2 ^ 32"
  shows "\<exists>activity q' space' w'.
    processWriteQueue os fd q space w = Some (activity, q', space', w') \<and>
    length q' = length q \<and> (\<forall>b \<in> set q'. buf_ok b) \<and>
    unat space' + sum_list (map remaining q') = unat space + sum_list (map remaining q) \<and>
    (activity \<longleftrightarrow> sum_list (map remaining q') < sum_list (map remaining q))"
  using wqb.pass_counts [OF assms, of fd False w] unfolding processWriteQueue_def by fastforce

theorem process_accounts_witness:
  "\<exists>activity q' space' w'.
    processWriteQueue (sample_os False) 50 [sample_buffer [1, 2], sample_buffer [3]] 100
      (sample_start [1, 0, 2]) = Some (activity, q', space', w') \<and>
    unat space' + sum_list (map remaining q') = 103"
proof -
  have r: "remaining (sample_buffer [1, 2]) = 2" "remaining (sample_buffer [3]) = 1"
    by (simp_all add: remaining_def sample_buffer_def isFullyWritten_def)
  have "\<forall>b \<in> set [sample_buffer [1, 2], sample_buffer [3]]. buf_ok b"
    by (simp add: sample_buffer_ok)
  from process_accounts [OF sample_write_sound this, of 100 False 50 "sample_start [1, 0, 2]"]
  show ?thesis by (simp add: r) blast
qed

text \<open>
  Byte order. On a socket that accepts nothing more in a pass once a write has failed, the
  bytes accepted during the pass followed by the bytes still queued are the bytes accepted
  before followed by the bytes queued before: the application's bytes leave in the order they
  were added, across all entries of the queue, and none is lost or sent twice.
\<close>

lemma process_keeps_order:
  assumes "write_sound os" and "stream_law os sent" and "sticky_law os stuck"
    and "\<forall>b \<in> set q. buf_ok b"
    and "processWriteQueue os fd q space w = Some (activity, q', space', w')"
  shows "sent w' fd @ concat (map (pending_bytes (mem os w')) q') =
    sent w fd @ concat (map (pending_bytes (mem os w)) q)"
proof -
  from assms(1-3) have "write_sound os \<and> stream_law os sent \<and> sticky_law os stuck" by simp
  from wqf.pass_fifo [OF this assms(4) assms(5) [unfolded processWriteQueue_def]]
  show ?thesis by simp
qed

lemma process_keeps_order_example:
  "\<exists>activity q' space' w'.
    processWriteQueue (sample_os True) 50 [sample_buffer [1, 2], sample_buffer [3, 4]] 100
      (sample_start [1, 2, 1, 0, 2]) = Some (activity, q', space', w') \<and>
    outs w' 50 = [1, 2, 3] \<and>
    outs w' 50 @ concat (map (pending_bytes (bytes_at w')) q') = [1, 2, 3, 4]"
proof -
  let ?q = "[sample_buffer [1, 2], sample_buffer [3, 4]]"
  let ?r = "processWriteQueue (sample_os True) 50 ?q 100 (sample_start [1, 2, 1, 0, 2])"
  have o: "map_option (\<lambda>(a, q, s, w). outs w 50) ?r = Some [1, 2, 3]" by code_simp
  then obtain a q' s w' where r: "?r = Some (a, q', s, w')" and w': "outs w' 50 = [1, 2, 3]"
    by (cases ?r) auto
  have "\<forall>b \<in> set ?q. buf_ok b" by (simp add: sample_buffer_ok)
  from process_keeps_order [OF sample_write_sound sample_stream_law sample_sticky_law this r]
  have "outs w' 50 @ concat (map (pending_bytes (bytes_at w')) q') =
      concat (map (pending_bytes (bytes_at (sample_start [1, 2, 1, 0, 2]))) ?q)"
    by (simp add: sample_os_def sample_start_def)
  also have "\<dots> = [1, 2, 3, 4]"
    by (simp add: pending_bytes_def sample_buffer_def isFullyWritten_def)
  finally show ?thesis using r w' by blast
qed

text \<open>
  C33: the order is lost on a socket whose buffer drains between two writes of one pass. The
  first entry holds the bytes 1 and 2, the second 3 and 4; the socket accepts one byte,
  refuses once, and then has room: the loop goes on to the second entry, so 3 and 4 are sent
  before 2. Every law of a stream socket holds here but the one that it stays full.
\<close>

theorem process_reorders:
  "\<exists>activity q' space' w'.
    processWriteQueue (sample_os False) 50 [sample_buffer [1, 2], sample_buffer [3, 4]] 100
      (sample_start [1, 0, 2, 1]) = Some (activity, q', space', w') \<and>
    outs w' 50 = [1, 3, 4] \<and> map remaining q' = [1, 0] \<and>
    write_sound (sample_os False) \<and> stream_law (sample_os False) outs"
proof -
  let ?r = "processWriteQueue (sample_os False) 50 [sample_buffer [1, 2], sample_buffer [3, 4]] 100
    (sample_start [1, 0, 2, 1])"
  have "map_option (\<lambda>(a, q, s, w). (map remaining q, outs w 50)) ?r = Some ([1, 0], [1, 3, 4])"
    by code_simp
  then show ?thesis
    using sample_write_sound [of False] sample_stream_law [of False] by (cases ?r) auto
qed

end
