(* ===== verification/SocketConnection.thy ===== *)
theory SocketConnection
  imports Lwip
begin

text \<open>
  \<open>src/src/SocketConnection.hpp\<close> and \<open>.tpp\<close>: the base class of clients and servers. It
  holds the descriptor (\<open>-1\<close> when there is none), the flag the DNS thread sets, and the time
  the manager last saw activity.
\<close>

record SocketConnection =
  socket :: int
  dnsFinished :: bool
  lastActive :: time_point

definition isOpen :: "'a SocketConnection_scheme \<Rightarrow> bool" where
  "isOpen c \<longleftrightarrow> socket c \<noteq> -1"

definition getSocket :: "'a SocketConnection_scheme \<Rightarrow> int" where
  "getSocket c = socket c"

definition isDnsFinished :: "'a SocketConnection_scheme \<Rightarrow> bool" where
  "isDnsFinished c = dnsFinished c"

definition setDnsFinished ::
  "bool \<Rightarrow> 'a SocketConnection_scheme \<Rightarrow> 'a SocketConnection_scheme"
where
  "setDnsFinished finished c = c\<lparr>dnsFinished := finished\<rparr>"

definition getLastActive :: "'a SocketConnection_scheme \<Rightarrow> time_point" where
  "getLastActive c = lastActive c"

definition setLastActive ::
  "time_point \<Rightarrow> 'a SocketConnection_scheme \<Rightarrow> 'a SocketConnection_scheme"
where
  "setLastActive when c = c\<lparr>lastActive := when\<rparr>"

text \<open>
  \<open>_configureSocket\<close> makes the descriptor non-blocking and stores it. When \<open>fcntl\<close> fails it
  closes the descriptor and then stores it all the same.
\<close>

definition configureSocket ::
  "('w, 'ip) os \<Rightarrow> int \<Rightarrow> 'a SocketConnection_scheme \<Rightarrow> 'w \<Rightarrow> 'a SocketConnection_scheme \<times> 'w"
where
  "configureSocket os fd c w =
     (let (fl, w1) = fcntl_getfl os fd w;
          (res, w2) = fcntl_setfl os fd (or fl (O_NONBLOCK os)) w1;
          w3 = (if res < 0 then sys_close os fd w2 else w2)
      in (c\<lparr>socket := fd\<rparr>, w3))"

text \<open>The default constructor: no socket, active now.\<close>

definition SocketConnection_init :: "('w, 'ip) os \<Rightarrow> 'w \<Rightarrow> SocketConnection \<times> 'w" where
  "SocketConnection_init os w =
     (let (t, w1) = steady_now os w
      in (\<lparr>socket = -1, dnsFinished = False, lastActive = t\<rparr>, w1))"

lemma configureSocket_fst: "fst (configureSocket os fd c w) = c\<lparr>socket := fd\<rparr>"
  by (simp add: configureSocket_def split: prod.splits)

end
