(* ===== verification/Callbacks.thy ===== *)
theory Callbacks
  imports Prelude
begin

text \<open>
  \<open>src/src/Callbacks.hpp\<close>: the callback slots of a client and of a server, and \<open>invoke\<close>,
  which picks the slot of a callback type and calls its handler with its argument. A handler
  (\<open>std::function\<close>) is named by a number; what the function does is a parameter of the
  model (theory \<open>Machine\<close>). An empty \<open>std::function\<close> is \<open>None\<close>.
\<close>

type_synonym handler = nat

datatype ClientCallbackType = CONNECT | DISCONNECT | POLL | SENT | RECV | ERROR | TIMEOUT

text \<open>A call of a client callback, with the arguments that follow the client pointer.\<close>

datatype cb_event =
    EvConnect
  | EvDisconnect
  | EvPoll
  | EvSent size_t u32           \<comment> \<open>length, delay in milliseconds\<close>
  | EvRecv "byte list"          \<comment> \<open>contents of the shared read buffer\<close>
  | EvError int
  | EvTimeout u32
  | EvAccept ptr                \<comment> \<open>the server's only callback\<close>

fun cb_type :: "cb_event \<Rightarrow> ClientCallbackType option" where
  "cb_type EvConnect = Some CONNECT"
| "cb_type EvDisconnect = Some DISCONNECT"
| "cb_type EvPoll = Some POLL"
| "cb_type (EvSent n d) = Some SENT"
| "cb_type (EvRecv bs) = Some RECV"
| "cb_type (EvError e) = Some ERROR"
| "cb_type (EvTimeout d) = Some TIMEOUT"
| "cb_type (EvAccept p) = None"

record ClientCallbacks =
  connectArg :: ptr
  connectHandler :: "handler option"
  disconnectArg :: ptr
  disconnectHandler :: "handler option"
  pollArg :: ptr
  pollHandler :: "handler option"
  sentArg :: ptr
  sentHandler :: "handler option"
  recvArg :: ptr
  recvHandler :: "handler option"
  errorArg :: ptr
  errorHandler :: "handler option"
  timeoutArg :: ptr
  timeoutHandler :: "handler option"

definition ClientCallbacks_init :: ClientCallbacks where
  "ClientCallbacks_init =
     \<lparr>connectArg = 0, connectHandler = None, disconnectArg = 0, disconnectHandler = None,
      pollArg = 0, pollHandler = None, sentArg = 0, sentHandler = None,
      recvArg = 0, recvHandler = None, errorArg = 0, errorHandler = None,
      timeoutArg = 0, timeoutHandler = None\<rparr>"

text \<open>
  The \<open>if constexpr\<close> chain of \<open>invoke\<close>: the handler and the argument of a type, \<open>None\<close>
  where the handler is empty (the call returns at once).
\<close>

fun select_handler :: "ClientCallbacks \<Rightarrow> ClientCallbackType \<Rightarrow> (handler \<times> ptr) option" where
  "select_handler cb CONNECT = map_option (\<lambda>h. (h, connectArg cb)) (connectHandler cb)"
| "select_handler cb DISCONNECT = map_option (\<lambda>h. (h, disconnectArg cb)) (disconnectHandler cb)"
| "select_handler cb POLL = map_option (\<lambda>h. (h, pollArg cb)) (pollHandler cb)"
| "select_handler cb SENT = map_option (\<lambda>h. (h, sentArg cb)) (sentHandler cb)"
| "select_handler cb RECV = map_option (\<lambda>h. (h, recvArg cb)) (recvHandler cb)"
| "select_handler cb ERROR = map_option (\<lambda>h. (h, errorArg cb)) (errorHandler cb)"
| "select_handler cb TIMEOUT = map_option (\<lambda>h. (h, timeoutArg cb)) (timeoutHandler cb)"

record ServerCallbacks =
  acceptArg :: ptr
  acceptHandler :: "handler option"

text \<open>The setters of \<open>Client\<close> (\<open>onConnect\<close>, \<dots>), one slot each.\<close>

fun set_handler ::
  "ClientCallbackType \<Rightarrow> handler option \<Rightarrow> ptr \<Rightarrow> ClientCallbacks \<Rightarrow> ClientCallbacks"
where
  "set_handler CONNECT h a cb = cb\<lparr>connectHandler := h, connectArg := a\<rparr>"
| "set_handler DISCONNECT h a cb = cb\<lparr>disconnectHandler := h, disconnectArg := a\<rparr>"
| "set_handler POLL h a cb = cb\<lparr>pollHandler := h, pollArg := a\<rparr>"
| "set_handler SENT h a cb = cb\<lparr>sentHandler := h, sentArg := a\<rparr>"
| "set_handler RECV h a cb = cb\<lparr>recvHandler := h, recvArg := a\<rparr>"
| "set_handler ERROR h a cb = cb\<lparr>errorHandler := h, errorArg := a\<rparr>"
| "set_handler TIMEOUT h a cb = cb\<lparr>timeoutHandler := h, timeoutArg := a\<rparr>"

lemma select_set_handler:
  "select_handler (set_handler t h a cb) t' =
     (if t = t' then map_option (\<lambda>f. (f, a)) h else select_handler cb t')"
  by (cases t; cases t') auto

end
