(* ===== verification/ClientBase.thy ===== *)
theory ClientBase
  imports WriteQueue SocketConnection Callbacks
begin

text \<open>
  \<open>src/src/ClientBase.hpp\<close> and \<open>.tpp\<close>: the state of a client and the operations the
  application calls. None of them runs a callback; the handlers the manager task calls, which
  do, are in theory \<open>ClientHandlers\<close>. Every operation takes the client and the world and
  returns its result with both, or a fault.
\<close>

section \<open>API flags\<close>

datatype ClientApiFlag = COPY | IMMEDIATE

fun flag_bits :: "ClientApiFlag \<Rightarrow> u8" where
  "flag_bits COPY = 1"
| "flag_bits IMMEDIATE = 2"

record ClientApiFlags =
  bits :: u8

definition flags_of :: "ClientApiFlag \<Rightarrow> ClientApiFlags" where
  "flags_of value = \<lparr>bits = flag_bits value\<rparr>"

definition flags_set :: "ClientApiFlag \<Rightarrow> ClientApiFlags \<Rightarrow> ClientApiFlags" where
  "flags_set flag f = f\<lparr>bits := or (bits f) (flag_bits flag)\<rparr>"

definition flags_unset :: "ClientApiFlag \<Rightarrow> ClientApiFlags \<Rightarrow> ClientApiFlags" where
  "flags_unset flag f = f\<lparr>bits := and (bits f) (not (flag_bits flag))\<rparr>"

definition flags_test :: "ClientApiFlags \<Rightarrow> ClientApiFlag \<Rightarrow> bool" where
  "flags_test f flag \<longleftrightarrow> and (bits f) (flag_bits flag) \<noteq> 0"

definition flags_or :: "ClientApiFlag \<Rightarrow> ClientApiFlag \<Rightarrow> ClientApiFlags" where
  "flags_or lhs rhs = flags_set rhs (flags_of lhs)"

section \<open>State\<close>

datatype ConnectionState = DISCONNECTED | WAITING_FOR_DNS | CONNECTING | CONNECTED | DISCONNECTING

definition ERR_DNS_RESOLUTION_FAILED :: int where
  "ERR_DNS_RESOLUTION_FAILED = -55"

text \<open>The value the source checks \<open>EINPROGRESS\<close> to have.\<close>

definition EINPROGRESS :: int where
  "EINPROGRESS = 119"

definition CONFIG_ASYNC_TCP_MAX_ACK_TIME :: int where
  "CONFIG_ASYNC_TCP_MAX_ACK_TIME = 5000"

text \<open>\<open>writeMutex\<close> is whether \<open>_writeMutex\<close> is held.\<close>

record 'ip ClientBase = SocketConnection +
  callbacks :: ClientCallbacks
  conn_state :: ConnectionState
  writeMutex :: bool
  writeSpaceRemaining :: size_t
  writeQueue :: "WriteQueueBuffer list"
  cl_ip :: 'ip
  cl_port :: u16
  ack_timeout :: "duration option"
  rx_timeout :: "duration option"
  rx_last_packet :: time_point
  ack_timeout_signaled :: bool

definition INITIAL_WRITE_SPACE :: "('w, 'ip) os \<Rightarrow> size_t" where
  "INITIAL_WRITE_SPACE os = TCP_SND_BUF os"

text \<open>The member initialisers, around a constructed base object.\<close>

definition ClientBase_fields :: "('w, 'ip) os \<Rightarrow> SocketConnection \<Rightarrow> 'ip ClientBase" where
  "ClientBase_fields os s =
     \<lparr>socket = socket s, dnsFinished = dnsFinished s, lastActive = lastActive s,
      callbacks = ClientCallbacks_init, conn_state = DISCONNECTED, writeMutex = False,
      writeSpaceRemaining = INITIAL_WRITE_SPACE os, writeQueue = [],
      cl_ip = IPAddress_none os, cl_port = 0,
      ack_timeout = Some (CONFIG_ASYNC_TCP_MAX_ACK_TIME * nanos_per_milli), rx_timeout = None,
      rx_last_packet = 0, ack_timeout_signaled = False\<rparr>"

text \<open>\<open>ClientBase()\<close> and \<open>ClientBase(int socket)\<close>.\<close>

definition ClientBase_new :: "('w, 'ip) os \<Rightarrow> 'w \<Rightarrow> 'ip ClientBase \<times> 'w" where
  "ClientBase_new os w =
     (let (s, w1) = SocketConnection_init os w in (ClientBase_fields os s, w1))"

definition ClientBase_accepted :: "('w, 'ip) os \<Rightarrow> int \<Rightarrow> 'w \<Rightarrow> 'ip ClientBase \<times> 'w" where
  "ClientBase_accepted os fd w =
     (let (s, w1) = SocketConnection_init os w;
          (s1, w2) = configureSocket os fd s w1;
          c = ClientBase_fields os s1
      in if 0 < socket c then
           let (t, w3) = steady_now os w2
           in (c\<lparr>conn_state := CONNECTED, rx_last_packet := t\<rparr>, w3)
         else (c, w2))"

section \<open>The write mutex\<close>

definition lock_write :: "'ip ClientBase \<Rightarrow> 'ip ClientBase res" where
  "lock_write c = (if writeMutex c then Inl Deadlock else Inr (c\<lparr>writeMutex := True\<rparr>))"

definition unlock_write :: "'ip ClientBase \<Rightarrow> 'ip ClientBase" where
  "unlock_write c = c\<lparr>writeMutex := False\<rparr>"

section \<open>Queries\<close>

definition freeable :: "'ip ClientBase \<Rightarrow> bool" where
  "freeable c = (if \<not> isOpen c then True else conn_state c = DISCONNECTED)"

definition connected :: "'ip ClientBase \<Rightarrow> bool" where
  "connected c \<longleftrightarrow> conn_state c = CONNECTED"

definition space :: "'ip ClientBase \<Rightarrow> size_t" where
  "space c = (if \<not> connected c then 0 else writeSpaceRemaining c)"

definition canSend :: "'ip ClientBase \<Rightarrow> bool" where
  "canSend c \<longleftrightarrow> 0 < space c"

section \<open>Connecting\<close>

text \<open>Runs in the lwIP thread when a name has been resolved (\<open>None\<close>: it has not).\<close>

definition dnsFoundCallback ::
  "('w, 'ip) os \<Rightarrow> 'ip option \<Rightarrow> 'ip ClientBase \<Rightarrow> 'ip ClientBase"
where
  "dnsFoundCallback os ip c =
     setDnsFinished True (c\<lparr>cl_ip := (case ip of Some a \<Rightarrow> a | None \<Rightarrow> IPAddress_none os)\<rparr>)"

definition connect_ip ::
  "('w, 'ip) os \<Rightarrow> 'ip \<Rightarrow> u16 \<Rightarrow> 'ip ClientBase \<Rightarrow> 'w \<Rightarrow> bool \<times> 'ip ClientBase \<times> 'w"
where
  "connect_ip os ip port c w =
     (if isOpen c then (False, c, w)
      else
        let (fd, w1) = sys_socket os w
        in if fd < 0 then (False, c, w1)
           else
             let serveraddr = \<lparr>sin_len = sizeof_sockaddr_in os, sin_port = htons os port,
                   s_addr = IPAddress_u32 os ip\<rparr>;
                 ((result, errno), w2) = sys_connect os fd serveraddr w1
             in if result < 0 \<and> errno \<noteq> EINPROGRESS then (False, c, sys_close os fd w2)
                else
                  let c1 = c\<lparr>cl_ip := ip, cl_port := port, conn_state := CONNECTING\<rparr>;
                      (c2, w3) = configureSocket os fd c1 w2
                  in (True, c2, w3))"

text \<open>\<open>self\<close> is the address of the client, handed to lwIP for the callback.\<close>

definition connect_host ::
  "('w, 'ip) os \<Rightarrow> ptr \<Rightarrow> string \<Rightarrow> u16 \<Rightarrow> 'ip ClientBase \<Rightarrow> 'w \<Rightarrow> bool \<times> 'ip ClientBase \<times> 'w"
where
  "connect_host os self host port c w =
     (let ((err, resolved), w1) = dns_gethostbyname os host self w
      in if err = ERR_OK os then connect_ip os resolved port c w1
         else if err = ERR_INPROGRESS os then
           (True, c\<lparr>conn_state := WAITING_FOR_DNS, cl_port := port\<rparr>, w1)
         else (False, c, w1))"

section \<open>Closing\<close>

definition clearWriteQueue :: "('w, 'ip) os \<Rightarrow> 'ip ClientBase \<Rightarrow> 'ip ClientBase res" where
  "clearWriteQueue os c =
     bind_res (lock_write c) (\<lambda>c1.
       Inr (unlock_write
         (c1\<lparr>writeQueue := [], writeSpaceRemaining := INITIAL_WRITE_SPACE os\<rparr>)))"

text \<open>\<open>_close\<close>.\<close>

definition close_socket ::
  "('w, 'ip) os \<Rightarrow> 'ip ClientBase \<Rightarrow> 'w \<Rightarrow> ('ip ClientBase \<times> 'w) res"
where
  "close_socket os c w =
     (let c1 = c\<lparr>conn_state := DISCONNECTING\<rparr>;
          w1 = sys_close os (socket c1) w;
          c2 = c1\<lparr>socket := -1\<rparr>
      in bind_res (clearWriteQueue os c2) (\<lambda>c3. Inr (c3, w1)))"

definition close_client ::
  "('w, 'ip) os \<Rightarrow> 'ip ClientBase \<Rightarrow> 'w \<Rightarrow> ('ip ClientBase \<times> 'w) res"
where
  "close_client os c w = (if isOpen c then close_socket os c w else Inr (c, w))"

definition abort_client ::
  "('w, 'ip) os \<Rightarrow> 'ip ClientBase \<Rightarrow> 'w \<Rightarrow> (int \<times> 'ip ClientBase \<times> 'w) res"
where
  "abort_client os c w =
     (if isOpen c then
        let (_, w1) = setsockopt os (socket c) (SO_LINGER 1 0) w
        in bind_res (close_socket os c w1) (\<lambda>(c1, w2). Inr (ERR_ABRT os, c1, w2))
      else Inr (ERR_ABRT os, c, w))"


section \<open>Writing\<close>

text \<open>
  \<open>add\<close> in the two steps it takes: the checks and the copy happen before \<open>_writeMutex\<close> is
  taken, the update of the queue after. Another thread may run in between.
\<close>

definition add_prepare ::
  "('w, 'ip) os \<Rightarrow> ptr \<Rightarrow> size_t \<Rightarrow> ClientApiFlags \<Rightarrow> 'ip ClientBase \<Rightarrow> 'w \<Rightarrow>
     (size_t \<times> WriteQueueBuffer) option \<times> 'w"
where
  "add_prepare os data sz apiFlags c w =
     (if \<not> connected c \<or> data = 0 \<or> sz = 0 then (None, w)
      else
        let remainingSpace = space c
        in if remainingSpace = 0 then (None, w)
           else
             let toSend = min remainingSpace sz;
                 (t, w1) = steady_now os w;
                 common = \<lparr>amountWritten = 0, queuedAt = t, writtenAt = 0, errorCode = 0\<rparr>;
                 buf = (if flags_test apiFlags COPY
                        then OwnedWriteQueueBuffer common (read_mem (mem os w1) data toSend)
                        else BorrowedWriteQueueBuffer common data toSend)
             in (Some (toSend, buf), w1))"

definition add_commit :: "size_t \<Rightarrow> WriteQueueBuffer \<Rightarrow> 'ip ClientBase \<Rightarrow> 'ip ClientBase res" where
  "add_commit toSend buf c =
     bind_res (lock_write c) (\<lambda>c1.
       Inr (unlock_write
         (c1\<lparr>writeQueue := writeQueue c1 @ [buf],
             writeSpaceRemaining := writeSpaceRemaining c1 - toSend,
             ack_timeout_signaled := False\<rparr>)))"

definition add ::
  "('w, 'ip) os \<Rightarrow> ptr \<Rightarrow> size_t \<Rightarrow> ClientApiFlags \<Rightarrow> 'ip ClientBase \<Rightarrow> 'w \<Rightarrow>
     (size_t \<times> 'ip ClientBase \<times> 'w) res"
where
  "add os data sz apiFlags c w =
     (case add_prepare os data sz apiFlags c w of
        (None, w1) \<Rightarrow> Inr (0, c, w1)
      | (Some (toSend, buf), w1) \<Rightarrow>
          bind_res (add_commit toSend buf c) (\<lambda>c1. Inr (toSend, c1, w1)))"

text \<open>\<open>std::strlen\<close>: \<open>None\<close> when the memory holds no terminating zero.\<close>

partial_function (option) c_strlen :: "(ptr \<Rightarrow> byte) \<Rightarrow> ptr \<Rightarrow> size_t option" where
  "c_strlen m p =
     (if m p = 0 then Some 0
      else Option.bind (c_strlen m (p + 1)) (\<lambda>n. Some (n + 1)))"

declare c_strlen.simps [code]

definition add_str ::
  "('w, 'ip) os \<Rightarrow> ptr \<Rightarrow> size_t \<Rightarrow> ClientApiFlags \<Rightarrow> 'ip ClientBase \<Rightarrow> 'w \<Rightarrow>
     (size_t \<times> 'ip ClientBase \<times> 'w) res"
where
  "add_str os str sz apiFlags c w =
     (if str = 0 then Inr (0, c, w)
      else if sz = 0 then
        bind_res (of_option (c_strlen (mem os w) str)) (\<lambda>n. add os str n apiFlags c w)
      else add os str sz apiFlags c w)"

text \<open>The part of \<open>send\<close> under the lock, shared with the manager's write handler.\<close>

definition process_locked ::
  "('w, 'ip) os \<Rightarrow> 'ip ClientBase \<Rightarrow> 'w \<Rightarrow> (bool \<times> 'ip ClientBase \<times> 'w) res"
where
  "process_locked os c w =
     bind_res
       (of_option (processWriteQueue os (socket c) (writeQueue c) (writeSpaceRemaining c) w))
       (\<lambda>(activity, q, s, w1). Inr (activity, c\<lparr>writeQueue := q, writeSpaceRemaining := s\<rparr>, w1))"

definition send ::
  "('w, 'ip) os \<Rightarrow> 'ip ClientBase \<Rightarrow> 'w \<Rightarrow> (bool \<times> 'ip ClientBase \<times> 'w) res"
where
  "send os c w =
     (if \<not> connected c then Inr (False, c, w)
      else
        let (ready, w1) = select_w os (socket c) w
        in if 0 < ready then
             bind_res (lock_write c) (\<lambda>c1.
               if writeQueue c1 \<noteq> [] then
                 bind_res (process_locked os c1 w1) (\<lambda>(activity, c2, w2).
                   Inr (activity, unlock_write c2, w2))
               else Inr (False, unlock_write c1, w1))
           else Inr (False, c, w1))"

definition write_bytes ::
  "('w, 'ip) os \<Rightarrow> ptr \<Rightarrow> size_t \<Rightarrow> ClientApiFlags \<Rightarrow> 'ip ClientBase \<Rightarrow> 'w \<Rightarrow>
     (size_t \<times> 'ip ClientBase \<times> 'w) res"
where
  "write_bytes os data sz apiFlags c w =
     bind_res (add os data sz apiFlags c w) (\<lambda>(toSend, c1, w1).
       if toSend = 0 then Inr (0, c1, w1)
       else if flags_test apiFlags IMMEDIATE then
         bind_res (send os c1 w1) (\<lambda>(success, c2, w2).
           if \<not> success then Inr (0, c2, w2) else Inr (toSend, c2, w2))
       else Inr (toSend, c1, w1))"

definition write_str ::
  "('w, 'ip) os \<Rightarrow> ptr \<Rightarrow> size_t \<Rightarrow> ClientApiFlags \<Rightarrow> 'ip ClientBase \<Rightarrow> 'w \<Rightarrow>
     (size_t \<times> 'ip ClientBase \<times> 'w) res"
where
  "write_str os str sz apiFlags c w =
     (if str = 0 then Inr (0, c, w)
      else if sz = 0 then
        bind_res (of_option (c_strlen (mem os w) str)) (\<lambda>n. write_bytes os str n apiFlags c w)
      else write_bytes os str sz apiFlags c w)"

section \<open>Options and timeouts\<close>

definition setNoDelay :: "('w, 'ip) os \<Rightarrow> bool \<Rightarrow> 'ip ClientBase \<Rightarrow> 'w \<Rightarrow> 'w" where
  "setNoDelay os nodelay c w =
     (if \<not> isOpen c then w
      else snd (setsockopt os (socket c) (TCP_NODELAY (if nodelay then 1 else 0)) w))"

text \<open>The result of \<open>getsockopt\<close> is only logged; the value read is returned either way.\<close>

definition getNoDelay :: "('w, 'ip) os \<Rightarrow> 'ip ClientBase \<Rightarrow> 'w \<Rightarrow> bool \<times> 'w" where
  "getNoDelay os c w =
     (if \<not> isOpen c then (False, w)
      else let ((res, nodelay), w1) = getsockopt_nodelay os (socket c) w in (nodelay \<noteq> 0, w1))"

definition setAckTimeout :: "duration option \<Rightarrow> 'ip ClientBase \<Rightarrow> 'ip ClientBase" where
  "setAckTimeout timeout c = c\<lparr>ack_timeout := timeout\<rparr>"

definition setRxTimeout :: "duration option \<Rightarrow> 'ip ClientBase \<Rightarrow> 'ip ClientBase" where
  "setRxTimeout timeout c = c\<lparr>rx_timeout := timeout\<rparr>"

definition millis_timeout :: "int \<Rightarrow> duration option" where
  "millis_timeout milliseconds =
     (if milliseconds \<le> 0 then None else Some (milliseconds * nanos_per_milli))"

definition setAckTimeout_ms :: "int \<Rightarrow> 'ip ClientBase \<Rightarrow> 'ip ClientBase" where
  "setAckTimeout_ms milliseconds c = setAckTimeout (millis_timeout milliseconds) c"

definition setRxTimeout_ms :: "int \<Rightarrow> 'ip ClientBase \<Rightarrow> 'ip ClientBase" where
  "setRxTimeout_ms milliseconds c = setRxTimeout (millis_timeout milliseconds) c"

definition checkRxTimeout ::
  "('w, 'ip) os \<Rightarrow> 'ip ClientBase \<Rightarrow> 'w \<Rightarrow> bool \<times> 'ip ClientBase \<times> 'w"
where
  "checkRxTimeout os c w =
     (case rx_timeout c of
        None \<Rightarrow> (False, c, w)
      | Some limit \<Rightarrow>
          let (now, w1) = steady_now os w
          in if now - rx_last_packet c < limit then (False, c, w1)
             else
               let (selected, w2) = select_r os (socket c) w1
               in if 0 < selected then (False, c\<lparr>rx_last_packet := now\<rparr>, w2)
                  else (True, c, w2))"

text \<open>\<open>try_lock\<close> fails while another thread holds the mutex.\<close>

definition pendingWrite :: "'ip ClientBase \<Rightarrow> bool" where
  "pendingWrite c \<longleftrightarrow>
     conn_state c \<noteq> DISCONNECTED \<and> conn_state c \<noteq> CONNECTED \<or>
     (if writeMutex c then True else writeQueue c \<noteq> [])"

end
