(* ===== verification/ClientInvariant.thy ===== *)
theory ClientInvariant
  imports ClientBase
begin

text \<open>
  The invariant of a client, and that every application-facing operation of \<open>ClientBase\<close>
  keeps it and returns: the space accounting of the write queue, and the agreement of the
  connection state with the socket. The write mutex is free before and after every operation.
\<close>

section \<open>The invariant\<close>

text \<open>
  The free space and the bytes still queued add up to the initial space: nothing is lost or
  counted twice, and the counter never wraps.
\<close>

definition queue_bytes :: "WriteQueueBuffer list \<Rightarrow> nat" where
  "queue_bytes q = sum_list (map remaining q)"

definition space_inv :: "('w, 'ip) os \<Rightarrow> 'ip ClientBase \<Rightarrow> bool" where
  "space_inv os c \<longleftrightarrow>
     (\<forall>b \<in> set (writeQueue c). buf_ok b) \<and>
     unat (writeSpaceRemaining c) + queue_bytes (writeQueue c) = unat (INITIAL_WRITE_SPACE os)"

text \<open>
  A connected or connecting client has a socket, a disconnecting one has none, a disconnected
  one has none either (but for descriptor \<open>0\<close> or a failed one handed to the constructor), and
  a client without a socket has nothing queued.
\<close>

definition link_inv :: "'ip ClientBase \<Rightarrow> bool" where
  "link_inv c \<longleftrightarrow>
     (conn_state c = CONNECTED \<or> conn_state c = CONNECTING \<longrightarrow> isOpen c) \<and>
     (conn_state c = DISCONNECTING \<longrightarrow> \<not> isOpen c) \<and>
     (conn_state c = DISCONNECTED \<longrightarrow> socket c \<le> 0) \<and>
     (writeQueue c \<noteq> [] \<longrightarrow> isOpen c)"

definition client_inv :: "('w, 'ip) os \<Rightarrow> 'ip ClientBase \<Rightarrow> bool" where
  "client_inv os c \<longleftrightarrow> space_inv os c \<and> link_inv c \<and> \<not> writeMutex c"

lemmas client_inv_defs = client_inv_def space_inv_def link_inv_def

text \<open>The postcondition every operation shares.\<close>

abbreviation keeps :: "('w, 'ip) os \<Rightarrow> ('a \<times> 'ip ClientBase \<times> 'w) res \<Rightarrow> bool" where
  "keeps os r \<equiv> holds {} (\<lambda>(x, c, w). client_inv os c) r"

lemma queue_bytes_simps [simp]:
  "queue_bytes [] = 0"
  "queue_bytes (b # q) = remaining b + queue_bytes q"
  "queue_bytes (q @ q') = queue_bytes q + queue_bytes q'"
  by (simp_all add: queue_bytes_def)

lemma client_inv_space_bound: "client_inv os c \<Longrightarrow>
    unat (writeSpaceRemaining c) + queue_bytes (writeQueue c) < 2 ^ 32"
proof -
  assume "client_inv os c"
  moreover have "unat (INITIAL_WRITE_SPACE os) < 2 ^ LENGTH(32)" by (rule unsigned_less)
  ultimately show ?thesis by (simp add: client_inv_defs)
qed

lemma client_inv_unlocked: "client_inv os c \<Longrightarrow> \<not> writeMutex c"
  by (simp add: client_inv_def)

section \<open>Construction and closing\<close>

lemma ClientBase_fields_inv:
  "client_inv os (ClientBase_fields os s) \<longleftrightarrow> socket s \<le> 0"
  by (auto simp: client_inv_defs ClientBase_fields_def)

lemma client_inv_new: "client_inv os (fst (ClientBase_new os w))"
  by (auto simp: ClientBase_new_def SocketConnection_init_def ClientBase_fields_inv
      split: prod.splits)

lemma client_inv_accepted: "client_inv os (fst (ClientBase_accepted os fd w))"
  using configureSocket_fst
  by (auto simp: ClientBase_accepted_def Let_def client_inv_defs ClientBase_fields_def isOpen_def
      split: prod.splits)

lemma close_socket_eq:
  "\<not> writeMutex c \<Longrightarrow> close_socket os c w =
     Inr (c\<lparr>socket := -1, conn_state := DISCONNECTING, writeQueue := [],
            writeSpaceRemaining := INITIAL_WRITE_SPACE os\<rparr>, sys_close os (socket c) w)"
  by (simp add: close_socket_def clearWriteQueue_def lock_write_def unlock_write_def)

lemma closed_inv:
  "\<not> writeMutex c \<Longrightarrow> client_inv os (c\<lparr>socket := -1, conn_state := DISCONNECTING,
     writeQueue := [], writeSpaceRemaining := INITIAL_WRITE_SPACE os\<rparr>)"
  by (simp add: client_inv_defs isOpen_def)

lemma close_socket_keeps:
  "client_inv os c \<Longrightarrow> holds {} (\<lambda>(c', w'). client_inv os c') (close_socket os c w)"
  by (simp add: close_socket_eq closed_inv client_inv_unlocked)

lemma close_client_keeps:
  "client_inv os c \<Longrightarrow> holds {} (\<lambda>(c', w'). client_inv os c') (close_client os c w)"
  by (simp add: close_client_def close_socket_keeps)

lemma abort_client_keeps: "client_inv os c \<Longrightarrow> keeps os (abort_client os c w)"
  by (auto simp: abort_client_def close_socket_eq closed_inv client_inv_unlocked split: prod.splits)

section \<open>Connecting\<close>

lemma connect_ip_cases:
  obtains (open_already) "isOpen c" "connect_ip os ip port c w = (False, c, w)"
  | (failed) w' where "\<not> isOpen c" "connect_ip os ip port c w = (False, c, w')"
  | (started) fd w' where "\<not> isOpen c" "0 \<le> fd"
      "connect_ip os ip port c w =
        (True, c\<lparr>cl_ip := ip, cl_port := port, conn_state := CONNECTING, socket := fd\<rparr>, w')"
proof (cases "isOpen c")
  case True
  then show ?thesis using open_already by (simp add: connect_ip_def)
next
  case False
  obtain fd w1 where s: "sys_socket os w = (fd, w1)" by fastforce
  obtain result errno w2 where r: "sys_connect os fd
      \<lparr>sin_len = sizeof_sockaddr_in os, sin_port = htons os port, s_addr = IPAddress_u32 os ip\<rparr> w1
      = ((result, errno), w2)"
    by (metis surj_pair)
  show ?thesis
  proof (cases "fd < 0 \<or> (result < 0 \<and> errno \<noteq> EINPROGRESS)")
    case True
    then have "\<exists>w'. connect_ip os ip port c w = (False, c, w')"
      using False s r by (auto simp: connect_ip_def)
    then show ?thesis using failed False by blast
  next
    case ok: False
    let ?c = "c\<lparr>cl_ip := ip, cl_port := port, conn_state := CONNECTING\<rparr>"
    obtain w3 where "configureSocket os fd ?c w2 = (?c\<lparr>socket := fd\<rparr>, w3)"
      using configureSocket_fst [of os fd ?c w2] by (metis prod.collapse)
    then have "connect_ip os ip port c w =
        (True, c\<lparr>cl_ip := ip, cl_port := port, conn_state := CONNECTING, socket := fd\<rparr>, w3)"
      using False ok s r by (auto simp: connect_ip_def)
    then show ?thesis using started [of fd w3] False ok by simp
  qed
qed

lemma connect_ip_keeps:
  assumes "client_inv os c"
  shows "client_inv os (fst (snd (connect_ip os ip port c w)))"
proof (cases rule: connect_ip_cases [of c os ip port w])
  case (started fd w')
  with assms show ?thesis by (auto simp: client_inv_defs isOpen_def)
qed (use assms in auto)

lemma connect_host_keeps:
  assumes "client_inv os c"
  shows "client_inv os (fst (snd (connect_host os self host port c w)))"
proof -
  have "client_inv os (c\<lparr>conn_state := WAITING_FOR_DNS, cl_port := port\<rparr>)"
    using assms by (auto simp: client_inv_defs isOpen_def)
  then show ?thesis
    using assms connect_ip_keeps by (auto simp: connect_host_def split: prod.splits)
qed

lemma dnsFoundCallback_keeps: "client_inv os c \<Longrightarrow> client_inv os (dnsFoundCallback os ip c)"
  by (auto simp: client_inv_defs dnsFoundCallback_def setDnsFinished_def isOpen_def)

section \<open>Writing\<close>

lemma read_mem_length [simp]: "length (read_mem m p n) = unat n"
  by (simp add: read_mem_def)

lemma new_buffer_ok:
  assumes "toSend \<noteq> 0"
    and "b = (if x then OwnedWriteQueueBuffer k (read_mem m p toSend)
              else BorrowedWriteQueueBuffer k p toSend)"
    and "amountWritten k = 0"
  shows "buf_ok b" and "remaining b = unat toSend" and "\<not> isFullyWritten b"
    and "m = m' \<Longrightarrow> pending_bytes m' b = read_mem m p toSend"
proof -
  have "unat toSend < 2 ^ LENGTH(32)" by (rule unsigned_less)
  then show "buf_ok b" and "remaining b = unat toSend" and "\<not> isFullyWritten b"
    and "m = m' \<Longrightarrow> pending_bytes m' b = read_mem m p toSend"
    using assms by (auto simp: buf_ok_def remaining_def isFullyWritten_def pending_bytes_def
        word_le_nat_alt unat_eq_0)
qed

lemma add_prepare_Some:
  assumes "add_prepare os data sz flags c w = (Some (toSend, b), w')"
  shows "connected c" and "data \<noteq> 0" and "toSend = min (writeSpaceRemaining c) sz"
    and "toSend \<noteq> 0" and "toSend \<le> writeSpaceRemaining c"
    and "buf_ok b" and "remaining b = unat toSend" and "\<not> isFullyWritten b"
    and "pending_bytes (mem os w') b = read_mem (mem os w') data toSend"
proof -
  from assms obtain t k x where b: "b = (if x then OwnedWriteQueueBuffer k (read_mem (mem os w') data toSend)
              else BorrowedWriteQueueBuffer k data toSend)" and k: "amountWritten k = 0"
    and *: "connected c" "data \<noteq> 0" "toSend = min (writeSpaceRemaining c) sz" "toSend \<noteq> 0"
    by (fastforce simp: add_prepare_def space_def Let_def min_def split: prod.splits if_splits)
  from * show "connected c" "data \<noteq> 0" "toSend = min (writeSpaceRemaining c) sz" "toSend \<noteq> 0"
    "toSend \<le> writeSpaceRemaining c" by simp_all
  show "buf_ok b" "remaining b = unat toSend" "\<not> isFullyWritten b"
    "pending_bytes (mem os w') b = read_mem (mem os w') data toSend"
    using new_buffer_ok [OF *(4) b k] by simp_all
qed


lemma add_commit_eq:
  "\<not> writeMutex c \<Longrightarrow> add_commit toSend b c =
     Inr (c\<lparr>writeQueue := writeQueue c @ [b],
            writeSpaceRemaining := writeSpaceRemaining c - toSend,
            ack_timeout_signaled := False\<rparr>)"
  by (simp add: add_commit_def lock_write_def unlock_write_def)

lemma enqueue_inv:
  assumes "client_inv os c" and "connected c" and "buf_ok b" and "remaining b = unat toSend"
    and "toSend \<le> writeSpaceRemaining c"
  shows "client_inv os (c\<lparr>writeQueue := writeQueue c @ [b],
            writeSpaceRemaining := writeSpaceRemaining c - toSend,
            ack_timeout_signaled := False\<rparr>)"
  using assms
  by (auto simp: client_inv_defs connected_def isOpen_def unat_minus_le word_le_nat_alt)

lemma add_keeps:
  assumes "client_inv os c"
  shows "keeps os (add os data sz flags c w)"
proof (cases "add_prepare os data sz flags c w")
  case (Pair r w')
  show ?thesis
  proof (cases r)
    case None
    with Pair assms show ?thesis by (simp add: add_def)
  next
    case (Some p)
    obtain toSend b where "p = (toSend, b)" by fastforce
    with Some Pair have prep: "add_prepare os data sz flags c w = (Some (toSend, b), w')" by simp
    note p = add_prepare_Some [OF prep]
    show ?thesis
      using prep enqueue_inv [OF assms p(1,6,7,5)]
      by (simp add: add_def add_commit_eq client_inv_unlocked [OF assms])
  qed
qed

lemma process_queue_empty:
  "process_queue err full wr a q s w = Some (a', q', s', w') \<Longrightarrow> q' = [] \<longleftrightarrow> q = []"
  by (induction q arbitrary: a s w a' q' s' w') (auto split: if_splits option.splits)

text \<open>What one pass over the queue of a client does, whoever runs it.\<close>

lemma process_locked_ok:
  assumes "write_sound os" and "space_inv os c"
  shows "\<exists>a q s w'. process_locked os c w =
      Inr (a, c\<lparr>writeQueue := q, writeSpaceRemaining := s\<rparr>, w') \<and>
    space_inv os (c\<lparr>writeQueue := q, writeSpaceRemaining := s\<rparr>) \<and>
    length q = length (writeQueue c) \<and>
    (a \<longleftrightarrow> queue_bytes q < queue_bytes (writeQueue c)) \<and>
    queue_bytes q \<le> queue_bytes (writeQueue c)"
proof -
  have "unat (INITIAL_WRITE_SPACE os) < 2 ^ LENGTH(32)" by (rule unsigned_less)
  with assms(2) have
    "unat (writeSpaceRemaining c) + sum_list (map remaining (writeQueue c)) < 2 ^ 32"
    and "\<forall>b \<in> set (writeQueue c). buf_ok b"
    by (simp_all add: space_inv_def queue_bytes_def)
  from wqb.pass_counts [OF assms(1) this(2,1), of "socket c" False w]
  show ?thesis
    using assms(2)
    by (fastforce simp: process_locked_def processWriteQueue_def space_inv_def queue_bytes_def)
qed

lemma queue_written_inv:
  assumes "client_inv os c"
    and "space_inv os (c\<lparr>writeMutex := True, writeQueue := q, writeSpaceRemaining := s\<rparr>)"
    and "length q = length (writeQueue c)"
  shows "client_inv os (c\<lparr>writeQueue := q, writeSpaceRemaining := s\<rparr>)"
  using assms by (auto simp: client_inv_defs isOpen_def)

text \<open>\<open>send\<close> in closed form, for a client whose lock is free.\<close>

lemma send_cases:
  assumes "write_sound os" and "client_inv os c"
  obtains (idle) w' where "send os c w = Inr (False, c, w')"
  | (pushed) a q s w' where "connected c" "writeQueue c \<noteq> []"
      "send os c w = Inr (a, c\<lparr>writeQueue := q, writeSpaceRemaining := s\<rparr>, w')"
      "client_inv os (c\<lparr>writeQueue := q, writeSpaceRemaining := s\<rparr>)"
      "length q = length (writeQueue c)"
      "a \<longleftrightarrow> queue_bytes q < queue_bytes (writeQueue c)"
      "queue_bytes q \<le> queue_bytes (writeQueue c)"
proof -
  let ?c = "c\<lparr>writeMutex := True\<rparr>"
  have un: "\<not> writeMutex c" using assms(2) by (rule client_inv_unlocked)
  then have same: "c\<lparr>writeMutex := False\<rparr> = c" by simp
  obtain ready w1 where sel: "select_w os (socket c) w = (ready, w1)" by fastforce
  show thesis
  proof (cases "connected c \<and> 0 < ready \<and> writeQueue c \<noteq> []")
    case False
    then have "\<exists>w'. send os c w = Inr (False, c, w')"
      using sel un same by (auto simp: send_def lock_write_def unlock_write_def)
    then show thesis using idle by blast
  next
    case True
    have "space_inv os ?c" using assms(2) by (simp add: client_inv_defs)
    from process_locked_ok [OF assms(1) this, of w1] obtain a q s w' where
      p: "process_locked os ?c w1 =
        Inr (a, ?c\<lparr>writeQueue := q, writeSpaceRemaining := s\<rparr>, w')"
      and inv: "space_inv os (?c\<lparr>writeQueue := q, writeSpaceRemaining := s\<rparr>)"
      and q: "length q = length (writeQueue c)"
        "a \<longleftrightarrow> queue_bytes q < queue_bytes (writeQueue c)"
        "queue_bytes q \<le> queue_bytes (writeQueue c)"
      by auto
    have "send os c w = Inr (a, c\<lparr>writeQueue := q, writeSpaceRemaining := s\<rparr>, w')"
      using True sel un p by (simp add: send_def lock_write_def unlock_write_def)
    then show thesis
      using pushed True queue_written_inv [OF assms(2) inv q(1)] q by blast
  qed
qed

lemma send_keeps: "write_sound os \<Longrightarrow> client_inv os c \<Longrightarrow> keeps os (send os c w)"
  by (rule send_cases [of os c w]) auto

lemma write_bytes_keeps:
  assumes "write_sound os" and "client_inv os c"
  shows "keeps os (write_bytes os data sz flags c w)"
proof -
  have "holds {} (\<lambda>(n, c2, w2). client_inv os c2)
      (bind_res (send os c1 w1) (\<lambda>(success, c2, w2).
         if \<not> success then Inr (0, c2, w2) else Inr (toSend, c2, w2)))"
    if "client_inv os c1" for c1 w1 and toSend :: size_t
    unfolding holds_bind by (rule holds_mono [OF send_keeps [OF assms(1) that]]) auto
  then show ?thesis
    unfolding write_bytes_def holds_bind
    by (intro holds_mono [OF add_keeps [OF assms(2)]]) auto
qed

text \<open>The string variants return when the string has a terminator; they keep the invariant.\<close>

lemma add_str_keeps:
  assumes "client_inv os c"
  shows "holds {Hang} (\<lambda>(n, c', w'). client_inv os c') (add_str os str sz flags c w)"
  using add_keeps [OF assms]
  by (cases "c_strlen (mem os w) str")
    (auto simp: add_str_def assms intro: holds_total_any)

lemma write_str_keeps:
  assumes "write_sound os" and "client_inv os c"
  shows "holds {Hang} (\<lambda>(n, c', w'). client_inv os c') (write_str os str sz flags c w)"
  using write_bytes_keeps [OF assms]
  by (cases "c_strlen (mem os w) str")
    (auto simp: write_str_def assms intro: holds_total_any)

section \<open>Options and timeouts\<close>

lemma setAckTimeout_keeps: "client_inv os c \<Longrightarrow> client_inv os (setAckTimeout t c)"
  by (auto simp: setAckTimeout_def client_inv_defs isOpen_def)

lemma setRxTimeout_keeps: "client_inv os c \<Longrightarrow> client_inv os (setRxTimeout t c)"
  by (auto simp: setRxTimeout_def client_inv_defs isOpen_def)

lemma checkRxTimeout_keeps:
  "client_inv os c \<Longrightarrow> client_inv os (fst (snd (checkRxTimeout os c w)))"
  by (auto simp: checkRxTimeout_def client_inv_defs isOpen_def Let_def
      split: option.splits prod.splits)

end
