(* ===== verification/Server.thy ===== *)
theory Server
  imports SocketConnection Callbacks
begin

text \<open>
  \<open>src/src/Server.hpp\<close> and \<open>.cpp\<close>: the state of a listening server and the operations on it
  that run no callback. Accepting a connection creates a client and calls the accept handler;
  it is in theory \<open>Manager\<close>.
\<close>

record 'ip Server = SocketConnection +
  sv_addr :: 'ip
  sv_port :: u16
  noDelay :: bool
  sv_callbacks :: ServerCallbacks

definition BACKLOG :: int where
  "BACKLOG = 5"

text \<open>\<open>Server(port)\<close> listens on any address, \<open>Server(addr, port)\<close> on the given one.\<close>

definition Server_new :: "('w, 'ip) os \<Rightarrow> 'ip option \<Rightarrow> u16 \<Rightarrow> 'w \<Rightarrow> 'ip Server \<times> 'w" where
  "Server_new os addr port w =
     (let (s, w1) = SocketConnection_init os w
      in (\<lparr>socket = socket s, dnsFinished = dnsFinished s, lastActive = lastActive s,
           sv_addr = (case addr of Some a \<Rightarrow> a | None \<Rightarrow> IPAddress_any os), sv_port = port,
           noDelay = True, sv_callbacks = \<lparr>acceptArg = 0, acceptHandler = None\<rparr>\<rparr>, w1))"

definition Server_begin ::
  "('w, 'ip) os \<Rightarrow> 'ip Server \<Rightarrow> 'w \<Rightarrow> 'ip Server \<times> 'w"
where
  "Server_begin os s w =
     (if isOpen s then (s, w)
      else
        let (fd, w1) = sys_socket os w
        in if fd < 0 then (s, w1)
           else
             let server = \<lparr>sin_len = 0, sin_port = htons os (sv_port s),
                   s_addr = IPAddress_u32 os (sv_addr s)\<rparr>;
                 (res, w2) = sys_bind os fd server w1
             in if res < 0 then (s, sys_close os fd w2)
                else
                  let (res2, w3) = sys_listen os fd BACKLOG w2
                  in if res2 < 0 then (s, sys_close os fd w3)
                     else configureSocket os fd s w3)"

text \<open>\<open>end\<close>.\<close>

definition Server_end ::
  "('w, 'ip) os \<Rightarrow> 'ip Server \<Rightarrow> 'w \<Rightarrow> 'ip Server \<times> 'w"
where
  "Server_end os s w =
     (if \<not> isOpen s then (s, w) else (s\<lparr>socket := -1\<rparr>, sys_close os (socket s) w))"

definition Server_onClient :: "handler option \<Rightarrow> ptr \<Rightarrow> 'ip Server \<Rightarrow> 'ip Server" where
  "Server_onClient cb arg s = s\<lparr>sv_callbacks := \<lparr>acceptArg = arg, acceptHandler = cb\<rparr>\<rparr>"

definition Server_setNoDelay :: "bool \<Rightarrow> 'ip Server \<Rightarrow> 'ip Server" where
  "Server_setNoDelay b s = s\<lparr>noDelay := b\<rparr>"

end
