(* ===== verification/Machine.thy ===== *)
theory Machine
  imports ClientInvariant Server
begin

text \<open>
  The whole program state: the live client and server objects by address, the two lists of
  the connection manager, the callbacks run so far, and the world. Application code enters as
  a parameter: what a handler does, given its arguments and the state, is a list of actions
  (calls of the public API, on any client), so callbacks may do anything the API allows, and
  delete or create connections.
\<close>

section \<open>State\<close>

record ('w, 'ip) machine =
  heap :: "ptr \<Rightarrow> 'ip ClientBase option"
  server_heap :: "ptr \<Rightarrow> 'ip Server option"
  managerMutex :: bool
  clients :: "ptr list"
  servers :: "ptr list"
  trace :: "(ptr \<times> cb_event) list"
  world :: 'w

definition get_client :: "ptr \<Rightarrow> ('w, 'ip) machine \<Rightarrow> 'ip ClientBase res" where
  "get_client p m = (case heap m p of None \<Rightarrow> Inl UseAfterFree | Some c \<Rightarrow> Inr c)"

definition put_client ::
  "ptr \<Rightarrow> 'ip ClientBase \<Rightarrow> 'w \<Rightarrow> ('w, 'ip) machine \<Rightarrow> ('w, 'ip) machine"
where
  "put_client p c w m = m\<lparr>heap := (heap m)(p \<mapsto> c), world := w\<rparr>"

definition get_server :: "ptr \<Rightarrow> ('w, 'ip) machine \<Rightarrow> 'ip Server res" where
  "get_server p m = (case server_heap m p of None \<Rightarrow> Inl UseAfterFree | Some s \<Rightarrow> Inr s)"

definition put_server ::
  "ptr \<Rightarrow> 'ip Server \<Rightarrow> 'w \<Rightarrow> ('w, 'ip) machine \<Rightarrow> ('w, 'ip) machine"
where
  "put_server p s w m = m\<lparr>server_heap := (server_heap m)(p \<mapsto> s), world := w\<rparr>"

section \<open>Registration with the manager\<close>

definition lock_manager :: "('w, 'ip) machine \<Rightarrow> ('w, 'ip) machine res" where
  "lock_manager m = (if managerMutex m then Inl Deadlock else Inr (m\<lparr>managerMutex := True\<rparr>))"

definition unlock_manager :: "('w, 'ip) machine \<Rightarrow> ('w, 'ip) machine" where
  "unlock_manager m = m\<lparr>managerMutex := False\<rparr>"

definition addConnection :: "ptr \<Rightarrow> ('w, 'ip) machine \<Rightarrow> ('w, 'ip) machine res" where
  "addConnection p m =
     (if p \<noteq> 0 then
        bind_res (lock_manager m) (\<lambda>m1. Inr (unlock_manager (m1\<lparr>clients := clients m1 @ [p]\<rparr>)))
      else Inr m)"

definition removeConnection :: "ptr \<Rightarrow> ('w, 'ip) machine \<Rightarrow> ('w, 'ip) machine res" where
  "removeConnection p m =
     (if p \<noteq> 0 then
        bind_res (lock_manager m) (\<lambda>m1.
          Inr (unlock_manager (m1\<lparr>clients := removeAll p (clients m1)\<rparr>)))
      else Inr m)"

definition addServer :: "ptr \<Rightarrow> ('w, 'ip) machine \<Rightarrow> ('w, 'ip) machine res" where
  "addServer p m =
     (if p \<noteq> 0 then
        bind_res (lock_manager m) (\<lambda>m1. Inr (unlock_manager (m1\<lparr>servers := servers m1 @ [p]\<rparr>)))
      else Inr m)"

definition removeServer :: "ptr \<Rightarrow> ('w, 'ip) machine \<Rightarrow> ('w, 'ip) machine res" where
  "removeServer p m =
     (if p \<noteq> 0 then
        bind_res (lock_manager m) (\<lambda>m1.
          Inr (unlock_manager (m1\<lparr>servers := removeAll p (servers m1)\<rparr>)))
      else Inr m)"

section \<open>Construction and deletion of connections\<close>

definition live :: "('w, 'ip) machine \<Rightarrow> ptr \<Rightarrow> bool" where
  "live m p \<longleftrightarrow> heap m p \<noteq> None \<or> server_heap m p \<noteq> None"

definition allocate :: "('w, 'ip) os \<Rightarrow> ('w, 'ip) machine \<Rightarrow> (ptr \<times> 'w) res" where
  "allocate os m =
     (case operator_new os (live m) (world m) of
        (None, w) \<Rightarrow> Inl BadAlloc
      | (Some p, w) \<Rightarrow> Inr (p, w))"

definition construct_client ::
  "('w, 'ip) os \<Rightarrow> int option \<Rightarrow> 'w \<Rightarrow> 'ip ClientBase \<times> 'w"
where
  "construct_client os fd w =
     (case fd of None \<Rightarrow> ClientBase_new os w | Some s \<Rightarrow> ClientBase_accepted os s w)"

text \<open>\<open>new Client()\<close> and \<open>new Client(socket)\<close>: the constructors register the client.\<close>

definition new_client ::
  "('w, 'ip) os \<Rightarrow> int option \<Rightarrow> ('w, 'ip) machine \<Rightarrow> (ptr \<times> ('w, 'ip) machine) res"
where
  "new_client os fd m =
     bind_res (allocate os m) (\<lambda>(p, w1).
       let (c, w2) = construct_client os fd w1
       in bind_res (addConnection p (put_client p c w2 m)) (\<lambda>m1. Inr (p, m1)))"

text \<open>\<open>~Client\<close> unregisters the client, then \<open>~ClientBase\<close> closes the socket.\<close>

definition delete_client :: "('w, 'ip) os \<Rightarrow> ptr \<Rightarrow> ('w, 'ip) machine \<Rightarrow> ('w, 'ip) machine res" where
  "delete_client os p m =
     bind_res (get_client p m) (\<lambda>c.
     bind_res (removeConnection p m) (\<lambda>m1.
     bind_res (close_client os c (world m1)) (\<lambda>(c1, w1).
       Inr (m1\<lparr>heap := (heap m1)(p := None), world := w1\<rparr>))))"

definition new_server ::
  "('w, 'ip) os \<Rightarrow> 'ip option \<Rightarrow> u16 \<Rightarrow> ('w, 'ip) machine \<Rightarrow> (ptr \<times> ('w, 'ip) machine) res"
where
  "new_server os addr port m =
     bind_res (allocate os m) (\<lambda>(p, w1).
       let (s, w2) = Server_new os addr port w1
       in bind_res (addServer p (put_server p s w2 m)) (\<lambda>m1. Inr (p, m1)))"

definition delete_server :: "('w, 'ip) os \<Rightarrow> ptr \<Rightarrow> ('w, 'ip) machine \<Rightarrow> ('w, 'ip) machine res" where
  "delete_server os p m =
     bind_res (get_server p m) (\<lambda>s.
     bind_res (removeServer p m) (\<lambda>m1.
       let (s1, w1) = Server_end os s (world m1)
       in Inr (m1\<lparr>server_heap := (server_heap m1)(p := None), world := w1\<rparr>)))"


section \<open>Application code\<close>

text \<open>The public API of a client, as calls an application can make.\<close>

datatype 'ip api_op =
    ConnectIp 'ip u16
  | ConnectHost string u16
  | Close
  | Abort
  | Add ptr size_t ClientApiFlags
  | AddStr ptr size_t ClientApiFlags
  | Send
  | Write ptr size_t ClientApiFlags
  | WriteStr ptr size_t ClientApiFlags
  | SetNoDelay bool
  | SetAckTimeout "duration option"
  | SetRxTimeout "duration option"
  | SetHandler ClientCallbackType "handler option" ptr

fun drop_result :: "('a \<times> 'b \<times> 'c) res \<Rightarrow> ('b \<times> 'c) res" where
  "drop_result (Inl e) = Inl e"
| "drop_result (Inr (x, y)) = Inr y"

text \<open>One call on a client object; \<open>self\<close> is its address.\<close>

fun run_api ::
  "('w, 'ip) os \<Rightarrow> ptr \<Rightarrow> 'ip api_op \<Rightarrow> 'ip ClientBase \<Rightarrow> 'w \<Rightarrow> ('ip ClientBase \<times> 'w) res"
where
  "run_api os self (ConnectIp ip port) c w = Inr (snd (connect_ip os ip port c w))"
| "run_api os self (ConnectHost host port) c w = Inr (snd (connect_host os self host port c w))"
| "run_api os self Close c w = close_client os c w"
| "run_api os self Abort c w = drop_result (abort_client os c w)"
| "run_api os self (Add data n flags) c w = drop_result (add os data n flags c w)"
| "run_api os self (AddStr str n flags) c w = drop_result (add_str os str n flags c w)"
| "run_api os self Send c w = drop_result (send os c w)"
| "run_api os self (Write data n flags) c w = drop_result (write_bytes os data n flags c w)"
| "run_api os self (WriteStr str n flags) c w = drop_result (write_str os str n flags c w)"
| "run_api os self (SetNoDelay b) c w = Inr (c, setNoDelay os b c w)"
| "run_api os self (SetAckTimeout t) c w = Inr (setAckTimeout t c, w)"
| "run_api os self (SetRxTimeout t) c w = Inr (setRxTimeout t c, w)"
| "run_api os self (SetHandler t h a) c w =
     Inr (c\<lparr>callbacks := set_handler t h a (callbacks c)\<rparr>, w)"

datatype 'ip action =
    Api ptr "'ip api_op"
  | New "'ip api_op list"         \<comment> \<open>\<open>new Client()\<close>, then calls on it\<close>
  | Delete ptr
  | ServerBegin ptr
  | ServerEnd ptr
  | ServerOnClient ptr "handler option" ptr
  | ServerSetNoDelay ptr bool

definition call_api ::
  "('w, 'ip) os \<Rightarrow> ptr \<Rightarrow> 'ip api_op \<Rightarrow> ('w, 'ip) machine \<Rightarrow> ('w, 'ip) machine res"
where
  "call_api os p op m =
     bind_res (get_client p m) (\<lambda>c.
     bind_res (run_api os p op c (world m)) (\<lambda>(c1, w1). Inr (put_client p c1 w1 m)))"


fun call_apis ::
  "('w, 'ip) os \<Rightarrow> ptr \<Rightarrow> 'ip api_op list \<Rightarrow> ('w, 'ip) machine \<Rightarrow> ('w, 'ip) machine res"
where
  "call_apis os p [] m = Inr m"
| "call_apis os p (op # ops) m = bind_res (call_api os p op m) (call_apis os p ops)"

definition on_server ::
  "ptr \<Rightarrow> ('ip Server \<Rightarrow> 'w \<Rightarrow> 'ip Server \<times> 'w) \<Rightarrow> ('w, 'ip) machine \<Rightarrow> ('w, 'ip) machine res"
where
  "on_server p f m =
     bind_res (get_server p m) (\<lambda>s. let (s1, w1) = f s (world m) in Inr (put_server p s1 w1 m))"

fun run_action ::
  "('w, 'ip) os \<Rightarrow> 'ip action \<Rightarrow> ('w, 'ip) machine \<Rightarrow> ('w, 'ip) machine res"
where
  "run_action os (Api p op) m = call_api os p op m"
| "run_action os (New ops) m = bind_res (new_client os None m) (\<lambda>(p, m1). call_apis os p ops m1)"
| "run_action os (Delete p) m = delete_client os p m"
| "run_action os (ServerBegin p) m = on_server p (Server_begin os) m"
| "run_action os (ServerEnd p) m = on_server p (Server_end os) m"
| "run_action os (ServerOnClient p h a) m = on_server p (\<lambda>s w. (Server_onClient h a s, w)) m"
| "run_action os (ServerSetNoDelay p b) m = on_server p (\<lambda>s w. (Server_setNoDelay b s, w)) m"

fun run_actions ::
  "('w, 'ip) os \<Rightarrow> 'ip action list \<Rightarrow> ('w, 'ip) machine \<Rightarrow> ('w, 'ip) machine res"
where
  "run_actions os [] m = Inr m"
| "run_actions os (a # as) m = bind_res (run_action os a m) (run_actions os as)"

text \<open>
  What the application's handlers do: handler, its argument, the address of the connection it
  is called for, the event, and the state it can see.
\<close>

type_synonym ('w, 'ip) usercode =
  "handler \<Rightarrow> ptr \<Rightarrow> ptr \<Rightarrow> cb_event \<Rightarrow> ('w, 'ip) machine \<Rightarrow> 'ip action list"

definition client_handler :: "'ip ClientBase \<Rightarrow> cb_event \<Rightarrow> (handler \<times> ptr) option" where
  "client_handler c ev =
     (case cb_type ev of None \<Rightarrow> None | Some t \<Rightarrow> select_handler (callbacks c) t)"

text \<open>
  \<open>_callbacks.invoke<TYPE>(\<dots>)\<close> on the client at \<open>p\<close>. (The null check of the code is on the
  client pointer the callbacks were constructed with, \<open>this\<close>, and never fails.)
\<close>

definition invoke ::
  "('w, 'ip) os \<Rightarrow> ('w, 'ip) usercode \<Rightarrow> ptr \<Rightarrow> cb_event \<Rightarrow> ('w, 'ip) machine \<Rightarrow>
     ('w, 'ip) machine res"
where
  "invoke os U p ev m =
     bind_res (get_client p m) (\<lambda>c.
       case client_handler c ev of
         None \<Rightarrow> Inr m
       | Some (h, arg) \<Rightarrow>
           let m1 = m\<lparr>trace := trace m @ [(p, ev)]\<rparr> in run_actions os (U h arg p ev m1) m1)"

end
