(* ===== verification/ClientHandlers.thy ===== *)
theory ClientHandlers
  imports Machine
begin

text \<open>
  \<open>src/src/ClientBase.tpp\<close>: what the manager task calls on a client. These run callbacks, so
  they work on the whole state: the client is looked up by its address, and again after every
  callback, which may have changed or deleted it. Reading a deleted client is the fault
  \<open>UseAfterFree\<close>.
\<close>

section \<open>Errors and notifications\<close>

text \<open>\<open>_close\<close> on the client at \<open>p\<close>.\<close>

definition close_at :: "('w, 'ip) os \<Rightarrow> ptr \<Rightarrow> ('w, 'ip) machine \<Rightarrow> ('w, 'ip) machine res" where
  "close_at os p m =
     bind_res (get_client p m) (\<lambda>c.
     bind_res (close_socket os c (world m)) (\<lambda>(c1, w1). Inr (put_client p c1 w1 m)))"

text \<open>\<open>_error\<close>: the error callback, then \<open>_close\<close>.\<close>

definition error_at ::
  "('w, 'ip) os \<Rightarrow> ('w, 'ip) usercode \<Rightarrow> ptr \<Rightarrow> int \<Rightarrow> ('w, 'ip) machine \<Rightarrow> ('w, 'ip) machine res"
where
  "error_at os U p code m =
     bind_res (invoke os U p (EvError code) m) (close_at os p)"

text \<open>The loop over \<open>notifyQueue\<close>.\<close>

fun notify_sent ::
  "('w, 'ip) os \<Rightarrow> ('w, 'ip) usercode \<Rightarrow> ptr \<Rightarrow> WriteStats list \<Rightarrow> ('w, 'ip) machine \<Rightarrow>
     ('w, 'ip) machine res"
where
  "notify_sent os U p [] m = Inr m"
| "notify_sent os U p (s # ss) m =
     bind_res (invoke os U p (EvSent (ws_length s) (ws_delay s)) m) (notify_sent os U p ss)"

text \<open>\<open>_cleanupWriteQueue\<close>, entered with the write mutex held.\<close>

definition cleanupWriteQueue ::
  "('w, 'ip) os \<Rightarrow> ('w, 'ip) usercode \<Rightarrow> ptr \<Rightarrow> ('w, 'ip) machine \<Rightarrow> ('w, 'ip) machine res"
where
  "cleanupWriteQueue os U p m =
     bind_res (get_client p m) (\<lambda>c.
       let (err, notifyQueue, rx, rest) = cleanup_scan (writeQueue c) (rx_last_packet c)
       in case err of
            Some code \<Rightarrow>
              error_at os U p code
                (put_client p (unlock_write (c\<lparr>rx_last_packet := rx\<rparr>)) (world m) m)
          | None \<Rightarrow>
              notify_sent os U p notifyQueue
                (put_client p
                  (unlock_write (c\<lparr>rx_last_packet := rx, writeQueue := rest\<rparr>)) (world m) m))"

section \<open>Timeouts\<close>

definition checkAckTimeout ::
  "('w, 'ip) os \<Rightarrow> ('w, 'ip) usercode \<Rightarrow> ptr \<Rightarrow> ('w, 'ip) machine \<Rightarrow>
     (bool \<times> ('w, 'ip) machine) res"
where
  "checkAckTimeout os U p m =
     bind_res (get_client p m) (\<lambda>c.
       case ack_timeout c of
         None \<Rightarrow> Inr (False, m)
       | Some limit \<Rightarrow>
           if ack_timeout_signaled c then Inr (False, m)
           else
             bind_res (lock_write c) (\<lambda>c1.
               case writeQueue c1 of
                 [] \<Rightarrow> Inr (False, put_client p (unlock_write c1) (world m) m)
               | b # _ \<Rightarrow>
                   let first = asCommonView b;
                       (now, w1) = steady_now os (world m);
                       delay = now - queuedAt first
                   in if limit \<le> delay \<and> writtenAt first = 0 then
                        bind_res
                          (invoke os U p (EvTimeout (cast_millis_u32 delay))
                            (put_client p (unlock_write (c1\<lparr>ack_timeout_signaled := True\<rparr>)) w1 m))
                          (\<lambda>m1. Inr (True, m1))
                      else Inr (False, put_client p (unlock_write c1) w1 m)))"

section \<open>Socket events\<close>

text \<open>The write section at the end of \<open>_sockIsWriteable\<close>.\<close>

definition writeable_section ::
  "('w, 'ip) os \<Rightarrow> ('w, 'ip) usercode \<Rightarrow> ptr \<Rightarrow> bool \<Rightarrow> ('w, 'ip) machine \<Rightarrow>
     (bool \<times> ('w, 'ip) machine) res"
where
  "writeable_section os U p activity m =
     bind_res (get_client p m) (\<lambda>c.
     bind_res (lock_write c) (\<lambda>c1.
       if conn_state c1 = CONNECTED \<and> writeQueue c1 \<noteq> [] then
         bind_res (process_locked os c1 (world m)) (\<lambda>(activity1, c2, w2).
         bind_res (cleanupWriteQueue os U p (put_client p c2 w2 m)) (\<lambda>m1.
           Inr (activity1, m1)))
       else Inr (activity, put_client p (unlock_write c1) (world m) m)))"

definition sockIsWriteable ::
  "('w, 'ip) os \<Rightarrow> ('w, 'ip) usercode \<Rightarrow> ptr \<Rightarrow> ('w, 'ip) machine \<Rightarrow>
     (bool \<times> ('w, 'ip) machine) res"
where
  "sockIsWriteable os U p m =
     bind_res (get_client p m) (\<lambda>c.
       if conn_state c \<noteq> CONNECTED then
         let ((result, errno, socketError), w1) = getsockopt_error os (socket c) (world m);
             m1 = m\<lparr>world := w1\<rparr>
         in if result < 0 then
              bind_res (error_at os U p errno m1) (\<lambda>m2. Inr (False, m2))
            else if socketError \<noteq> 0 then
              bind_res (error_at os U p socketError m1) (\<lambda>m2. Inr (False, m2))
            else
              let (now, w2) = steady_now os w1;
                  c1 = c\<lparr>conn_state := CONNECTED, rx_last_packet := now,
                         ack_timeout_signaled := False\<rparr>
              in bind_res (invoke os U p EvConnect (put_client p c1 w2 m))
                   (writeable_section os U p True)
       else writeable_section os U p False m)"

definition sockIsReadable ::
  "('w, 'ip) os \<Rightarrow> ('w, 'ip) usercode \<Rightarrow> ptr \<Rightarrow> ('w, 'ip) machine \<Rightarrow> ('w, 'ip) machine res"
where
  "sockIsReadable os U p m =
     bind_res (get_client p m) (\<lambda>c.
       let ((result, errno, buf), w1) = lwip_read os (socket c) (TCP_MSS os) (world m)
       in if 0 < result then
            let (now, w2) = steady_now os w1
            in invoke os U p (EvRecv (take (nat result) buf))
                 (put_client p (c\<lparr>rx_last_packet := now\<rparr>) w2 m)
          else if result = 0 then close_at os p (m\<lparr>world := w1\<rparr>)
          else if errno \<noteq> EAGAIN os \<and> errno \<noteq> EWOULDBLOCK os then
            error_at os U p errno (m\<lparr>world := w1\<rparr>)
          else Inr (m\<lparr>world := w1\<rparr>))"

text \<open>The result of \<open>connect\<close> is dropped, as in the code.\<close>

definition sockDelayedConnect ::
  "('w, 'ip) os \<Rightarrow> ('w, 'ip) usercode \<Rightarrow> ptr \<Rightarrow> ('w, 'ip) machine \<Rightarrow> ('w, 'ip) machine res"
where
  "sockDelayedConnect os U p m =
     bind_res (get_client p m) (\<lambda>c.
       if IPAddress_u32 os (cl_ip c) \<noteq> 0 then
         let (_, c1, w1) = connect_ip os (cl_ip c) (cl_port c) c (world m)
         in Inr (put_client p c1 w1 m)
       else error_at os U p ERR_DNS_RESOLUTION_FAILED m)"

text \<open>\<open>_sockPoll\<close>: the end of the function, after the ACK check did not fire; the part after the
  notifications; and the whole.\<close>

definition poll_idle ::
  "('w, 'ip) os \<Rightarrow> ('w, 'ip) usercode \<Rightarrow> ptr \<Rightarrow> ('w, 'ip) machine \<Rightarrow> ('w, 'ip) machine res"
where
  "poll_idle os U p m =
     bind_res (get_client p m) (\<lambda>c.
       let (rx_expired, c1, w1) = checkRxTimeout os c (world m);
           m1 = put_client p c1 w1 m
       in if rx_expired then close_at os p m1 else invoke os U p EvPoll m1)"

definition poll_timeouts ::
  "('w, 'ip) os \<Rightarrow> ('w, 'ip) usercode \<Rightarrow> ptr \<Rightarrow> ('w, 'ip) machine \<Rightarrow> ('w, 'ip) machine res"
where
  "poll_timeouts os U p m =
     bind_res (get_client p m) (\<lambda>c.
       if \<not> connected c then Inr m
       else
         bind_res (checkAckTimeout os U p m) (\<lambda>(ack_expired, m1).
           if ack_expired then Inr m1 else poll_idle os U p m1))"

definition sockPoll ::
  "('w, 'ip) os \<Rightarrow> ('w, 'ip) usercode \<Rightarrow> ptr \<Rightarrow> ('w, 'ip) machine \<Rightarrow> ('w, 'ip) machine res"
where
  "sockPoll os U p m =
     bind_res (get_client p m) (\<lambda>c.
       if \<not> connected c then Inr m
       else
         bind_res (lock_write c) (\<lambda>c1.
         bind_res (cleanupWriteQueue os U p (put_client p c1 (world m) m))
           (poll_timeouts os U p)))"

definition processingDone ::
  "('w, 'ip) os \<Rightarrow> ('w, 'ip) usercode \<Rightarrow> ptr \<Rightarrow> ('w, 'ip) machine \<Rightarrow> ('w, 'ip) machine res"
where
  "processingDone os U p m =
     bind_res (get_client p m) (\<lambda>c.
       if conn_state c = DISCONNECTING then
         invoke os U p EvDisconnect (put_client p (c\<lparr>conn_state := DISCONNECTED\<rparr>) (world m) m)
       else Inr m)"

end
