(* ===== verification/ServerHandlers.thy ===== *)
theory ServerHandlers
  imports Machine
begin

text \<open>
  \<open>src/src/Server.cpp\<close>, what the manager task calls on a server: \<open>_sockIsReadable\<close> accepts a
  connection, makes a client of it and hands it to the application's accept callback.
\<close>

text \<open>\<open>invoke<ACCEPT>\<close> and \<open>Server::_sockIsReadable\<close>.\<close>

definition invoke_accept ::
  "('w, 'ip) os \<Rightarrow> ('w, 'ip) usercode \<Rightarrow> ptr \<Rightarrow> ptr \<Rightarrow> ('w, 'ip) machine \<Rightarrow> ('w, 'ip) machine res"
where
  "invoke_accept os U p client m =
     bind_res (get_server p m) (\<lambda>s.
       case acceptHandler (sv_callbacks s) of
         None \<Rightarrow> Inr m
       | Some h \<Rightarrow>
           let m1 = m\<lparr>trace := trace m @ [(p, EvAccept client)]\<rparr>
           in run_actions os (U h (acceptArg (sv_callbacks s)) p (EvAccept client) m1) m1)"

definition server_readable ::
  "('w, 'ip) os \<Rightarrow> ('w, 'ip) usercode \<Rightarrow> ptr \<Rightarrow> ('w, 'ip) machine \<Rightarrow> ('w, 'ip) machine res"
where
  "server_readable os U p m =
     bind_res (get_server p m) (\<lambda>s.
       if acceptHandler (sv_callbacks s) = None then Inr m
       else
         let (fd, w1) = sys_accept os (socket s) (world m); m1 = m\<lparr>world := w1\<rparr>
         in if fd < 0 then Inr m1
            else
              bind_res (new_client os (Some fd) m1) (\<lambda>(client, m2).
              bind_res (get_client client m2) (\<lambda>c.
                invoke_accept os U p client
                  (m2\<lparr>world := setNoDelay os (noDelay s) c (world m2)\<rparr>))))"

end
