(* ===== verification/Manager.thy ===== *)
theory Manager
  imports ClientHandlers ServerHandlers
begin

text \<open>
  \<open>src/src/SocketConnection.hpp\<close> and \<open>.tpp\<close>, the class \<open>SocketConnectionManager\<close>: one round
  of its worker task (\<open>updateConnectionStates\<close>), phase by phase. Each phase first collects
  the connections concerned, with the manager mutex held, and then visits them with the mutex
  free, because the visits run callbacks that may create or delete connections.
\<close>

section \<open>Visiting connections\<close>

fun for_each :: "('p \<Rightarrow> 'm \<Rightarrow> 'm res) \<Rightarrow> 'p list \<Rightarrow> 'm \<Rightarrow> 'm res" where
  "for_each f [] m = Inr m"
| "for_each f (p # ps) m = bind_res (f p m) (for_each f ps)"

fun iterate ::
  "(ptr \<Rightarrow> 'a \<Rightarrow> 'm \<Rightarrow> ('a \<times> 'm) res) \<Rightarrow> ptr list \<Rightarrow> 'a \<Rightarrow> 'm \<Rightarrow> ('a \<times> 'm) res"
where
  "iterate f [] a m = Inr (a, m)"
| "iterate f (p # ps) a m = bind_res (f p a m) (\<lambda>(a1, m1). iterate f ps a1 m1)"

text \<open>\<open>iterateClients\<close> and \<open>iterateServers\<close>: the function runs with the manager mutex held.\<close>

definition iterateClients ::
  "(ptr \<Rightarrow> 'a \<Rightarrow> ('w, 'ip) machine \<Rightarrow> ('a \<times> ('w, 'ip) machine) res) \<Rightarrow> 'a \<Rightarrow>
     ('w, 'ip) machine \<Rightarrow> ('a \<times> ('w, 'ip) machine) res"
where
  "iterateClients f a m =
     bind_res (lock_manager m) (\<lambda>m1.
     bind_res (iterate f (clients m1) a m1) (\<lambda>(a2, m2). Inr (a2, unlock_manager m2)))"

definition iterateServers ::
  "(ptr \<Rightarrow> 'a \<Rightarrow> ('w, 'ip) machine \<Rightarrow> ('a \<times> ('w, 'ip) machine) res) \<Rightarrow> 'a \<Rightarrow>
     ('w, 'ip) machine \<Rightarrow> ('a \<times> ('w, 'ip) machine) res"
where
  "iterateServers f a m =
     bind_res (lock_manager m) (\<lambda>m1.
     bind_res (iterate f (servers m1) a m1) (\<lambda>(a2, m2). Inr (a2, unlock_manager m2)))"

definition collect_clients ::
  "('ip ClientBase \<Rightarrow> bool) \<Rightarrow> ('w, 'ip) machine \<Rightarrow> (ptr list \<times> ('w, 'ip) machine) res"
where
  "collect_clients P m =
     iterateClients (\<lambda>p ps m1.
       bind_res (get_client p m1) (\<lambda>c. Inr (if P c then ps @ [p] else ps, m1))) [] m"

definition collect_servers ::
  "('ip Server \<Rightarrow> bool) \<Rightarrow> ('w, 'ip) machine \<Rightarrow> (ptr list \<times> ('w, 'ip) machine) res"
where
  "collect_servers P m =
     iterateServers (\<lambda>p ps m1.
       bind_res (get_server p m1) (\<lambda>s. Inr (if P s then ps @ [p] else ps, m1))) [] m"

section \<open>Waiting for activity\<close>

definition POLL_INTERVAL :: duration where
  "POLL_INTERVAL = 125 * nanos_per_milli"

definition hasFreeSocket :: "('w, 'ip) os \<Rightarrow> ('w, 'ip) machine \<Rightarrow> bool" where
  "hasFreeSocket os m =
     (case CONFIG_LWIP_MAX_SOCKETS os of
        None \<Rightarrow> True
      | Some n \<Rightarrow> length (clients m) + length (servers m) < n)"

text \<open>\<open>max_sock\<close> and the two descriptor sets, as lists of the descriptors set.\<close>

type_synonym fd_sets = "int \<times> int list \<times> int list"

definition gather_client ::
  "ptr \<Rightarrow> fd_sets \<Rightarrow> ('w, 'ip) machine \<Rightarrow> (fd_sets \<times> ('w, 'ip) machine) res"
where
  "gather_client p a m =
     bind_res (get_client p m) (\<lambda>c.
       let (max_sock, rs, ws) = a; fd = getSocket c
       in if fd \<noteq> -1 then
            Inr ((max max_sock (fd + 1), rs @ [fd], if pendingWrite c then ws @ [fd] else ws), m)
          else Inr (a, m))"

definition gather_server ::
  "('w, 'ip) os \<Rightarrow> ptr \<Rightarrow> fd_sets \<Rightarrow> ('w, 'ip) machine \<Rightarrow> (fd_sets \<times> ('w, 'ip) machine) res"
where
  "gather_server os p a m =
     bind_res (get_server p m) (\<lambda>s.
       let (max_sock, rs, ws) = a; fd = getSocket s
       in if fd \<noteq> -1 \<and> hasFreeSocket os m then Inr ((max max_sock (fd + 1), rs @ [fd], ws), m)
          else Inr (a, m))"

text \<open>The calls of \<open>iterate\<dots>\<close> before \<open>select\<close>, and \<open>select\<close> itself.\<close>

definition gather ::
  "('w, 'ip) os \<Rightarrow> ('w, 'ip) machine \<Rightarrow> (fd_sets \<times> ('w, 'ip) machine) res"
where
  "gather os m =
     bind_res (iterateClients gather_client (0, [], []) m) (\<lambda>(a, m1).
       iterateServers (gather_server os) a m1)"

definition wait_activity ::
  "('w, 'ip) os \<Rightarrow> ('w, 'ip) machine \<Rightarrow> ((int \<times> int list \<times> int list) \<times> ('w, 'ip) machine) res"
where
  "wait_activity os m =
     bind_res (gather os m) (\<lambda>((max_sock, rs, ws), m1).
       let (ready, w1) = select_all os max_sock rs ws (world m1)
       in Inr (ready, m1\<lparr>world := w1\<rparr>))"

section \<open>What is done to one connection\<close>

text \<open>\<open>c->setLastActive()\<close>, with the default argument \<open>steady_clock::now()\<close>.\<close>

definition touch_client :: "('w, 'ip) os \<Rightarrow> ptr \<Rightarrow> ('w, 'ip) machine \<Rightarrow> ('w, 'ip) machine res" where
  "touch_client os p m =
     (let (now, w1) = steady_now os (world m)
      in bind_res (get_client p m) (\<lambda>c. Inr (put_client p (setLastActive now c) w1 m)))"

definition touch_server :: "('w, 'ip) os \<Rightarrow> ptr \<Rightarrow> ('w, 'ip) machine \<Rightarrow> ('w, 'ip) machine res" where
  "touch_server os p m =
     (let (now, w1) = steady_now os (world m)
      in bind_res (get_server p m) (\<lambda>s. Inr (put_server p (setLastActive now s) w1 m)))"

text \<open>The lambdas of the phases, over the operations of the concept \<open>ManagedClient\<close>.\<close>

definition visit_writeable ::
  "(ptr \<Rightarrow> 'm \<Rightarrow> (bool \<times> 'm) res) \<Rightarrow> (ptr \<Rightarrow> 'm \<Rightarrow> 'm res) \<Rightarrow> ptr \<Rightarrow> 'm \<Rightarrow> 'm res"
where
  "visit_writeable writeable touch p m =
     bind_res (writeable p m) (\<lambda>(activity, m1). if activity then touch p m1 else Inr m1)"

definition visit_then ::
  "(ptr \<Rightarrow> 'm \<Rightarrow> 'm res) \<Rightarrow> (ptr \<Rightarrow> 'm \<Rightarrow> 'm res) \<Rightarrow> ptr \<Rightarrow> 'm \<Rightarrow> 'm res"
where
  "visit_then first action p m = bind_res (first p m) (action p)"

definition clear_dns :: "ptr \<Rightarrow> ('w, 'ip) machine \<Rightarrow> ('w, 'ip) machine res" where
  "clear_dns p m =
     bind_res (get_client p m) (\<lambda>c. Inr (put_client p (setDnsFinished False c) (world m) m))"

section \<open>The phases of one round\<close>

definition write_phase ::
  "('w, 'ip) os \<Rightarrow> ('w, 'ip) usercode \<Rightarrow> int list \<Rightarrow> ('w, 'ip) machine \<Rightarrow> ('w, 'ip) machine res"
where
  "write_phase os U ws m =
     bind_res (collect_clients (\<lambda>c. getSocket c \<in> set ws) m) (\<lambda>(ps, m1).
       for_each (visit_writeable (sockIsWriteable os U) (touch_client os)) ps m1)"

definition read_phase ::
  "('w, 'ip) os \<Rightarrow> ('w, 'ip) usercode \<Rightarrow> int list \<Rightarrow> ('w, 'ip) machine \<Rightarrow> ('w, 'ip) machine res"
where
  "read_phase os U rs m =
     bind_res (collect_clients (\<lambda>c. getSocket c \<in> set rs) m) (\<lambda>(ps, m1).
       for_each (visit_then (touch_client os) (sockIsReadable os U)) ps m1)"

definition accept_phase ::
  "('w, 'ip) os \<Rightarrow> ('w, 'ip) usercode \<Rightarrow> int list \<Rightarrow> ('w, 'ip) machine \<Rightarrow> ('w, 'ip) machine res"
where
  "accept_phase os U rs m =
     bind_res (collect_servers (\<lambda>s. getSocket s \<in> set rs) m) (\<lambda>(ps, m1).
       for_each (visit_then (touch_server os) (server_readable os U)) ps m1)"

definition dns_phase ::
  "('w, 'ip) os \<Rightarrow> ('w, 'ip) usercode \<Rightarrow> ('w, 'ip) machine \<Rightarrow> ('w, 'ip) machine res"
where
  "dns_phase os U m =
     bind_res (collect_clients isDnsFinished m) (\<lambda>(ps, m1).
       for_each (visit_then clear_dns (sockDelayedConnect os U)) ps m1)"

definition collect_idle ::
  "('w, 'ip) os \<Rightarrow> ptr \<Rightarrow> ptr list \<Rightarrow> ('w, 'ip) machine \<Rightarrow> (ptr list \<times> ('w, 'ip) machine) res"
where
  "collect_idle os p ps m =
     (let (now, w1) = steady_now os (world m)
      in bind_res (get_client p m) (\<lambda>c.
           if POLL_INTERVAL \<le> now - getLastActive c
           then Inr (ps @ [p], put_client p (setLastActive now c) w1 m)
           else Inr (ps, m\<lparr>world := w1\<rparr>)))"

definition poll_phase ::
  "('w, 'ip) os \<Rightarrow> ('w, 'ip) usercode \<Rightarrow> ('w, 'ip) machine \<Rightarrow> ('w, 'ip) machine res"
where
  "poll_phase os U m =
     bind_res (iterateClients (collect_idle os) [] m) (\<lambda>(ps, m1).
       for_each (sockPoll os U) ps m1)"

definition done_phase ::
  "('w, 'ip) os \<Rightarrow> ('w, 'ip) usercode \<Rightarrow> ('w, 'ip) machine \<Rightarrow> ('w, 'ip) machine res"
where
  "done_phase os U m =
     bind_res (collect_clients (\<lambda>c. True) m) (\<lambda>(ps, m1). for_each (processingDone os U) ps m1)"

text \<open>One round of the \<open>while (true)\<close>, and a number of rounds.\<close>

definition socket_phases ::
  "('w, 'ip) os \<Rightarrow> ('w, 'ip) usercode \<Rightarrow> int list \<Rightarrow> int list \<Rightarrow> ('w, 'ip) machine \<Rightarrow>
     ('w, 'ip) machine res"
where
  "socket_phases os U rs ws m =
     bind_res (write_phase os U ws m) (\<lambda>m1.
     bind_res (read_phase os U rs m1) (accept_phase os U rs))"

definition update_round ::
  "('w, 'ip) os \<Rightarrow> ('w, 'ip) usercode \<Rightarrow> ('w, 'ip) machine \<Rightarrow> ('w, 'ip) machine res"
where
  "update_round os U m =
     bind_res (wait_activity os m) (\<lambda>((success, rs, ws), m1).
     bind_res (if 0 < success then socket_phases os U rs ws m1 else Inr m1) (\<lambda>m2.
     bind_res (dns_phase os U m2) (\<lambda>m3.
     bind_res (poll_phase os U m3) (done_phase os U))))"

fun update_rounds ::
  "nat \<Rightarrow> ('w, 'ip) os \<Rightarrow> ('w, 'ip) usercode \<Rightarrow> ('w, 'ip) machine \<Rightarrow> ('w, 'ip) machine res"
where
  "update_rounds 0 os U m = Inr m"
| "update_rounds (Suc n) os U m = bind_res (update_round os U m) (update_rounds n os U)"

end
