(* ===== verification/MachineInvariant.thy ===== *)
theory MachineInvariant
  imports Machine
begin

text \<open>
  The invariant of the whole program state, and that everything application code can do keeps
  it. \<open>L\<close> is the set of clients whose write mutex is held; callbacks run with \<open>L = {}\<close>.
\<close>

section \<open>The invariant\<close>

definition heap_inv :: "('w, 'ip) os \<Rightarrow> ptr set \<Rightarrow> ('w, 'ip) machine \<Rightarrow> bool" where
  "heap_inv os L m \<longleftrightarrow>
     (\<forall>p c. heap m p = Some c \<longrightarrow>
        space_inv os c \<and> link_inv c \<and> (writeMutex c \<longleftrightarrow> p \<in> L))"

text \<open>
  The manager's lists hold exactly the live objects, each once, and its mutex is free; no
  object lives at the null address, and no address holds both a client and a server.
\<close>

definition registry_inv :: "('w, 'ip) machine \<Rightarrow> bool" where
  "registry_inv m \<longleftrightarrow>
     \<not> managerMutex m \<and>
     distinct (clients m) \<and> (\<forall>p. p \<in> set (clients m) \<longleftrightarrow> heap m p \<noteq> None) \<and>
     distinct (servers m) \<and> (\<forall>p. p \<in> set (servers m) \<longleftrightarrow> server_heap m p \<noteq> None) \<and>
     heap m 0 = None \<and> server_heap m 0 = None \<and>
     (\<forall>p. heap m p \<noteq> None \<longrightarrow> server_heap m p = None)"

definition machine_inv :: "('w, 'ip) os \<Rightarrow> ptr set \<Rightarrow> ('w, 'ip) machine \<Rightarrow> bool" where
  "machine_inv os L m \<longleftrightarrow> heap_inv os L m \<and> registry_inv m"

text \<open>
  The faults application code may cause by itself: a string without terminator, a call on an
  object it has deleted, no memory. \<open>Deadlock\<close> is not among them.
\<close>

abbreviation app_faults :: "fault set" where
  "app_faults \<equiv> {Hang, UseAfterFree, BadAlloc}"

definition platform_ok :: "('w, 'ip) os \<Rightarrow> bool" where
  "platform_ok os \<longleftrightarrow> write_sound os \<and> new_law os \<and> badfd_law os"

lemma platform_okD:
  "platform_ok os \<Longrightarrow> write_sound os"
  "platform_ok os \<Longrightarrow> new_law os"
  "platform_ok os \<Longrightarrow> badfd_law os"
  by (simp_all add: platform_ok_def)

lemma machine_inv_client:
  "machine_inv os L m \<Longrightarrow> heap m p = Some c \<Longrightarrow> p \<notin> L \<Longrightarrow> client_inv os c"
  by (auto simp: machine_inv_def heap_inv_def client_inv_def)

lemma machine_inv_locked:
  "machine_inv os L m \<Longrightarrow> heap m p = Some c \<Longrightarrow> space_inv os c \<and> link_inv c"
  by (auto simp: machine_inv_def heap_inv_def)

lemma machine_inv_put:
  assumes "machine_inv os L m" and "heap m p \<noteq> None" and "client_inv os c"
  shows "machine_inv os (L - {p}) (put_client p c w m)"
  using assms
  by (auto simp: machine_inv_def heap_inv_def registry_inv_def put_client_def client_inv_def)

lemma machine_inv_put_locked:
  assumes "machine_inv os L m" and "heap m p \<noteq> None"
    and "space_inv os c" and "link_inv c" and "writeMutex c"
  shows "machine_inv os (insert p L) (put_client p c w m)"
  using assms
  by (auto simp: machine_inv_def heap_inv_def registry_inv_def put_client_def)

lemma machine_inv_world [simp]: "machine_inv os L (m\<lparr>world := w\<rparr>) = machine_inv os L m"
  by (simp add: machine_inv_def heap_inv_def registry_inv_def)

lemma machine_inv_trace [simp]: "machine_inv os L (m\<lparr>trace := t\<rparr>) = machine_inv os L m"
  by (simp add: machine_inv_def heap_inv_def registry_inv_def)

lemma get_client_holds:
  "(\<And>c. heap m p = Some c \<Longrightarrow> P c) \<Longrightarrow> UseAfterFree \<in> E \<Longrightarrow> holds E P (get_client p m)"
  by (cases "heap m p") (auto simp: get_client_def)

lemma get_server_holds:
  "(\<And>s. server_heap m p = Some s \<Longrightarrow> P s) \<Longrightarrow> UseAfterFree \<in> E \<Longrightarrow> holds E P (get_server p m)"
  by (cases "server_heap m p") (auto simp: get_server_def)

section \<open>Registration\<close>

lemma addConnection_eq:
  "\<not> managerMutex m \<Longrightarrow> p \<noteq> 0 \<Longrightarrow> addConnection p m = Inr (m\<lparr>clients := clients m @ [p]\<rparr>)"
  by (simp add: addConnection_def lock_manager_def unlock_manager_def)

lemma removeConnection_eq:
  "\<not> managerMutex m \<Longrightarrow> p \<noteq> 0 \<Longrightarrow>
     removeConnection p m = Inr (m\<lparr>clients := removeAll p (clients m)\<rparr>)"
  by (simp add: removeConnection_def lock_manager_def unlock_manager_def)

lemma addServer_eq:
  "\<not> managerMutex m \<Longrightarrow> p \<noteq> 0 \<Longrightarrow> addServer p m = Inr (m\<lparr>servers := servers m @ [p]\<rparr>)"
  by (simp add: addServer_def lock_manager_def unlock_manager_def)

lemma removeServer_eq:
  "\<not> managerMutex m \<Longrightarrow> p \<noteq> 0 \<Longrightarrow>
     removeServer p m = Inr (m\<lparr>servers := removeAll p (servers m)\<rparr>)"
  by (simp add: removeServer_def lock_manager_def unlock_manager_def)

section \<open>Allocation\<close>

lemma allocate_holds:
  assumes "new_law os" and "machine_inv os L m"
  shows "holds {BadAlloc} (\<lambda>(p, w). p \<noteq> 0 \<and> heap m p = None \<and> server_heap m p = None)
    (allocate os m)"
proof (cases "operator_new os (live m) (world m)")
  case (Pair r w)
  with new_lawD [OF assms(1), of "live m" "world m"] show ?thesis
    by (cases r) (auto simp: allocate_def live_def)
qed

lemma construct_client_inv: "construct_client os fd w = (c, w') \<Longrightarrow> client_inv os c"
  using client_inv_new [of os w] client_inv_accepted [of os _ w]
  by (auto simp: construct_client_def split: option.splits) (metis fst_conv)+

lemma new_client_eq:
  assumes "allocate os m = Inr (p, w1)" and "construct_client os fd w1 = (c, w2)"
    and "\<not> managerMutex m" and "p \<noteq> 0"
  shows "new_client os fd m =
    Inr (p, (put_client p c w2 m)\<lparr>clients := clients m @ [p]\<rparr>)"
  using assms
  by (simp add: new_client_def addConnection_eq put_client_def del: fun_upd_apply)

lemma register_inv:
  assumes "machine_inv os {} m" and "p \<noteq> 0" and "heap m p = None" and "server_heap m p = None"
    and "client_inv os c"
  shows "machine_inv os {} ((put_client p c w m)\<lparr>clients := clients m @ [p]\<rparr>)"
  using assms
  by (auto simp: machine_inv_def heap_inv_def registry_inv_def put_client_def client_inv_def)

lemma new_client_holds:
  assumes "new_law os" and "machine_inv os {} m"
  shows "holds {BadAlloc} (\<lambda>(p, m1). machine_inv os {} m1 \<and> heap m p = None \<and>
      clients m1 = clients m @ [p] \<and> server_heap m1 = server_heap m \<and> (\<exists>c. heap m1 = (heap m)(p \<mapsto> c) \<and> client_inv os c))
    (new_client os fd m)"
proof (cases "allocate os m")
  case (Inl e)
  with allocate_holds [OF assms] show ?thesis by (simp add: new_client_def)
next
  case (Inr x)
  obtain p w1 where x: "x = (p, w1)" by fastforce
  with Inr allocate_holds [OF assms] have p: "p \<noteq> 0" "heap m p = None" "server_heap m p = None"
    by auto
  obtain c w2 where c: "construct_client os fd w1 = (c, w2)" by fastforce
  have un: "\<not> managerMutex m" using assms(2) by (simp add: machine_inv_def registry_inv_def)
  have "new_client os fd m = Inr (p, (put_client p c w2 m)\<lparr>clients := clients m @ [p]\<rparr>)"
    using Inr x by (intro new_client_eq [OF _ c un p(1)]) simp
  then show ?thesis
    using register_inv [OF assms(2) p construct_client_inv [OF c], of w2]
      construct_client_inv [OF c] p
    by (auto simp: put_client_def)
qed

lemma delete_client_live:
  assumes "machine_inv os {} m" and "heap m p \<noteq> None"
  shows "holds {} (\<lambda>m1. machine_inv os {} m1 \<and> heap m1 = (heap m)(p := None) \<and>
      clients m1 = removeAll p (clients m) \<and> server_heap m1 = server_heap m) (delete_client os p m)"
proof -
  from assms(2) obtain c where Some: "heap m p = Some c" by auto
  with assms(1) have p: "p \<noteq> 0" and un: "\<not> managerMutex m" and c: "client_inv os c"
    by (auto simp: machine_inv_def registry_inv_def heap_inv_def client_inv_def)
  have "machine_inv os {} (m\<lparr>clients := removeAll p (clients m), heap := (heap m)(p := None),
      world := w\<rparr>)" for w
    using assms(1) by (auto simp: machine_inv_def registry_inv_def heap_inv_def distinct_removeAll)
  then show ?thesis
    using Some p un client_inv_unlocked [OF c]
    by (simp add: delete_client_def get_client_def removeConnection_eq close_client_def
        close_socket_eq)
qed

lemma delete_client_holds:
  assumes "machine_inv os {} m"
  shows "holds {UseAfterFree} (\<lambda>m1. machine_inv os {} m1 \<and> heap m1 = (heap m)(p := None) \<and>
      clients m1 = removeAll p (clients m) \<and> server_heap m1 = server_heap m) (delete_client os p m)"
proof (cases "heap m p")
  case None
  then show ?thesis by (simp add: delete_client_def get_client_def)
next
  case (Some c)
  with delete_client_live [OF assms, of p] show ?thesis by (auto elim: holds_weaken)
qed

lemma new_server_holds:
  assumes "new_law os" and "machine_inv os {} m"
  shows "holds {BadAlloc} (\<lambda>(p, m1). machine_inv os {} m1) (new_server os addr port m)"
proof (cases "allocate os m")
  case (Inl e)
  with allocate_holds [OF assms] show ?thesis by (simp add: new_server_def)
next
  case (Inr x)
  obtain p w1 where x: "x = (p, w1)" by fastforce
  with Inr allocate_holds [OF assms] have p: "p \<noteq> 0" "heap m p = None" "server_heap m p = None"
    by auto
  obtain s w2 where s: "Server_new os addr port w1 = (s, w2)" by fastforce
  have "machine_inv os {} ((put_server p s w2 m)\<lparr>servers := servers m @ [p]\<rparr>)"
    using assms(2) p
    by (auto simp: machine_inv_def registry_inv_def heap_inv_def put_server_def)
  moreover have "\<not> managerMutex m"
    using assms(2) by (simp add: machine_inv_def registry_inv_def)
  ultimately show ?thesis
    using Inr x s p(1) by (simp add: new_server_def addServer_eq put_server_def del: fun_upd_apply)
qed

lemma delete_server_holds:
  assumes "machine_inv os {} m"
  shows "holds {UseAfterFree} (machine_inv os {}) (delete_server os p m)"
proof (cases "server_heap m p")
  case None
  then show ?thesis by (simp add: delete_server_def get_server_def)
next
  case (Some s)
  with assms have p: "p \<noteq> 0" and un: "\<not> managerMutex m"
    by (auto simp: machine_inv_def registry_inv_def)
  have "machine_inv os {} (m\<lparr>servers := removeAll p (servers m),
      server_heap := (server_heap m)(p := None), world := w\<rparr>)" for w
    using assms by (auto simp: machine_inv_def registry_inv_def heap_inv_def distinct_removeAll)
  then show ?thesis
    using Some p un
    by (simp add: delete_server_def get_server_def removeServer_eq case_prod_unfold)
qed

section \<open>Application code\<close>

lemma drop_result_holds:
  "holds E (\<lambda>(x, c, w). P c) r \<Longrightarrow> holds E (\<lambda>(c, w). P c) (drop_result r)"
  by (cases r) auto

lemmas drop_result_total = drop_result_holds [OF holds_total_any]

lemma run_api_keeps:
  assumes "write_sound os" and "client_inv os c"
  shows "holds {Hang} (\<lambda>(c', w'). client_inv os c') (run_api os self op c w)"
proof (cases op)
  case (ConnectIp ip port)
  then show ?thesis
    using connect_ip_keeps [OF assms(2), of ip port w] by (simp add: case_prod_unfold)
next
  case (ConnectHost host port)
  then show ?thesis
    using connect_host_keeps [OF assms(2), of self host port w] by (simp add: case_prod_unfold)
next
  case Close
  then show ?thesis using close_client_keeps [OF assms(2), THEN holds_total_any] by simp
next
  case Abort
  then show ?thesis
    using abort_client_keeps [OF assms(2), THEN drop_result_total] by simp
next
  case (Add data n flags)
  then show ?thesis
    using add_keeps [OF assms(2), THEN drop_result_total] by simp
next
  case (AddStr str n flags)
  then show ?thesis using add_str_keeps [OF assms(2), THEN drop_result_holds] by simp
next
  case Send
  then show ?thesis
    using send_keeps [OF assms, THEN drop_result_total] by simp
next
  case (Write data n flags)
  then show ?thesis
    using write_bytes_keeps [OF assms, THEN drop_result_total] by simp
next
  case (WriteStr str n flags)
  then show ?thesis using write_str_keeps [OF assms, THEN drop_result_holds] by simp
next
  case (SetHandler t h a)
  then show ?thesis using assms(2) by (simp add: client_inv_defs isOpen_def)
qed (use assms setAckTimeout_keeps setRxTimeout_keeps in auto)

lemma call_api_holds:
  assumes "write_sound os" and "machine_inv os {} m"
  shows "holds app_faults (machine_inv os {}) (call_api os p op m)"
  unfolding call_api_def holds_bind
proof (rule get_client_holds)
  fix c assume c: "heap m p = Some c"
  then have "client_inv os c" using assms(2) by (auto dest: machine_inv_client)
  from run_api_keeps [OF assms(1) this, of p op "world m"]
  have "holds {Hang} (\<lambda>(c', w'). machine_inv os {} (put_client p c' w' m)) (run_api os p op c (world m))"
    using machine_inv_put [OF assms(2), of p] c by (auto elim!: holds_mono)
  then show "holds app_faults
      (\<lambda>x. holds app_faults (machine_inv os {}) (case x of (c1, w1) \<Rightarrow> Inr (put_client p c1 w1 m)))
      (run_api os p op c (world m))"
    by (rule holds_weaken) auto
qed simp

lemma call_apis_holds:
  assumes "write_sound os"
  shows "machine_inv os {} m \<Longrightarrow> holds app_faults (machine_inv os {}) (call_apis os p ops m)"
proof (induction ops arbitrary: m)
  case (Cons op ops)
  show ?case
    using holds_mono [OF call_api_holds [OF assms Cons.prems] Cons.IH] by simp
qed simp

lemma on_server_holds:
  assumes "machine_inv os {} m"
  shows "holds app_faults (machine_inv os {}) (on_server p f m)"
  unfolding on_server_def holds_bind
proof (rule get_server_holds)
  fix s assume "server_heap m p = Some s"
  then show "holds app_faults (machine_inv os {})
      (let (s1, w1) = f s (world m) in Inr (put_server p s1 w1 m))"
    using assms
    by (auto simp: put_server_def machine_inv_def heap_inv_def registry_inv_def
        split: prod.splits)
qed simp

lemma run_action_holds:
  assumes "platform_ok os" and "machine_inv os {} m"
  shows "holds app_faults (machine_inv os {}) (run_action os a m)"
proof (cases a)
  case (Api p op)
  then show ?thesis using call_api_holds [OF platform_okD(1) [OF assms(1)] assms(2)] by simp
next
  case (New ops)
  have "holds app_faults (\<lambda>(p, m1). holds app_faults (machine_inv os {}) (call_apis os p ops m1))
      (new_client os None m)"
    using new_client_holds [OF platform_okD(2) [OF assms(1)] assms(2), of None]
      call_apis_holds [OF platform_okD(1) [OF assms(1)]]
    by (auto elim!: holds_weaken)
  with New show ?thesis by (simp add: case_prod_unfold)
next
  case (Delete p)
  then show ?thesis
    using delete_client_holds [OF assms(2), of p] by (auto elim!: holds_weaken)
qed (use on_server_holds [OF assms(2)] in simp_all)

lemma run_actions_holds:
  assumes "platform_ok os"
  shows "machine_inv os {} m \<Longrightarrow> holds app_faults (machine_inv os {}) (run_actions os as m)"
proof (induction as arbitrary: m)
  case (Cons a as)
  show ?case
    using holds_mono [OF run_action_holds [OF assms Cons.prems] Cons.IH] by simp
qed simp

lemma invoke_holds:
  assumes "platform_ok os" and "machine_inv os {} m"
  shows "holds app_faults (machine_inv os {}) (invoke os U p ev m)"
  unfolding invoke_def holds_bind
  by (rule get_client_holds)
    (use run_actions_holds [OF assms(1)] assms(2) in \<open>auto simp: Let_def split: option.splits\<close>)

end
