(* ===== verification/HandlerInvariant.thy ===== *)
theory HandlerInvariant
  imports Manager MachineInvariant
begin

text \<open>
  The contract between the handlers and the application's callbacks, as a locale, and the
  handlers proved over it: each keeps the invariant of the whole state, calls every callback
  with all mutexes free, and does not touch a client a callback may have deleted. The contract
  has two providers: any application at all (theory \<open>MachineInvariant\<close>; it may cause faults of
  its own, but no deadlock), and one that deletes clients only where the code allows it.
\<close>

section \<open>The cleanup scan\<close>

text \<open>
  The scan splits the queue: the entries in front that are finished and free of errors give
  the statistics, in order; what is left is empty, or starts with an entry with an error
  (whose code is returned) or with an unfinished one.
\<close>

definition finished :: "WriteQueueBuffer \<Rightarrow> bool" where
  "finished b \<longleftrightarrow> \<not> hasError b \<and> isFullyWritten b"

lemma cleanup_scan_split:
  assumes "cleanup_scan q rx = (e, stats, rx', rest)"
  shows "q = takeWhile finished q @ rest \<and> rest = dropWhile finished q \<and>
    stats = map stats_of (takeWhile finished q) \<and>
    e = (case rest of [] \<Rightarrow> None
         | b # _ \<Rightarrow> if hasError b then Some (errorCode (asCommonView b)) else None) \<and>
    rx \<le> rx'"
  using assms
proof (induction q arbitrary: rx e stats rx' rest)
  case Nil
  then show ?case by simp
next
  case (Cons b q)
  show ?case
  proof (cases "finished b")
    case False
    with Cons.prems show ?thesis by (auto simp: finished_def split: if_splits)
  next
    case True
    define rx1 where "rx1 = (if rx < writtenAt (asCommonView b) then writtenAt (asCommonView b) else rx)"
    from True Cons.prems obtain stats1 where
      s: "cleanup_scan q rx1 = (e, stats1, rx', rest)" and "stats = stats_of b # stats1"
      by (auto simp: finished_def rx1_def Let_def split: prod.splits)
    moreover have "rx \<le> rx1" by (simp add: rx1_def)
    ultimately show ?thesis using Cons.IH [OF s] True by auto
  qed
qed

lemma finished_remaining: "finished b \<Longrightarrow> remaining b = 0"
  by (simp add: finished_def remaining_def)

lemma queue_bytes_dropWhile: "queue_bytes (dropWhile finished q) = queue_bytes q"
  by (induction q) (auto simp: finished_remaining)

lemma cleanup_scan_rest:
  assumes "cleanup_scan q rx = (e, stats, rx', rest)"
  shows "queue_bytes rest = queue_bytes q" and "set rest \<subseteq> set q"
  using cleanup_scan_split [OF assms]
  by (metis queue_bytes_dropWhile) (metis set_dropWhileD subsetI cleanup_scan_split [OF assms])

section \<open>Closing and errors\<close>

definition closed_client :: "('w, 'ip) os \<Rightarrow> 'ip ClientBase \<Rightarrow> 'ip ClientBase" where
  "closed_client os c =
     c\<lparr>socket := -1, conn_state := DISCONNECTING, writeQueue := [],
       writeSpaceRemaining := INITIAL_WRITE_SPACE os\<rparr>"

lemma closed_client_inv: "\<not> writeMutex c \<Longrightarrow> client_inv os (closed_client os c)"
  by (simp add: closed_client_def closed_inv)

lemma close_at_eq:
  "heap m p = Some c \<Longrightarrow> \<not> writeMutex c \<Longrightarrow> close_at os p m =
     Inr (put_client p (closed_client os c) (sys_close os (socket c) (world m)) m)"
  by (simp add: close_at_def get_client_def close_socket_eq closed_client_def)

section \<open>The contract with the application\<close>

text \<open>
  The clients in \<open>S\<close> and the servers in \<open>T\<close> are alive; nothing is asked where using a deleted
  object is among the faults allowed.
\<close>

definition alive :: "fault set \<Rightarrow> ptr set \<Rightarrow> ptr set \<Rightarrow> ('w, 'ip) machine \<Rightarrow> bool" where
  "alive faults S T m \<longleftrightarrow>
     UseAfterFree \<in> faults \<or>
     (\<forall>p \<in> S. heap m p \<noteq> None) \<and> (\<forall>p \<in> T. server_heap m p \<noteq> None)"

definition safe ::
  "('w, 'ip) os \<Rightarrow> fault set \<Rightarrow> ptr set \<Rightarrow> ptr set \<Rightarrow> ('w, 'ip) machine \<Rightarrow> bool"
where
  "safe os faults S T m \<longleftrightarrow> machine_inv os {} m \<and> alive faults S T m"

text \<open>The callbacks after which the code does not touch the client again.\<close>

fun may_delete :: "cb_event \<Rightarrow> bool" where
  "may_delete EvConnect = False"
| "may_delete EvDisconnect = True"
| "may_delete EvPoll = True"
| "may_delete (EvSent n d) = False"
| "may_delete (EvRecv bs) = True"
| "may_delete (EvError e) = False"
| "may_delete (EvTimeout d) = True"
| "may_delete (EvAccept p) = False"

definition survivors :: "ptr set \<Rightarrow> ptr \<Rightarrow> cb_event \<Rightarrow> ptr set" where
  "survivors S p ev = (if may_delete ev then S - {p} else S)"

lemma survivors_simps [simp]:
  "may_delete ev \<Longrightarrow> survivors S p ev = S - {p}"
  "\<not> may_delete ev \<Longrightarrow> survivors S p ev = S"
  by (simp_all add: survivors_def)

lemma alive_subset: "alive faults S T m \<Longrightarrow> S' \<subseteq> S \<Longrightarrow> T' \<subseteq> T \<Longrightarrow> alive faults S' T' m"
  by (auto simp: alive_def)

lemma safe_subset: "safe os faults S T m \<Longrightarrow> S' \<subseteq> S \<Longrightarrow> safe os faults S' T m"
  by (auto simp: safe_def intro: alive_subset)

lemma safe_world [simp]: "safe os faults S T (m\<lparr>world := w\<rparr>) = safe os faults S T m"
  by (simp add: safe_def alive_def)

lemma safe_put:
  assumes "safe os faults S T m" and "heap m p = Some c" and "client_inv os c'"
  shows "safe os faults S T (put_client p c' w m)"
  using machine_inv_put [of os "{}" m p c' w] assms
  by (auto simp: safe_def alive_def put_client_def)

lemma safe_client: "safe os faults S T m \<Longrightarrow> heap m p = Some c \<Longrightarrow> client_inv os c"
  by (auto simp: safe_def dest: machine_inv_client)

lemma safe_get:
  "safe os faults S T m \<Longrightarrow> p \<in> S \<Longrightarrow> (\<And>c. heap m p = Some c \<Longrightarrow> P c) \<Longrightarrow>
    holds faults P (get_client p m)"
  by (cases "heap m p") (auto simp: get_client_def safe_def alive_def)

lemma safe_get_server:
  "safe os faults S T m \<Longrightarrow> p \<in> T \<Longrightarrow> (\<And>s. server_heap m p = Some s \<Longrightarrow> P s) \<Longrightarrow>
    holds faults P (get_server p m)"
  by (cases "server_heap m p") (auto simp: get_server_def safe_def alive_def)

text \<open>
  The contract: when a callback is called on a live client, with every mutex free, the state
  afterwards is again well-formed, and the clients that must survive the event are alive.
\<close>

locale app_contract =
  fixes os :: "('w, 'ip) os" and U :: "('w, 'ip) usercode"
    and faults :: "fault set" and ok :: bool
  assumes platform: "ok \<Longrightarrow> platform_ok os"
    and invoke_ok: "ok \<Longrightarrow> safe os faults S T m \<Longrightarrow> p \<in> S \<Longrightarrow>
      holds faults (safe os faults (survivors S p ev) T) (invoke os U p ev m)"
    and accept_ok: "ok \<Longrightarrow> safe os faults S T m \<Longrightarrow> p \<in> T \<Longrightarrow>
      holds faults (safe os faults S T) (invoke_accept os U p q m)"
    and alloc_fault: "BadAlloc \<in> faults"
begin

lemma close_at_ok:
  assumes "safe os faults S T m" and "p \<in> S"
  shows "holds faults (safe os faults S T) (close_at os p m)"
proof (cases "heap m p")
  case None
  with safe_get [OF assms, of "\<lambda>c. False"] show ?thesis by (simp add: close_at_def get_client_def)
next
  case (Some c)
  then have "\<not> writeMutex c" using safe_client [OF assms(1)] client_inv_unlocked by blast
  then show ?thesis by (simp add: close_at_eq Some safe_put [OF assms(1) Some] closed_client_inv)
qed

lemma error_at_ok:
  assumes "ok" and "safe os faults S T m" and "p \<in> S"
  shows "holds faults (safe os faults S T) (error_at os U p code m)"
proof -
  have "holds faults (safe os faults S T) (invoke os U p (EvError code) m)"
    using invoke_ok [OF assms, of "EvError code"] by simp
  then show ?thesis
    unfolding error_at_def holds_bind by (rule holds_mono) (rule close_at_ok [OF _ assms(3)])
qed

lemma notify_sent_ok:
  assumes "ok" and "p \<in> S"
  shows "safe os faults S T m \<Longrightarrow> holds faults (safe os faults S T) (notify_sent os U p ss m)"
proof (induction ss arbitrary: m)
  case (Cons s ss)
  have "holds faults (safe os faults S T) (invoke os U p (EvSent (ws_length s) (ws_delay s)) m)"
    using invoke_ok [OF assms(1) Cons.prems assms(2), of "EvSent (ws_length s) (ws_delay s)"]
    by simp
  from holds_mono [OF this Cons.IH] show ?case by simp
qed simp

lemma put_unlocked:
  assumes "machine_inv os {p} m" and "alive faults S T m" and "heap m p = Some c"
    and "client_inv os c'"
  shows "safe os faults S T (put_client p c' w m)"
  using machine_inv_put [OF assms(1) _ assms(4), of p w] assms(2,3)
  by (auto simp: safe_def alive_def put_client_def)

lemma put_locked:
  assumes "safe os faults S T m" and "heap m p = Some c"
    and "space_inv os c'" and "link_inv c'" and "writeMutex c'"
  shows "machine_inv os {p} (put_client p c' w m) \<and> alive faults S T (put_client p c' w m)"
  using machine_inv_put_locked [of os "{}" m p c' w] assms
  by (auto simp: safe_def alive_def put_client_def)

lemma cleanupWriteQueue_ok:
  assumes "ok" and "p \<in> S" and "machine_inv os {p} m" and "alive faults S T m"
  shows "holds faults (safe os faults S T) (cleanupWriteQueue os U p m)"
proof (cases "heap m p")
  case None
  with assms(2,4) show ?thesis by (auto simp: cleanupWriteQueue_def get_client_def alive_def)
next
  case (Some c)
  obtain e stats rx rest where scan: "cleanup_scan (writeQueue c) (rx_last_packet c) = (e, stats, rx, rest)"
    by (metis surj_pair)
  have inv: "space_inv os c" "link_inv c" using machine_inv_locked [OF assms(3) Some] by auto
  have "client_inv os (unlock_write (c\<lparr>rx_last_packet := rx\<rparr>))"
    using inv by (auto simp: client_inv_defs unlock_write_def isOpen_def)
  moreover have "client_inv os (unlock_write (c\<lparr>rx_last_packet := rx, writeQueue := rest\<rparr>))"
    using inv cleanup_scan_rest [OF scan]
    by (auto simp: client_inv_defs unlock_write_def isOpen_def)
  ultimately show ?thesis
    using put_unlocked [OF assms(3,4) Some] assms(1,2)
    by (auto simp: cleanupWriteQueue_def get_client_def Some scan
        intro!: error_at_ok notify_sent_ok split: option.splits)
qed

section \<open>The handlers\<close>

lemma client_inv_update:
  assumes "client_inv os c"
  shows "client_inv os (c\<lparr>writeMutex := False\<rparr>)"
    and "client_inv os (c\<lparr>rx_last_packet := t\<rparr>)"
    and "client_inv os (c\<lparr>writeMutex := False, ack_timeout_signaled := b\<rparr>)"
    and "client_inv os (c\<lparr>ack_timeout_signaled := b\<rparr>)"
  using assms by (auto simp: client_inv_defs isOpen_def)

lemma checkAckTimeout_ok:
  assumes "ok" and "safe os faults S T m" and "p \<in> S"
  shows "holds faults (\<lambda>(b, m1). safe os faults (if b then S - {p} else S) T m1)
    (checkAckTimeout os U p m)"
  unfolding checkAckTimeout_def holds_bind
proof (rule safe_get [OF assms(2,3)], goal_cases)
  case (1 c)
  then have inv: "client_inv os c" using safe_client [OF assms(2)] by simp
  note put = safe_put [OF assms(2) 1]
  have un: "unlock_write (c\<lparr>writeMutex := True, ack_timeout_signaled := True\<rparr>) =
      c\<lparr>ack_timeout_signaled := True\<rparr>" "unlock_write (c\<lparr>writeMutex := True\<rparr>) = c"
    using client_inv_unlocked [OF inv] by (simp_all add: unlock_write_def)
  have "holds faults (safe os faults (S - {p}) T)
      (invoke os U p (EvTimeout d) (put_client p (c\<lparr>ack_timeout_signaled := True\<rparr>) w m))" for d w
    using invoke_ok [OF assms(1) put [OF client_inv_update(4) [OF inv]] assms(3), of "EvTimeout d"]
    by simp
  then show ?case
    using assms(2) client_inv_unlocked [OF inv] put [OF inv]
    by (auto simp: lock_write_def un Let_def split: option.splits list.splits prod.splits)
qed

lemma writeable_section_ok:
  assumes "ok" and "safe os faults S T m" and "p \<in> S"
  shows "holds faults (\<lambda>(b, m1). safe os faults S T m1) (writeable_section os U p act m)"
  unfolding writeable_section_def holds_bind
proof (rule safe_get [OF assms(2,3)], goal_cases)
  case (1 c)
  then have inv: "client_inv os c" using safe_client [OF assms(2)] by simp
  let ?c = "c\<lparr>writeMutex := True\<rparr>"
  have un: "unlock_write ?c = c" "\<not> writeMutex c"
    using client_inv_unlocked [OF inv] by (simp_all add: unlock_write_def)
  have sp: "space_inv os ?c" using inv by (simp add: client_inv_defs)
  have "holds faults (\<lambda>(b, m1). safe os faults S T m1)
      (bind_res (process_locked os ?c (world m)) (\<lambda>(activity1, c2, w2).
         bind_res (cleanupWriteQueue os U p (put_client p c2 w2 m)) (\<lambda>m1. Inr (activity1, m1))))"
  proof -
    obtain a q s w2 where
      p: "process_locked os ?c (world m) = Inr (a, ?c\<lparr>writeQueue := q, writeSpaceRemaining := s\<rparr>, w2)"
      and q: "space_inv os (?c\<lparr>writeQueue := q, writeSpaceRemaining := s\<rparr>)"
        "length q = length (writeQueue c)"
      using process_locked_ok [OF platform_okD(1) [OF platform [OF assms(1)]] sp, of "world m"] by auto
    have "link_inv (?c\<lparr>writeQueue := q, writeSpaceRemaining := s\<rparr>)"
      using inv q(2) by (auto simp: client_inv_defs isOpen_def)
    from put_locked [OF assms(2) 1 q(1) this] cleanupWriteQueue_ok [OF assms(1,3)]
    show ?thesis by (simp add: p)
  qed
  with assms(2) safe_put [OF assms(2) 1 inv] un show ?case
    by (simp add: lock_write_def)
qed

lemma sockIsWriteable_ok:
  assumes "ok" and "safe os faults S T m" and "p \<in> S"
  shows "holds faults (\<lambda>(b, m1). safe os faults S T m1) (sockIsWriteable os U p m)"
  unfolding sockIsWriteable_def holds_bind
proof (rule safe_get [OF assms(2,3)], goal_cases)
  case (1 c)
  then have inv: "client_inv os c" using safe_client [OF assms(2)] by simp
  obtain result errno socketError w1 where
    g: "getsockopt_error os (socket c) (world m) = ((result, errno, socketError), w1)"
    by (metis surj_pair)
  obtain now w2 where n: "steady_now os w1 = (now, w2)" by fastforce
  let ?c = "c\<lparr>conn_state := CONNECTED, rx_last_packet := now, ack_timeout_signaled := False\<rparr>"
  have err: "holds faults (\<lambda>(b, m1). safe os faults S T m1)
      (bind_res (error_at os U p code (m\<lparr>world := w1\<rparr>)) (\<lambda>m2. Inr (False, m2)))" for code
    using error_at_ok [OF assms(1), of S T "m\<lparr>world := w1\<rparr>" p code] assms(2,3) by simp
  have "holds faults (\<lambda>(b, m1). safe os faults S T m1)
      (bind_res (invoke os U p EvConnect (put_client p ?c w2 m)) (writeable_section os U p True))"
    if "0 \<le> result"
  proof -
    have "isOpen c"
      using badfd_lawD [OF platform_okD(3) [OF platform [OF assms(1)]]] g that
      by (force simp: isOpen_def)
    then have "client_inv os ?c" using inv by (auto simp: client_inv_defs isOpen_def)
    from invoke_ok [OF assms(1) safe_put [OF assms(2) 1 this] assms(3), of EvConnect w2]
    have "holds faults (safe os faults S T) (invoke os U p EvConnect (put_client p ?c w2 m))"
      by simp
    from holds_mono [OF this writeable_section_ok [OF assms(1) _ assms(3)]] show ?thesis by simp
  qed
  with err writeable_section_ok [OF assms] show ?case by (auto simp: g n Let_def)
qed

lemma sockIsReadable_ok:
  assumes "ok" and "safe os faults S T m" and "p \<in> S"
  shows "holds faults (safe os faults (S - {p}) T) (sockIsReadable os U p m)"
  unfolding sockIsReadable_def holds_bind
proof (rule safe_get [OF assms(2,3)], goal_cases)
  case (1 c)
  then have inv: "client_inv os c" using safe_client [OF assms(2)] by simp
  obtain result errno buf w1 where
    r: "lwip_read os (socket c) (TCP_MSS os) (world m) = ((result, errno, buf), w1)"
    by (metis surj_pair)
  obtain now w2 where n: "steady_now os w1 = (now, w2)" by fastforce
  note put = safe_put [OF assms(2) 1 client_inv_update(2) [OF inv]]
  have weak: "holds faults (safe os faults S T) x \<Longrightarrow> holds faults (safe os faults (S - {p}) T) x" for x
    by (erule holds_mono) (auto intro: safe_subset)
  have w: "safe os faults S T (m\<lparr>world := w1\<rparr>)" using assms(2) by simp
  show ?case
    using invoke_ok [OF assms(1) put assms(3), of "EvRecv (take (nat result) buf)"]
      weak [OF close_at_ok [OF w assms(3)]] weak [OF error_at_ok [OF assms(1) w assms(3)]]
      safe_subset [OF assms(2), of "S - {p}"]
    by (auto simp: r n)
qed

lemma sockDelayedConnect_ok:
  assumes "ok" and "safe os faults S T m" and "p \<in> S"
  shows "holds faults (safe os faults S T) (sockDelayedConnect os U p m)"
  unfolding sockDelayedConnect_def holds_bind
proof (rule safe_get [OF assms(2,3)], goal_cases)
  case (1 c)
  then have inv: "client_inv os c" using safe_client [OF assms(2)] by simp
  have "safe os faults S T (put_client p (fst (snd (connect_ip os ip port c w))) w' m)" for ip port w w'
    by (rule safe_put [OF assms(2) 1]) (rule connect_ip_keeps [OF inv])
  then show ?case
    using error_at_ok [OF assms] by (auto simp: case_prod_unfold Let_def)
qed

lemma poll_idle_ok:
  assumes "ok" and "safe os faults S T m" and "p \<in> S"
  shows "holds faults (safe os faults (S - {p}) T) (poll_idle os U p m)"
  unfolding poll_idle_def holds_bind
proof (rule safe_get [OF assms(2,3)], goal_cases)
  case (1 c)
  then have inv: "client_inv os c" using safe_client [OF assms(2)] by simp
  obtain b c1 w1 where r: "checkRxTimeout os c (world m) = (b, c1, w1)" by (metis surj_pair)
  then have "client_inv os c1" using checkRxTimeout_keeps [OF inv, of "world m"] by simp
  note put = safe_put [OF assms(2) 1 this, of w1]
  have "holds faults (safe os faults (S - {p}) T) (close_at os p (put_client p c1 w1 m))"
    using close_at_ok [OF put assms(3)] by (rule holds_mono) (auto intro: safe_subset)
  then show ?case
    using invoke_ok [OF assms(1) put assms(3), of EvPoll] by (simp add: r Let_def)
qed

lemma poll_timeouts_ok:
  assumes "ok" and "safe os faults S T m" and "p \<in> S"
  shows "holds faults (safe os faults (S - {p}) T) (poll_timeouts os U p m)"
  unfolding poll_timeouts_def holds_bind [where m = "get_client p m"]
proof (rule safe_get [OF assms(2,3)], goal_cases)
  case (1 c)
  have "holds faults (safe os faults (S - {p}) T)
      (bind_res (checkAckTimeout os U p m) (\<lambda>(ack_expired, m1).
         if ack_expired then Inr m1 else poll_idle os U p m1))"
    unfolding holds_bind
    by (rule holds_mono [OF checkAckTimeout_ok [OF assms]])
      (use poll_idle_ok [OF assms(1) _ assms(3)] in auto)
  with safe_subset [OF assms(2), of "S - {p}"] show ?case by auto
qed

lemma sockPoll_ok:
  assumes "ok" and "safe os faults S T m" and "p \<in> S"
  shows "holds faults (safe os faults (S - {p}) T) (sockPoll os U p m)"
  unfolding sockPoll_def holds_bind [where m = "get_client p m"]
proof (rule safe_get [OF assms(2,3)], goal_cases)
  case (1 c)
  then have inv: "client_inv os c" using safe_client [OF assms(2)] by simp
  have "machine_inv os {p} (put_client p (c\<lparr>writeMutex := True\<rparr>) (world m) m) \<and>
      alive faults S T (put_client p (c\<lparr>writeMutex := True\<rparr>) (world m) m)"
    using inv by (intro put_locked [OF assms(2) 1]) (auto simp: client_inv_defs isOpen_def)
  then have "holds faults (safe os faults S T)
      (cleanupWriteQueue os U p (put_client p (c\<lparr>writeMutex := True\<rparr>) (world m) m))"
    using cleanupWriteQueue_ok [OF assms(1,3)] by simp
  from holds_mono [OF this poll_timeouts_ok [OF assms(1) _ assms(3)]]
  show ?case
    using safe_subset [OF assms(2), of "S - {p}"] client_inv_unlocked [OF inv]
    by (auto simp: lock_write_def)
qed

lemma processingDone_ok:
  assumes "ok" and "safe os faults S T m" and "p \<in> S"
  shows "holds faults (safe os faults (S - {p}) T) (processingDone os U p m)"
  unfolding processingDone_def holds_bind
proof (rule safe_get [OF assms(2,3)], goal_cases)
  case (1 c)
  then have inv: "client_inv os c" using safe_client [OF assms(2)] by simp
  show ?case
  proof (cases "conn_state c = DISCONNECTING")
    case True
    then have "client_inv os (c\<lparr>conn_state := DISCONNECTED\<rparr>)"
      using inv by (auto simp: client_inv_defs isOpen_def)
    from invoke_ok [OF assms(1) safe_put [OF assms(2) 1 this] assms(3), of EvDisconnect] True
    show ?thesis by simp
  next
    case False
    with safe_subset [OF assms(2), of "S - {p}"] show ?thesis by auto
  qed
qed

lemma touch_client_ok:
  assumes "safe os faults S T m" and "p \<in> S"
  shows "holds faults (safe os faults S T) (touch_client os p m)"
proof -
  obtain now w1 where n: "steady_now os (world m) = (now, w1)" by fastforce
  have "holds faults (\<lambda>c. safe os faults S T (put_client p (setLastActive now c) w1 m)) (get_client p m)"
  proof (rule safe_get [OF assms])
    fix c assume c: "heap m p = Some c"
    then have "client_inv os (setLastActive now c)"
      using safe_client [OF assms(1) c]
      by (auto simp: client_inv_defs isOpen_def setLastActive_def)
    with assms(1) c show "safe os faults S T (put_client p (setLastActive now c) w1 m)"
      by (rule safe_put)
  qed
  then show ?thesis by (simp add: touch_client_def n)
qed

lemma clear_dns_ok:
  assumes "safe os faults S T m" and "p \<in> S"
  shows "holds faults (safe os faults S T) (clear_dns p m)"
  unfolding clear_dns_def holds_bind
proof (rule safe_get [OF assms], goal_cases)
  case (1 c)
  then have "client_inv os (setDnsFinished False c)"
    using safe_client [OF assms(1) 1]
    by (auto simp: client_inv_defs isOpen_def setDnsFinished_def)
  with assms(1) 1 show ?case by (simp add: safe_put)
qed

section \<open>The server\<close>

lemma put_server_safe:
  "safe os faults S T m \<Longrightarrow> server_heap m p = Some s0 \<Longrightarrow> safe os faults S T (put_server p s w m)"
  by (auto simp: put_server_def safe_def alive_def machine_inv_def heap_inv_def registry_inv_def)

lemma touch_server_ok:
  assumes "safe os faults S T m" and "p \<in> T"
  shows "holds faults (safe os faults S T) (touch_server os p m)"
proof -
  obtain now w1 where n: "steady_now os (world m) = (now, w1)" by fastforce
  have "holds faults (\<lambda>s. safe os faults S T (put_server p (setLastActive now s) w1 m)) (get_server p m)"
    by (rule safe_get_server [OF assms]) (use put_server_safe [OF assms(1)] in auto)
  then show ?thesis by (simp add: touch_server_def n)
qed

lemma server_readable_ok:
  assumes "ok" and "safe os faults S T m" and "p \<in> T"
  shows "holds faults (safe os faults S T) (server_readable os U p m)"
  unfolding server_readable_def holds_bind [where m = "get_server p m"]
proof (rule safe_get_server [OF assms(2,3)], goal_cases)
  case (1 s)
  obtain fd w1 where a: "sys_accept os (socket s) (world m) = (fd, w1)" by fastforce
  let ?m = "m\<lparr>world := w1\<rparr>"
  have m: "machine_inv os {} ?m" using assms(2) by (simp add: safe_def)
  have "holds faults (\<lambda>(client, m2). holds faults (safe os faults S T)
      (bind_res (get_client client m2) (\<lambda>c.
         invoke_accept os U p client (m2\<lparr>world := setNoDelay os (noDelay s) c (world m2)\<rparr>))))
      (new_client os (Some fd) ?m)"
  proof (rule holds_weaken [OF new_client_holds [OF platform_okD(2) [OF platform [OF assms(1)]] m, of "Some fd"]],
      goal_cases)
    case 1
    show ?case using alloc_fault by simp
  next
    case (2 x)
    then obtain client m2 c where x: "x = (client, m2)" and m2: "machine_inv os {} m2"
      "heap m2 = (heap m)(client \<mapsto> c)" "server_heap m2 = server_heap m"
      by auto
    then have "safe os faults S T m2" using assms(2) by (auto simp: safe_def alive_def)
    then show ?case
      using x m2 accept_ok [OF assms(1) _ assms(3)] by (simp add: get_client_def)
  qed
  with assms(2) show ?case by (simp add: a case_prod_unfold Let_def)
qed

end

end
