(* ===== verification/ManagerInvariant.thy ===== *)
theory ManagerInvariant
  imports HandlerInvariant
begin

text \<open>
  The interface between the manager and the connections it manages, the C++ concepts
  \<open>ManagedConnection\<close>, \<open>ManagedClient\<close> and \<open>ManagedServer\<close>, as locales; the phases of the
  worker proved over them; the contract of the handlers as their provider; and the whole round
  of the worker.
\<close>

section \<open>The interfaces\<close>

text \<open>
  \<open>minv S\<close> is the manager's invariant with the connections in \<open>S\<close> alive. An operation ends
  normally or with one of the given faults; after an operation that may run a callback which
  deletes the connection, only the others are known to be alive.
\<close>

locale managed_connection =
  fixes minv :: "ptr set \<Rightarrow> 'm \<Rightarrow> bool"
    and faults :: "fault set"
    and touch :: "ptr \<Rightarrow> 'm \<Rightarrow> 'm res"
  assumes minv_subset: "minv S m \<Longrightarrow> S' \<subseteq> S \<Longrightarrow> minv S' m"
    and touch_ok: "minv S m \<Longrightarrow> p \<in> S \<Longrightarrow> holds faults (minv S) (touch p m)"
begin

lemma weaken_minv: "holds faults (minv S) r \<Longrightarrow> S' \<subseteq> S \<Longrightarrow> holds faults (minv S') r"
  by (erule holds_mono) (rule minv_subset)

lemma for_each_ok:
  assumes "\<And>S p m. minv S m \<Longrightarrow> p \<in> S \<Longrightarrow> holds faults (minv (S - {p})) (f p m)"
  shows "minv (set ps) m \<Longrightarrow> distinct ps \<Longrightarrow> holds faults (minv {}) (for_each f ps m)"
proof (induction ps arbitrary: m)
  case (Cons p ps)
  have "holds faults (minv (set ps)) (f p m)"
    using assms [OF Cons.prems(1), of p] Cons.prems(2) by simp
  from holds_mono [OF this Cons.IH] Cons.prems(2) show ?case by simp
qed simp

lemma visit_then_ok:
  assumes "\<And>S p m. minv S m \<Longrightarrow> p \<in> S \<Longrightarrow> holds faults (minv S) (f p m)"
    and "\<And>S p m. minv S m \<Longrightarrow> p \<in> S \<Longrightarrow> holds faults (minv (S - {p})) (g p m)"
    and "minv S m" and "p \<in> S"
  shows "holds faults (minv (S - {p})) (visit_then f g p m)"
  unfolding visit_then_def holds_bind
  by (rule holds_mono [OF assms(1) [OF assms(3,4)]]) (rule assms(2) [OF _ assms(4)])

end

locale managed_server = managed_connection minv faults touch
  for minv :: "ptr set \<Rightarrow> 'm \<Rightarrow> bool" and faults :: "fault set" and touch :: "ptr \<Rightarrow> 'm \<Rightarrow> 'm res" +
  fixes accept :: "ptr \<Rightarrow> 'm \<Rightarrow> 'm res"
  assumes accept_ok: "minv S m \<Longrightarrow> p \<in> S \<Longrightarrow> holds faults (minv (S - {p})) (accept p m)"
begin

lemmas accept_visits = for_each_ok [OF visit_then_ok [OF touch_ok accept_ok]]

end

locale managed_client = managed_connection minv faults touch
  for minv :: "ptr set \<Rightarrow> 'm \<Rightarrow> bool" and faults :: "fault set" and touch :: "ptr \<Rightarrow> 'm \<Rightarrow> 'm res" +
  fixes writeable :: "ptr \<Rightarrow> 'm \<Rightarrow> (bool \<times> 'm) res"
    and readable :: "ptr \<Rightarrow> 'm \<Rightarrow> 'm res"
    and dns_done :: "ptr \<Rightarrow> 'm \<Rightarrow> 'm res"
    and delayed_connect :: "ptr \<Rightarrow> 'm \<Rightarrow> 'm res"
    and poll :: "ptr \<Rightarrow> 'm \<Rightarrow> 'm res"
    and processing_done :: "ptr \<Rightarrow> 'm \<Rightarrow> 'm res"
  assumes writeable_ok: "minv S m \<Longrightarrow> p \<in> S \<Longrightarrow> holds faults (\<lambda>(a, m1). minv S m1) (writeable p m)"
    and readable_ok: "minv S m \<Longrightarrow> p \<in> S \<Longrightarrow> holds faults (minv (S - {p})) (readable p m)"
    and dns_done_ok: "minv S m \<Longrightarrow> p \<in> S \<Longrightarrow> holds faults (minv S) (dns_done p m)"
    and delayed_connect_ok:
      "minv S m \<Longrightarrow> p \<in> S \<Longrightarrow> holds faults (minv (S - {p})) (delayed_connect p m)"
    and poll_ok: "minv S m \<Longrightarrow> p \<in> S \<Longrightarrow> holds faults (minv (S - {p})) (poll p m)"
    and processing_done_ok:
      "minv S m \<Longrightarrow> p \<in> S \<Longrightarrow> holds faults (minv (S - {p})) (processing_done p m)"
begin

lemma visit_writeable_ok:
  assumes "minv S m" and "p \<in> S"
  shows "holds faults (minv (S - {p})) (visit_writeable writeable touch p m)"
  unfolding visit_writeable_def holds_bind
proof (rule holds_mono [OF writeable_ok [OF assms]], clarify)
  fix a m1 assume m1: "minv S m1"
  show "holds faults (minv (S - {p})) (if a then touch p m1 else Inr m1)"
    using weaken_minv [OF touch_ok [OF m1 assms(2)], of "S - {p}"] minv_subset [OF m1, of "S - {p}"]
    by auto
qed

lemmas write_visits = for_each_ok [OF visit_writeable_ok]
lemmas read_visits = for_each_ok [OF visit_then_ok [OF touch_ok readable_ok]]
lemmas dns_visits = for_each_ok [OF visit_then_ok [OF dns_done_ok delayed_connect_ok]]
lemmas poll_visits = for_each_ok [OF poll_ok]
lemmas done_visits = for_each_ok [OF processing_done_ok]

end

section \<open>The providers\<close>

sublocale app_contract \<subseteq> server: managed_server "\<lambda>T m. ok \<and> safe os faults {} T m" faults
  "touch_server os" "server_readable os U"
proof
  fix T m p
  assume m: "ok \<and> safe os faults {} T m" and p: "p \<in> T"
  have "holds faults (safe os faults {} T) (server_readable os U p m)"
    using server_readable_ok [of "{}" T m p] m p by simp
  with m show "holds faults (\<lambda>m. ok \<and> safe os faults {} (T - {p}) m) (server_readable os U p m)"
    by (auto elim!: holds_mono simp: safe_def alive_def)
next
  fix T m p
  assume m: "ok \<and> safe os faults {} T m" and p: "p \<in> T"
  have "holds faults (safe os faults {} T) (touch_server os p m)"
    using touch_server_ok [of "{}" T m p] m p by simp
  with m show "holds faults (\<lambda>m. ok \<and> safe os faults {} T m) (touch_server os p m)"
    by (auto elim!: holds_mono)
qed (auto simp: safe_def alive_def)

lemma with_ok: "ok \<Longrightarrow> holds E (P S T) r \<Longrightarrow> holds E (\<lambda>m. ok \<and> P S T m) r"
  by (auto elim: holds_mono)

sublocale app_contract \<subseteq> client: managed_client "\<lambda>S m. ok \<and> safe os faults S {} m" faults
  "touch_client os" "sockIsWriteable os U" "sockIsReadable os U" clear_dns
  "sockDelayedConnect os U" "sockPoll os U" "processingDone os U"
proof (unfold_locales, goal_cases)
  case (3 S m p)
  then show ?case using sockIsWriteable_ok [of S "{}" m p] by (auto elim!: holds_mono)
next
  case (6 S m p)
  then have "holds faults (safe os faults S {}) (sockDelayedConnect os U p m)"
    using sockDelayedConnect_ok by simp
  with 6 show ?case by (auto elim!: holds_mono intro: safe_subset)
qed (auto intro: safe_subset intro!: with_ok touch_client_ok clear_dns_ok sockIsReadable_ok
    sockPoll_ok processingDone_ok)

section \<open>Collecting\<close>

lemma iterate_read:
  assumes "\<And>p c a. heap m p = Some c \<Longrightarrow> f p a m = Inr (g p c a, m)"
    and "\<forall>p \<in> set ps. heap m p \<noteq> None"
  shows "iterate f ps a m = Inr (fold (\<lambda>p. g p (the (heap m p))) ps a, m)"
  using assms(2)
proof (induction ps arbitrary: a)
  case (Cons p ps)
  then obtain c where "heap m p = Some c" by auto
  with Cons assms(1) show ?case by simp
qed simp

lemma iterate_read_server:
  assumes "\<And>p s a. server_heap m p = Some s \<Longrightarrow> f p a m = Inr (g p s a, m)"
    and "\<forall>p \<in> set ps. server_heap m p \<noteq> None"
  shows "iterate f ps a m = Inr (fold (\<lambda>p. g p (the (server_heap m p))) ps a, m)"
  using assms(2)
proof (induction ps arbitrary: a)
  case (Cons p ps)
  then obtain s where "server_heap m p = Some s" by auto
  with Cons assms(1) show ?case by simp
qed simp

lemma fold_filter:
  "fold (\<lambda>p qs. if P p then qs @ [p] else qs) ps qs = qs @ filter P ps"
  by (induction ps arbitrary: qs) auto

lemma registry_facts:
  assumes "machine_inv os L m"
  shows "\<not> managerMutex m" and "\<forall>p \<in> set (clients m). heap m p \<noteq> None"
    and "\<forall>p \<in> set (servers m). server_heap m p \<noteq> None"
  using assms by (auto simp: machine_inv_def registry_inv_def)

text \<open>A phase collects exactly the managed clients its test selects, in their order.\<close>

lemma collect_clients_eq:
  assumes "machine_inv os L m"
  shows "collect_clients P m = Inr (filter (\<lambda>p. P (the (heap m p))) (clients m), m)"
proof -
  let ?m = "m\<lparr>managerMutex := True\<rparr>"
  have "iterate (\<lambda>p ps m1. bind_res (get_client p m1) (\<lambda>c. Inr (if P c then ps @ [p] else ps, m1)))
      (clients m) [] ?m =
    Inr (fold (\<lambda>p. (\<lambda>c ps. if P c then ps @ [p] else ps) (the (heap ?m p))) (clients m) [], ?m)"
    by (rule iterate_read) (use registry_facts(2) [OF assms] in \<open>auto simp: get_client_def\<close>)
  then show ?thesis
    using registry_facts(1) [OF assms]
    by (simp add: collect_clients_def iterateClients_def lock_manager_def unlock_manager_def
        fold_filter)
qed

lemma collect_servers_eq:
  assumes "machine_inv os L m"
  shows "collect_servers P m = Inr (filter (\<lambda>p. P (the (server_heap m p))) (servers m), m)"
proof -
  let ?m = "m\<lparr>managerMutex := True\<rparr>"
  have "iterate (\<lambda>p ps m1. bind_res (get_server p m1) (\<lambda>s. Inr (if P s then ps @ [p] else ps, m1)))
      (servers m) [] ?m =
    Inr (fold (\<lambda>p. (\<lambda>s ps. if P s then ps @ [p] else ps) (the (server_heap ?m p))) (servers m) [], ?m)"
    by (rule iterate_read_server) (use registry_facts(3) [OF assms] in \<open>auto simp: get_server_def\<close>)
  then show ?thesis
    using registry_facts(1) [OF assms]
    by (simp add: collect_servers_def iterateServers_def lock_manager_def unlock_manager_def
        fold_filter)
qed


section \<open>Waiting and polling\<close>

definition gather_fds :: "('w, 'ip) os \<Rightarrow> ('w, 'ip) machine \<Rightarrow> fd_sets" where
  "gather_fds os m =
     fold (\<lambda>p (max_sock, rs, ws).
         let fd = socket (the (server_heap m p))
         in if fd \<noteq> -1 \<and> hasFreeSocket os m then (max max_sock (fd + 1), rs @ [fd], ws)
            else (max_sock, rs, ws))
       (servers m)
       (fold (\<lambda>p (max_sock, rs, ws).
           let c = the (heap m p); fd = socket c
           in if fd \<noteq> -1
              then (max max_sock (fd + 1), rs @ [fd], if pendingWrite c then ws @ [fd] else ws)
              else (max_sock, rs, ws))
         (clients m) (0, [], []))"

lemma gather_eq:
  assumes "machine_inv os L m"
  shows "gather os m = Inr (gather_fds os m, m)"
proof -
  let ?m = "m\<lparr>managerMutex := True\<rparr>"
  let ?g = "\<lambda>p c (max_sock, rs, ws).
      let fd = socket c
      in if fd \<noteq> -1
         then (max max_sock (fd + 1), rs @ [fd], if pendingWrite c then ws @ [fd] else ws)
         else (max_sock, rs, ws)"
  let ?h = "\<lambda>p s (max_sock, rs, ws).
      let fd = socket s
      in if fd \<noteq> -1 \<and> hasFreeSocket os ?m then (max max_sock (fd + 1), rs @ [fd], ws)
         else (max_sock, rs, ws)"
  have un: "unlock_manager ?m = m" and lock: "lock_manager m = Inr ?m"
    using registry_facts(1) [OF assms] by (simp_all add: unlock_manager_def lock_manager_def)
  have c: "iterate gather_client (clients m) a ?m =
      Inr (fold (\<lambda>p. ?g p (the (heap ?m p))) (clients m) a, ?m)" for a
    by (rule iterate_read)
      (use registry_facts(2) [OF assms] in \<open>auto simp: gather_client_def get_client_def getSocket_def Let_def\<close>)
  have s: "iterate (gather_server os) (servers m) a ?m =
      Inr (fold (\<lambda>p. ?h p (the (server_heap ?m p))) (servers m) a, ?m)" for a
    by (rule iterate_read_server)
      (use registry_facts(3) [OF assms] in \<open>auto simp: gather_server_def get_server_def getSocket_def Let_def\<close>)
  have free: "hasFreeSocket os ?m = hasFreeSocket os m"
    by (simp add: hasFreeSocket_def split: option.split)
  show ?thesis
    by (simp add: gather_def iterateClients_def iterateServers_def lock c s un gather_fds_def free Let_def
        split del: if_split cong: if_cong)
qed

lemma wait_activity_holds:
  assumes "machine_inv os {} m"
  shows "holds {} (\<lambda>(r, m1). machine_inv os {} m1) (wait_activity os m)"
  using assms by (auto simp: wait_activity_def gather_eq [OF assms] split: prod.splits)

lemma collect_idle_holds:
  assumes "machine_inv os {} m"
  shows "holds {} (\<lambda>(ps, m1). machine_inv os {} m1 \<and> distinct ps \<and> set ps \<subseteq> set (clients m1))
    (iterateClients (collect_idle os) [] m)"
proof -
  let ?I = "\<lambda>m1. managerMutex m1 \<and> machine_inv os {} (m1\<lparr>managerMutex := False\<rparr>) \<and>
      clients m1 = clients m"
  have step: "holds {} (\<lambda>(ps1, m1). ?I m1 \<and> (ps1 = ps \<or> ps1 = ps @ [p])) (collect_idle os p ps m1)"
    if "?I m1" and "p \<in> set (clients m)" for p ps m1
  proof -
    from that registry_facts(2) [of os "{}" "m1\<lparr>managerMutex := False\<rparr>"]
    obtain c where c: "heap m1 p = Some c" by auto
    obtain now w1 where n: "steady_now os (world m1) = (now, w1)" by fastforce
    have "client_inv os (setLastActive now c)"
      using machine_inv_client [OF conjunct1 [OF conjunct2 [OF that(1)]], of p c] c
      by (auto simp: client_inv_defs isOpen_def setLastActive_def)
    with machine_inv_put [OF conjunct1 [OF conjunct2 [OF that(1)]] _ this, of p w1] c that(1)
    show ?thesis
      by (auto simp: collect_idle_def n get_client_def put_client_def machine_inv_def heap_inv_def
          registry_inv_def)
  qed
  have "holds {} (\<lambda>(ps1, m1). ?I m1 \<and> distinct ps1 \<and> set ps1 \<subseteq> set (clients m))
      (iterate (collect_idle os) qs ps m1)"
    if "?I m1" and "set qs \<subseteq> set (clients m)" and "distinct (ps @ qs)"
      and "set ps \<subseteq> set (clients m)" for qs ps m1
    using that
  proof (induction qs arbitrary: ps m1)
    case (Cons q qs)
    have "holds {} (\<lambda>(a1, m2). ?I m2 \<and> (a1 = ps \<or> a1 = ps @ [q])) (collect_idle os q ps m1)"
      by (rule step) (use Cons.prems in auto)
    then show ?case
      using Cons.IH Cons.prems(2,3,4) by (auto elim!: holds_mono simp: case_prod_unfold)
  qed simp
  moreover have "distinct (clients m)" using assms by (simp add: machine_inv_def registry_inv_def)
  moreover have "m\<lparr>managerMutex := False\<rparr> = m" using registry_facts(1) [OF assms] by simp
  ultimately have "holds {} (\<lambda>(ps1, m1). ?I m1 \<and> distinct ps1 \<and> set ps1 \<subseteq> set (clients m))
      (iterate (collect_idle os) (clients m) [] (m\<lparr>managerMutex := True\<rparr>))"
    using assms by simp
  with registry_facts(1) [OF assms] show ?thesis
    by (auto simp: iterateClients_def lock_manager_def unlock_manager_def case_prod_unfold
        elim!: holds_mono)
qed

section \<open>One round of the worker, for every application that keeps the contract\<close>

context app_contract begin

lemma managed_alive:
  assumes "machine_inv os {} m"
  shows "safe os faults (set (filter P (clients m))) {} m"
    and "safe os faults {} (set (filter P (servers m))) m"
    and "distinct (filter P (clients m))" and "distinct (filter P (servers m))"
  using assms registry_facts [OF assms]
  by (auto simp: safe_def alive_def machine_inv_def registry_inv_def)

lemma drop_ok: "holds faults (\<lambda>m. ok \<and> safe os faults {} {} m) r \<Longrightarrow> holds faults (machine_inv os {}) r"
  by (erule holds_mono) (simp add: safe_def)

lemma client_phase:
  assumes "ok" and "machine_inv os {} m"
    and "\<And>ps m1. ok \<and> safe os faults (set ps) {} m1 \<Longrightarrow> distinct ps \<Longrightarrow>
      holds faults (\<lambda>m. ok \<and> safe os faults {} {} m) (for_each f ps m1)"
  shows "holds faults (machine_inv os {})
    (bind_res (collect_clients P m) (\<lambda>(ps, m1). for_each f ps m1))"
  using drop_ok [OF assms(3)] assms(1) managed_alive [OF assms(2)]
  by (simp add: collect_clients_eq [OF assms(2)])

lemma visits_keep:
  assumes "ok" and "machine_inv os {} m"
  shows "holds faults (machine_inv os {}) (write_phase os U ws m)"
    and "holds faults (machine_inv os {}) (read_phase os U rs m)"
    and "holds faults (machine_inv os {}) (accept_phase os U rs m)"
    and "holds faults (machine_inv os {}) (dns_phase os U m)"
    and "holds faults (machine_inv os {}) (done_phase os U m)"
proof -
  note phase = client_phase [OF assms]
  show "holds faults (machine_inv os {}) (write_phase os U ws m)"
    unfolding write_phase_def by (rule phase [OF client.write_visits])
  show "holds faults (machine_inv os {}) (read_phase os U rs m)"
    unfolding read_phase_def by (rule phase [OF client.read_visits])
  show "holds faults (machine_inv os {}) (accept_phase os U rs m)"
    using drop_ok [OF server.accept_visits] assms(1) managed_alive [OF assms(2)]
    by (simp add: accept_phase_def collect_servers_eq [OF assms(2)])
  show "holds faults (machine_inv os {}) (dns_phase os U m)"
    unfolding dns_phase_def by (rule phase [OF client.dns_visits])
  show "holds faults (machine_inv os {}) (done_phase os U m)"
    unfolding done_phase_def by (rule phase [OF client.done_visits])
qed

lemma poll_phase_keeps:
  assumes "ok" and "machine_inv os {} m"
  shows "holds faults (machine_inv os {}) (poll_phase os U m)"
  unfolding poll_phase_def holds_bind
proof (rule holds_weaken [OF collect_idle_holds [OF assms(2)]], goal_cases)
  case (2 x)
  then obtain ps m1 where "x = (ps, m1)" and "machine_inv os {} m1"
    and "distinct ps" and "set ps \<subseteq> set (clients m1)"
    by (cases x) auto
  moreover from this have "safe os faults (set ps) {} m1"
    using registry_facts(2) [of os "{}" m1] by (auto simp: safe_def alive_def)
  ultimately show ?case using assms(1) drop_ok [OF client.poll_visits] by simp
qed simp

lemma update_round_keeps:
  assumes "ok" and "machine_inv os {} m"
  shows "holds faults (machine_inv os {}) (update_round os U m)"
proof -
  note keep = visits_keep [OF assms(1)] poll_phase_keeps [OF assms(1)]
  have phases: "holds faults (machine_inv os {}) (socket_phases os U rs ws m1)"
    if "machine_inv os {} m1" for rs ws m1
    unfolding socket_phases_def holds_bind
    by (intro holds_mono [OF keep(1) [OF that]] holds_mono [OF keep(2)] keep(3)) auto
  have late: "holds faults (machine_inv os {}) (bind_res (dns_phase os U m2) (\<lambda>m3.
      bind_res (poll_phase os U m3) (done_phase os U)))" if "machine_inv os {} m2" for m2
    unfolding holds_bind
    by (intro holds_mono [OF keep(4) [OF that]] holds_mono [OF keep(6)] keep(5)) auto
  have "holds faults (machine_inv os {}) (bind_res
      (if 0 < success then socket_phases os U rs ws m1 else Inr m1) (\<lambda>m2.
      bind_res (dns_phase os U m2) (\<lambda>m3. bind_res (poll_phase os U m3) (done_phase os U))))"
    if "machine_inv os {} m1" for success :: int and rs ws m1
    unfolding holds_bind [where m = "if _ then _ else _"]
    by (rule holds_mono [where P = "machine_inv os {}"]) (use phases [OF that] that late in auto)
  then show ?thesis
    unfolding update_round_def holds_bind [where m = "wait_activity os m"]
    by (intro holds_weaken [OF wait_activity_holds [OF assms(2)]]) auto
qed

lemma update_rounds_keeps:
  "ok \<Longrightarrow> machine_inv os {} m \<Longrightarrow> holds faults (machine_inv os {}) (update_rounds n os U m)"
proof (induction n arbitrary: m)
  case (Suc n)
  show ?case
    using holds_mono [OF update_round_keeps [OF Suc.prems] Suc.IH [OF Suc.prems(1)]] by simp
qed simp

end

end
