(* ===== verification/Applications.thy ===== *)
theory Applications
  imports ManagerInvariant
begin

text \<open>
  Two providers of the contract of theory \<open>HandlerInvariant\<close>: every application whatever, and
  the applications that respect the lifetime rules the code relies on (\<open>polite_app\<close>): a
  callback uses live objects only, and deletes a client only as its last action, on the client
  the event is for, and only for the events after which the code does not touch it.
\<close>

section \<open>Any application\<close>

lemma safe_any: "UseAfterFree \<in> faults \<Longrightarrow> safe os faults S T = machine_inv os {}"
  by (simp add: fun_eq_iff safe_def alive_def)

lemma invoke_accept_holds:
  assumes "platform_ok os" and "machine_inv os {} m"
  shows "holds app_faults (machine_inv os {}) (invoke_accept os U p client m)"
  unfolding invoke_accept_def holds_bind
  by (rule get_server_holds)
    (use run_actions_holds [OF assms(1)] assms(2) in \<open>auto simp: Let_def split: option.splits\<close>)

interpretation any_app: app_contract os U app_faults "platform_ok os"
  for os :: "('w, 'ip) os" and U :: "('w, 'ip) usercode"
  by unfold_locales (simp_all add: safe_any invoke_holds invoke_accept_holds)

section \<open>Applications that respect lifetimes\<close>

fun polite_action :: "('w, 'ip) machine \<Rightarrow> 'ip action \<Rightarrow> bool" where
  "polite_action m (Api p op) = (heap m p \<noteq> None)"
| "polite_action m (New ops) = True"
| "polite_action m (Delete p) = False"
| "polite_action m (ServerBegin p) = (server_heap m p \<noteq> None)"
| "polite_action m (ServerEnd p) = (server_heap m p \<noteq> None)"
| "polite_action m (ServerOnClient p h a) = (server_heap m p \<noteq> None)"
| "polite_action m (ServerSetNoDelay p b) = (server_heap m p \<noteq> None)"

text \<open>The last action may delete the client the event is for, where the event allows it.\<close>

fun polite_actions :: "bool \<Rightarrow> ptr \<Rightarrow> ('w, 'ip) machine \<Rightarrow> 'ip action list \<Rightarrow> bool" where
  "polite_actions del p m [] = True"
| "polite_actions del p m (a # as) =
     (polite_action m a \<and> polite_actions del p m as \<or> del \<and> a = Delete p \<and> as = [])"

definition polite_app :: "('w, 'ip) usercode \<Rightarrow> bool" where
  "polite_app U \<longleftrightarrow>
     (\<forall>h arg p ev m. heap m p \<noteq> None \<longrightarrow> polite_actions (may_delete ev) p m (U h arg p ev m)) \<and>
     (\<forall>h arg p q m. server_heap m p \<noteq> None \<longrightarrow>
        polite_actions False p m (U h arg p (EvAccept q) m))"

text \<open>No object alive before is gone.\<close>

definition grows :: "('w, 'ip) machine \<Rightarrow> ('w, 'ip) machine \<Rightarrow> bool" where
  "grows m m1 \<longleftrightarrow>
     (\<forall>p. heap m1 p = None \<longrightarrow> heap m p = None) \<and>
     (\<forall>p. server_heap m1 p = None \<longrightarrow> server_heap m p = None)"

lemma growsD:
  "grows m m1 \<Longrightarrow> heap m p = Some c \<Longrightarrow> \<exists>c1. heap m1 p = Some c1"
  "grows m m1 \<Longrightarrow> server_heap m p = Some s \<Longrightarrow> \<exists>s1. server_heap m1 p = Some s1"
  by (cases "heap m1 p"; cases "server_heap m1 p"; simp add: grows_def)+

lemma grows_refl [simp]: "grows m m"
  by (simp add: grows_def)

lemma grows_trans: "grows m m1 \<Longrightarrow> grows m1 m2 \<Longrightarrow> grows m m2"
  by (auto simp: grows_def)

lemma grows_put [simp]:
  "grows m (put_client p c w m)" "grows m (put_server p s w m)"
  by (auto simp: grows_def put_client_def put_server_def)

lemma polite_action_grows: "polite_action m a \<Longrightarrow> grows m m1 \<Longrightarrow> polite_action m1 a"
  by (cases a) (auto dest: growsD)

lemma polite_actions_grows: "polite_actions d p m as \<Longrightarrow> grows m m1 \<Longrightarrow> polite_actions d p m1 as"
  by (induction as) (auto dest: polite_action_grows)

abbreviation polite_faults :: "fault set" where
  "polite_faults \<equiv> {Hang, BadAlloc}"

lemma call_api_polite:
  assumes "write_sound os" and "machine_inv os {} m" and "heap m p \<noteq> None"
  shows "holds polite_faults (\<lambda>m1. machine_inv os {} m1 \<and> grows m m1) (call_api os p op m)"
proof -
  from assms(3) obtain c where c: "heap m p = Some c" by auto
  then have "client_inv os c" using assms(2) by (auto dest: machine_inv_client)
  from run_api_keeps [OF assms(1) this, of p op "world m"]
  have "holds polite_faults (\<lambda>(c', w'). machine_inv os {} (put_client p c' w' m)) (run_api os p op c (world m))"
    using machine_inv_put [OF assms(2), of p] c by (auto elim!: holds_weaken)
  then show ?thesis
    by (auto simp: call_api_def get_client_def c case_prod_unfold elim!: holds_mono)
qed

lemma call_apis_polite:
  assumes "write_sound os" and "heap m0 p \<noteq> None"
  shows "machine_inv os {} m \<and> grows m0 m \<Longrightarrow>
    holds polite_faults (\<lambda>m1. machine_inv os {} m1 \<and> grows m0 m1) (call_apis os p ops m)"
proof (induction ops arbitrary: m)
  case (Cons op ops)
  with assms(2) have m: "machine_inv os {} m" "heap m p \<noteq> None" by (auto dest: growsD)
  have "holds polite_faults (\<lambda>m1. machine_inv os {} m1 \<and> grows m0 m1) (call_api os p op m)"
    by (rule holds_mono [OF call_api_polite [OF assms(1) m]]) (use Cons.prems grows_trans in blast)
  from holds_mono [OF this Cons.IH] show ?case by simp
qed simp

lemma on_server_polite:
  assumes "machine_inv os {} m" and "server_heap m p \<noteq> None"
  shows "holds polite_faults (\<lambda>m1. machine_inv os {} m1 \<and> grows m m1) (on_server p f m)"
proof -
  from assms(2) obtain s where s: "server_heap m p = Some s" by auto
  with on_server_holds [OF assms(1), of p f] show ?thesis
    by (auto simp: on_server_def get_server_def split: prod.splits)
qed

lemma polite_action_holds:
  assumes "platform_ok os" and "machine_inv os {} m" and "polite_action m a"
  shows "holds polite_faults (\<lambda>m1. machine_inv os {} m1 \<and> grows m m1) (run_action os a m)"
proof (cases a)
  case (Api p op)
  then show ?thesis using call_api_polite [OF platform_okD(1) [OF assms(1)] assms(2)] assms(3) by simp
next
  case (New ops)
  have "holds polite_faults (\<lambda>(p, m1). holds polite_faults
      (\<lambda>m2. machine_inv os {} m2 \<and> grows m m2) (call_apis os p ops m1)) (new_client os None m)"
  proof (rule holds_weaken [OF new_client_holds [OF platform_okD(2) [OF assms(1)] assms(2)]], simp,
      clarify)
    fix p m1 c
    assume m1: "machine_inv os {} m1" "heap m1 = (heap m)(p \<mapsto> c)" "server_heap m1 = server_heap m"
    then have "grows m m1" by (auto simp: grows_def)
    have "holds polite_faults (\<lambda>m2. machine_inv os {} m2 \<and> grows m1 m2) (call_apis os p ops m1)"
      by (rule call_apis_polite [OF platform_okD(1) [OF assms(1)]]) (use m1 in simp_all)
    then show "holds polite_faults (\<lambda>m2. machine_inv os {} m2 \<and> grows m m2) (call_apis os p ops m1)"
      by (rule holds_mono) (use \<open>grows m m1\<close> grows_trans in blast)
  qed
  with New show ?thesis by (simp add: case_prod_unfold)
qed (use on_server_polite [OF assms(2)] assms(3) in auto)

lemma safe_grows: "alive F S T m \<Longrightarrow> machine_inv os {} m1 \<Longrightarrow> grows m m1 \<Longrightarrow> safe os F S T m1"
  by (auto simp: safe_def alive_def dest: growsD)

lemma polite_run:
  assumes "platform_ok os" and "p \<in> S \<or> \<not> d"
  shows "safe os polite_faults S T m \<Longrightarrow> polite_actions d p m as \<Longrightarrow>
    holds polite_faults (safe os polite_faults (if d then S - {p} else S) T) (run_actions os as m)"
proof (induction as arbitrary: m)
  case Nil
  then show ?case by (auto intro: safe_subset)
next
  case (Cons a as)
  then have inv: "machine_inv os {} m" and alive: "alive polite_faults S T m"
    by (simp_all add: safe_def)
  from Cons.prems(2) have "polite_action m a \<and> polite_actions d p m as \<or> d \<and> a = Delete p \<and> as = []"
    by simp
  then show ?case
  proof
    assume a: "polite_action m a \<and> polite_actions d p m as"
    have "holds polite_faults (safe os polite_faults (if d then S - {p} else S) T) (run_actions os as m1)"
      if "machine_inv os {} m1 \<and> grows m m1" for m1
      using Cons.IH [of m1] safe_grows [OF alive] polite_actions_grows that a by blast
    from holds_mono [OF polite_action_holds [OF assms(1) inv conjunct1 [OF a]] this]
    show ?thesis by simp
  next
    assume a: "d \<and> a = Delete p \<and> as = []"
    with assms(2) alive have "heap m p \<noteq> None" by (auto simp: alive_def)
    from delete_client_live [OF inv this] alive a show ?thesis
      by (auto simp: safe_def alive_def split: if_splits elim!: holds_weaken)
  qed
qed

lemma invoke_polite:
  assumes "platform_ok os" and "polite_app U" and "safe os polite_faults S T m" and "p \<in> S"
  shows "holds polite_faults (safe os polite_faults (survivors S p ev) T) (invoke os U p ev m)"
  unfolding invoke_def holds_bind
proof (rule safe_get [OF assms(3,4)], goal_cases)
  case (1 c)
  have "polite_actions (may_delete ev) p (m\<lparr>trace := t\<rparr>) (U h arg p ev (m\<lparr>trace := t\<rparr>))" for h arg t
    using assms(2) 1 by (simp add: polite_app_def)
  moreover have "safe os polite_faults S T (m\<lparr>trace := t\<rparr>)" for t
    using assms(3) by (simp add: safe_def alive_def)
  ultimately show ?case
    using polite_run [OF assms(1), of p S "may_delete ev" T] assms(3,4)
    by (auto simp: Let_def survivors_def intro: safe_subset split: option.splits)
qed

lemma invoke_accept_polite:
  assumes "platform_ok os" and "polite_app U" and "safe os polite_faults S T m" and "p \<in> T"
  shows "holds polite_faults (safe os polite_faults S T) (invoke_accept os U p q m)"
  unfolding invoke_accept_def holds_bind
proof (rule safe_get_server [OF assms(3,4)], goal_cases)
  case (1 s)
  have "polite_actions False p (m\<lparr>trace := t\<rparr>) (U h arg p (EvAccept q) (m\<lparr>trace := t\<rparr>))" for h arg t
    using assms(2) 1 by (simp add: polite_app_def)
  moreover have "safe os polite_faults S T (m\<lparr>trace := t\<rparr>)" for t
    using assms(3) by (simp add: safe_def alive_def)
  ultimately show ?case
    using polite_run [OF assms(1), of p S False T] assms(3)
    by (auto simp: Let_def split: option.splits)
qed

interpretation polite: app_contract os U polite_faults "platform_ok os \<and> polite_app U"
  for os :: "('w, 'ip) os" and U :: "('w, 'ip) usercode"
  by unfold_locales (auto intro!: invoke_polite invoke_accept_polite)

end
