(* ===== verification/System.thy ===== *)
theory System
  imports Applications Sample
begin

text \<open>
  The system as a transition relation: the program starts with no connections; from then on
  the application's own thread performs actions, creates and deletes servers, and lwIP's
  thread delivers the results of name resolutions, in between the rounds of the worker task.
  The interleaving is per action and per round: what the mutexes protect inside one is stated
  by the theorems on single operations.
\<close>

definition start_machine :: "'w \<Rightarrow> ('w, 'ip) machine" where
  "start_machine w =
     \<lparr>heap = (\<lambda>_. None), server_heap = (\<lambda>_. None), managerMutex = False, clients = [],
      servers = [], trace = [], world = w\<rparr>"

text \<open>\<open>dnsFoundCallback\<close> on the client at \<open>p\<close>.\<close>

definition dns_found ::
  "('w, 'ip) os \<Rightarrow> ptr \<Rightarrow> 'ip option \<Rightarrow> ('w, 'ip) machine \<Rightarrow> ('w, 'ip) machine res"
where
  "dns_found os p ip m =
     bind_res (get_client p m) (\<lambda>c. Inr (put_client p (dnsFoundCallback os ip c) (world m) m))"

inductive system_step ::
  "('w, 'ip) os \<Rightarrow> ('w, 'ip) usercode \<Rightarrow> ('w, 'ip) machine \<Rightarrow> ('w, 'ip) machine res \<Rightarrow> bool"
  for os :: "('w, 'ip) os" and U :: "('w, 'ip) usercode"
where
  step_action: "system_step os U m (run_action os a m)"
| step_new_server: "system_step os U m (bind_res (new_server os addr port m) (\<lambda>(p, m1). Inr m1))"
| step_delete_server: "system_step os U m (delete_server os p m)"
| step_dns: "system_step os U m (dns_found os p ip m)"
| step_round: "system_step os U m (update_round os U m)"

inductive_cases system_stepE: "system_step os U m r"

inductive reachable ::
  "('w, 'ip) os \<Rightarrow> ('w, 'ip) usercode \<Rightarrow> ('w, 'ip) machine \<Rightarrow> bool"
  for os :: "('w, 'ip) os" and U :: "('w, 'ip) usercode"
where
  reachable_start: "reachable os U (start_machine w)"
| reachable_step: "reachable os U m \<Longrightarrow> system_step os U m (Inr m1) \<Longrightarrow> reachable os U m1"

section \<open>Invariance\<close>

lemma start_inv: "machine_inv os {} (start_machine w)"
  by (simp add: start_machine_def machine_inv_def heap_inv_def registry_inv_def)

lemma dns_found_holds:
  assumes "machine_inv os {} m"
  shows "holds app_faults (machine_inv os {}) (dns_found os p ip m)"
  unfolding dns_found_def holds_bind
proof (rule get_client_holds)
  fix c assume c: "heap m p = Some c"
  then have "client_inv os c" using assms by (auto dest: machine_inv_client)
  then have "client_inv os (dnsFoundCallback os ip c)"
    by (auto simp: client_inv_defs dnsFoundCallback_def setDnsFinished_def isOpen_def)
  with machine_inv_put [OF assms, of p "dnsFoundCallback os ip c"] c
  show "holds app_faults (machine_inv os {})
      (Inr (put_client p (dnsFoundCallback os ip c) (world m) m))" by simp
qed simp

lemma system_step_holds:
  assumes "platform_ok os" and "machine_inv os {} m" and "system_step os U m r"
  shows "holds app_faults (machine_inv os {}) r"
  using assms(3)
proof (rule system_stepE)
  fix a assume "r = run_action os a m"
  then show ?thesis using run_action_holds [OF assms(1,2)] by simp
next
  fix addr port
  assume r: "r = bind_res (new_server os addr port m) (\<lambda>(p, m1). Inr m1)"
  have "holds app_faults (\<lambda>(p, m1). machine_inv os {} m1) (new_server os addr port m)"
    using new_server_holds [OF platform_okD(2) [OF assms(1)] assms(2)] by (rule holds_weaken) auto
  then show ?thesis by (simp add: r case_prod_unfold)
next
  fix p assume "r = delete_server os p m"
  then show ?thesis using delete_server_holds [OF assms(2), of p] by (auto elim: holds_weaken)
next
  fix p ip assume "r = dns_found os p ip m"
  then show ?thesis using dns_found_holds [OF assms(2)] by simp
next
  assume "r = update_round os U m"
  then show ?thesis using any_app.update_round_keeps [OF assms(1,2)] by simp
qed

lemma reachable_inv: "reachable os U m \<Longrightarrow> platform_ok os \<Longrightarrow> machine_inv os {} m"
proof (induction rule: reachable.induct)
  case (reachable_step m m1)
  from system_step_holds [OF reachable_step(4) reachable_step(3) [OF reachable_step(4)] reachable_step(2)]
  show ?case by simp
qed (rule start_inv)

section \<open>Sample runs\<close>

lemma sample_platform_ok: "platform_ok (sample_os steady)"
  by (simp add: platform_ok_def sample_write_sound sample_new_law sample_badfd_law)

text \<open>One client, connecting to port 80, with a handler for one event (or none).\<close>

definition sample_machine :: "(ClientCallbackType \<times> handler) list \<Rightarrow> (sample_world, u32) machine" where
  "sample_machine hs =
     (case run_action (sample_os True)
         (New (map (\<lambda>(t, h). SetHandler t (Some h) 0) hs @ [ConnectIp 7 80]))
         (start_machine (sample_start [])) of
        Inr m \<Rightarrow> m
      | Inl e \<Rightarrow> start_machine (sample_start []))"

lemma sample_machine_reachable: "reachable (sample_os True) U (sample_machine hs)"
proof -
  let ?r = "run_action (sample_os True)
      (New (map (\<lambda>(t, h). SetHandler t (Some h) 0) hs @ [ConnectIp 7 80]))
      (start_machine (sample_start []))"
  show ?thesis
  proof (cases ?r)
    case (Inl e)
    then show ?thesis by (simp add: sample_machine_def reachable_start)
  next
    case (Inr m)
    have "system_step (sample_os True) U (start_machine (sample_start [])) (Inr m)"
      by (simp only: Inr [symmetric] step_action)
    from reachable_step [OF reachable_start this] Inr show ?thesis by (simp add: sample_machine_def)
  qed
qed

end
