(* ===== verification/ClientProperties.thy ===== *)
theory ClientProperties
  imports MachineInvariant Sample
begin

text \<open>
  What the calls of the client API promise to the application: the accounting of the send
  buffer, what \<open>add\<close>, \<open>write\<close>, \<open>connect\<close> and \<open>close\<close> do on every branch, the connection state
  as an automaton, and the places where the code does less than it says.
\<close>

section \<open>A sample client\<close>

definition sample_client :: "bool \<Rightarrow> ConnectionState \<Rightarrow> int \<Rightarrow> u32 ClientBase" where
  "sample_client steady st fd =
     (fst (ClientBase_new (sample_os steady) (sample_start [])))\<lparr>socket := fd, conn_state := st\<rparr>"

lemma sample_client_simps [simp]:
  "conn_state (sample_client steady st fd) = st" "socket (sample_client steady st fd) = fd"
  "writeMutex (sample_client steady st fd) = False" "writeQueue (sample_client steady st fd) = []"
  "writeSpaceRemaining (sample_client steady st fd) = 5760"
  "ack_timeout_signaled (sample_client steady st fd) = False"
  "rx_timeout (sample_client steady st fd) = None"
  by (simp_all add: sample_client_def ClientBase_new_def SocketConnection_init_def
      ClientBase_fields_def INITIAL_WRITE_SPACE_def sample_os_def)

lemma sample_client_inv: "client_inv (sample_os steady) (sample_client steady CONNECTED 50)"
  by (simp add: client_inv_defs INITIAL_WRITE_SPACE_def sample_os_def isOpen_def)

lemma prepared_cases: "map_option fst (fst r) = Some n \<Longrightarrow> \<exists>b w'. r = (Some (n, b), w')"
  by (cases r) auto

section \<open>Accounting\<close>

text \<open>
  C18: whatever call the application makes on a client, it never deadlocks, releases the write
  mutex, and keeps the accounting of the send buffer: the free space and the bytes still
  queued add up to \<open>TCP_SND_BUF\<close>, and a client that has bytes queued has a socket.
\<close>

theorem api_keeps_account:
  assumes "write_sound os" and "client_inv os c"
  shows "run_api os self op c w \<noteq> Inl Deadlock \<and>
    (\<forall>c' w'. run_api os self op c w = Inr (c', w') \<longrightarrow>
       \<not> writeMutex c' \<and> (writeQueue c' = [] \<or> isOpen c') \<and>
       unat (writeSpaceRemaining c') + queue_bytes (writeQueue c') = unat (TCP_SND_BUF os))"
proof -
  have "run_api os self op c w \<noteq> Inl Deadlock"
    using run_api_keeps [OF assms, of self op w] by auto
  moreover have "client_inv os c'" if "run_api os self op c w = Inr (c', w')" for c' w'
    using run_api_keeps [OF assms, of self op w] that by simp
  ultimately show ?thesis by (auto simp: client_inv_defs INITIAL_WRITE_SPACE_def)
qed

theorem api_keeps_account_witness:
  "\<exists>c' w'. run_api (sample_os True) 4096 (Write 100 3 (flags_of IMMEDIATE))
      (sample_client True CONNECTED 50) (sample_start [2]) = Inr (c', w') \<and>
    unat (writeSpaceRemaining c') + queue_bytes (writeQueue c') = 5760"
proof -
  let ?r = "run_api (sample_os True) 4096 (Write 100 3 (flags_of IMMEDIATE))
      (sample_client True CONNECTED 50) (sample_start [2])"
  have "case ?r of Inr (c', w') \<Rightarrow> writeSpaceRemaining c' = 5759 | Inl e \<Rightarrow> False" by code_simp
  then obtain c' w' where r: "?r = Inr (c', w')" by (auto split: sum.splits)
  with api_keeps_account [OF sample_write_sound sample_client_inv, of True 4096
      "Write 100 3 (flags_of IMMEDIATE)" "sample_start [2]"]
  show ?thesis by (auto simp: sample_os_def)
qed

section \<open>Queueing\<close>

lemma add_closed_form:
  assumes "client_inv os c"
  shows "\<exists>n c' w'. add os data sz flags c w = Inr (n, c', w') \<and>
    n = (if connected c \<and> data \<noteq> 0 then min (writeSpaceRemaining c) sz else 0) \<and>
    (if n = 0 then c' = c
     else \<exists>b. c' = c\<lparr>writeQueue := writeQueue c @ [b],
                     writeSpaceRemaining := writeSpaceRemaining c - n,
                     ack_timeout_signaled := False\<rparr> \<and>
            pending_bytes (mem os w') b = read_mem (mem os w') data n \<and>
            remaining b = unat n \<and> n \<le> writeSpaceRemaining c)"
proof (cases "add_prepare os data sz flags c w")
  case (Pair r w')
  show ?thesis
  proof (cases r)
    case None
    with Pair have "add os data sz flags c w = Inr (0, c, w')" by (simp add: add_def)
    moreover from None Pair have "connected c \<Longrightarrow> data \<noteq> 0 \<Longrightarrow> min (writeSpaceRemaining c) sz = 0"
      by (auto simp: add_prepare_def space_def Let_def split: prod.splits if_splits)
    ultimately show ?thesis by auto
  next
    case (Some p)
    obtain n b where "p = (n, b)" by fastforce
    with Some Pair have prep: "add_prepare os data sz flags c w = (Some (n, b), w')" by simp
    note p = add_prepare_Some [OF prep]
    then have "add os data sz flags c w = Inr (n, c\<lparr>writeQueue := writeQueue c @ [b],
        writeSpaceRemaining := writeSpaceRemaining c - n, ack_timeout_signaled := False\<rparr>, w')"
      using prep by (simp add: add_def add_commit_eq client_inv_unlocked [OF assms])
    with p show ?thesis by auto
  qed
qed

text \<open>
  C23: \<open>add\<close> on every branch. On a client that is not connected, with no data or with no free
  space, it returns 0 and changes nothing. Otherwise it appends one entry that stands for the
  first \<open>min space size\<close> bytes at \<open>data\<close>, takes as much off the free space, re-arms the ACK
  timeout, and returns that number.
\<close>

theorem add_outcome:
  assumes "client_inv os c"
  shows "\<exists>n c' w'. add os data sz flags c w = Inr (n, c', w') \<and>
    n = (if connected c \<and> data \<noteq> 0 then min (writeSpaceRemaining c) sz else 0) \<and>
    (if n = 0 then c' = c
     else \<exists>b. c' = c\<lparr>writeQueue := writeQueue c @ [b],
                     writeSpaceRemaining := writeSpaceRemaining c - n,
                     ack_timeout_signaled := False\<rparr> \<and>
            pending_bytes (mem os w') b = read_mem (mem os w') data n \<and>
            remaining b = unat n \<and> n \<le> writeSpaceRemaining c)"
  by (rule add_closed_form [OF assms])

theorem add_outcome_witness:
  "\<exists>c' w'. add (sample_os True) 100 3 (flags_of COPY) (sample_client True CONNECTED 50)
      (sample_start []) = Inr (3, c', w') \<and> map remaining (writeQueue c') = [3]"
proof -
  have "min (5760 :: size_t) 3 = 3" by (simp add: min_def)
  with add_outcome [OF sample_client_inv, of True 100 3 "flags_of COPY" "sample_start []"]
  show ?thesis by (auto simp: connected_def)
qed

lemma add_outcome_queued:
  assumes "client_inv os c"
  shows "\<exists>n c' w'. add os data sz flags c w = Inr (n, c', w') \<and> client_inv os c' \<and>
    n = (if connected c \<and> data \<noteq> 0 then min (writeSpaceRemaining c) sz else 0) \<and>
    conn_state c' = conn_state c \<and> socket c' = socket c \<and>
    (n \<noteq> 0 \<longrightarrow> (\<exists>b. writeQueue c' = writeQueue c @ [b] \<and> remaining b = unat n)) \<and>
    queue_bytes (writeQueue c') = queue_bytes (writeQueue c) + unat n"
proof -
  from add_closed_form [OF assms, of data sz flags w] add_keeps [OF assms, of data sz flags w]
  show ?thesis by (auto simp: connected_def split: if_splits)
qed

text \<open>
  A copied entry is a snapshot, a borrowed one an alias: whatever the application writes to
  its memory after \<open>add\<close> with \<open>COPY\<close>, the bytes sent are those it had then; without \<open>COPY\<close> the
  entry stands for what the memory holds when it is sent.
\<close>

lemma add_copy_or_alias:
  assumes "add_prepare os data sz flags c w = (Some (n, b), w')"
  shows "pending_bytes later b =
    read_mem (if flags_test flags COPY then mem os w' else later) data n"
proof -
  have n: "n \<noteq> 0" by (rule add_prepare_Some(4) [OF assms])
  from assms obtain k where k: "amountWritten k = 0" and
    "b = (if flags_test flags COPY then OwnedWriteQueueBuffer k (read_mem (mem os w') data n)
          else BorrowedWriteQueueBuffer k data n)"
    by (fastforce simp: add_prepare_def Let_def split: prod.splits if_splits)
  then have b: "b = (if flags_test flags COPY then OwnedWriteQueueBuffer k (read_mem (mem os w') data n)
      else BorrowedWriteQueueBuffer k (data) n)" by simp
  show ?thesis
  proof (cases "flags_test flags COPY")
    case True
    then show ?thesis
      using new_buffer_ok(4) [OF n _ k, of b True "mem os w'" data later] b k n
      by (auto simp: pending_bytes_def isFullyWritten_def word_le_nat_alt unat_eq_0)
  next
    case False
    then show ?thesis
      using new_buffer_ok(4) [OF n _ k, of b False later data later] b by simp
  qed
qed

lemma add_copy_or_alias_example:
  "\<exists>n b w'. add_prepare (sample_os True) 100 2 (flags_of IMMEDIATE)
      (sample_client True CONNECTED 50) (sample_start []) = (Some (n, b), w') \<and>
    pending_bytes (\<lambda>p. 7) b = [7, 7]"
proof -
  let ?r = "add_prepare (sample_os True) 100 2 (flags_of IMMEDIATE)
      (sample_client True CONNECTED 50) (sample_start [])"
  have "map_option fst (fst ?r) = Some 2" by code_simp
  then obtain b w' where r: "?r = (Some (2, b), w')" by (cases ?r) auto
  have "\<not> flags_test (flags_of IMMEDIATE) COPY" by code_simp
  moreover have "read_mem (\<lambda>p. 7) 100 2 = [7, 7 :: byte]" by code_simp
  ultimately have "pending_bytes (\<lambda>p. 7) b = [7, 7]"
    using add_copy_or_alias [OF r, of "\<lambda>p. 7"] by simp
  with r show ?thesis by blast
qed

text \<open>
  \<open>add\<close> reads the free space before it takes the mutex. When two threads both pass the
  check before either updates the queue, the second update takes the same space again: the
  counter wraps around to more than the whole buffer.
\<close>

lemma add_race_overcommits:
  assumes "client_inv os c"
    and "add_prepare os data sz flags c w = (Some (n, b), w1)"
    and "add_prepare os data2 sz2 flags2 c w1 = (Some (n2, b2), w2)"
    and "unat (writeSpaceRemaining c) < unat n + unat n2"
  shows "\<exists>c1 c2. add_commit n b c = Inr c1 \<and> add_commit n2 b2 c1 = Inr c2 \<and>
    unat (writeSpaceRemaining c2) = 2 ^ 32 + unat (writeSpaceRemaining c) - (unat n + unat n2)"
proof -
  note p = add_prepare_Some(5) [OF assms(2)] and p2 = add_prepare_Some(5) [OF assms(3)]
  let ?s = "writeSpaceRemaining c"
  have lt: "unat n2 < 2 ^ LENGTH(32)" "unat ?s < 2 ^ LENGTH(32)" by (rule unsigned_less)+
  from p have s1: "unat (?s - n) = unat ?s - unat n" by (rule unat_minus_le)
  with assms(4) p have "unat (?s - n) < unat n2" by (simp add: word_le_nat_alt)
  then have "unat (?s - n - n2) = 2 ^ 32 + unat (?s - n) - unat n2"
    using lt by (simp add: unat_sub_if_size size_word.rep_eq)
  then have "unat (?s - n - n2) = 2 ^ 32 + unat ?s - (unat n + unat n2)"
    using s1 p by (simp add: word_le_nat_alt)
  then show ?thesis
    using client_inv_unlocked [OF assms(1)] by (simp add: add_commit_eq)
qed

lemma add_race_overcommits_example:
  "\<exists>n b w1 n2 b2 w2 c1 c2. let c = sample_client True CONNECTED 50 in
    add_prepare (sample_os True) 100 4000 (flags_of IMMEDIATE) c (sample_start []) = (Some (n, b), w1) \<and>
    add_prepare (sample_os True) 100 4000 (flags_of IMMEDIATE) c w1 = (Some (n2, b2), w2) \<and>
    add_commit n b c = Inr c1 \<and> add_commit n2 b2 c1 = Inr c2 \<and>
    unat (writeSpaceRemaining c2) = 4294965056"
proof -
  let ?c = "sample_client True CONNECTED 50"
  let ?p = "add_prepare (sample_os True) 100 4000 (flags_of IMMEDIATE) ?c"
  have "map_option fst (fst (?p w)) = Some 4000" for w
    by (simp add: add_prepare_def connected_def space_def Let_def flags_test_def flags_of_def
        sample_os_def min_def)
  then obtain b w1 b2 w2 where r: "?p (sample_start []) = (Some (4000, b), w1)"
    "?p w1 = (Some (4000, b2), w2)"
    using prepared_cases [of "?p (sample_start [])"] prepared_cases [of "?p _"] by blast
  from add_race_overcommits [OF sample_client_inv r] obtain c1 c2 where
    "add_commit 4000 b ?c = Inr c1" "add_commit 4000 b2 c1 = Inr c2"
    "unat (writeSpaceRemaining c2) = 4294965056"
    by auto
  with r show ?thesis unfolding Let_def by blast
qed

section \<open>Writing\<close>

text \<open>
  \<open>write\<close> returns 0, or the number of bytes it queued; it never queues more than that. With
  \<open>IMMEDIATE\<close> a result other than 0 means that at least one queued byte went out.
\<close>

lemma write_outcome:
  assumes "write_sound os" and "client_inv os c"
  shows "\<exists>n c' w'. write_bytes os data sz flags c w = Inr (n, c', w') \<and>
    (n = 0 \<or> connected c \<and> n = min (writeSpaceRemaining c) sz) \<and>
    (n \<noteq> 0 \<longrightarrow> queue_bytes (writeQueue c') \<le> queue_bytes (writeQueue c) + unat n) \<and>
    (n \<noteq> 0 \<and> flags_test flags IMMEDIATE \<longrightarrow>
       queue_bytes (writeQueue c') < queue_bytes (writeQueue c) + unat n)"
proof -
  from add_outcome_queued [OF assms(2), of data sz flags w] obtain n c1 w1 where
    a: "add os data sz flags c w = Inr (n, c1, w1)" "client_inv os c1"
    and n: "n = 0 \<or> connected c \<and> n = min (writeSpaceRemaining c) sz"
    and q: "queue_bytes (writeQueue c1) = queue_bytes (writeQueue c) + unat n"
    by metis
  show ?thesis
  proof (rule send_cases [OF assms(1) a(2), of w1])
    fix w' assume "send os c1 w1 = Inr (False, c1, w')"
    with a n q show ?thesis by (auto simp: write_bytes_def)
  next
    fix act q' s w' assume "send os c1 w1 = Inr (act, c1\<lparr>writeQueue := q', writeSpaceRemaining := s\<rparr>, w')"
      and "act \<longleftrightarrow> queue_bytes q' < queue_bytes (writeQueue c1)"
      and "queue_bytes q' \<le> queue_bytes (writeQueue c1)"
    with a n q show ?thesis by (cases act) (auto simp: write_bytes_def)
  qed
qed

lemma write_outcome_example:
  "\<exists>c' w'. write_bytes (sample_os True) 100 3 (flags_of IMMEDIATE)
      (sample_client True CONNECTED 50) (sample_start [2]) = Inr (3, c', w') \<and>
    queue_bytes (writeQueue c') < 3"
proof -
  let ?r = "write_bytes (sample_os True) 100 3 (flags_of IMMEDIATE)
      (sample_client True CONNECTED 50) (sample_start [2])"
  have "case ?r of Inr (n, c', w') \<Rightarrow> n = 3 | Inl e \<Rightarrow> False" by code_simp
  moreover have "flags_test (flags_of IMMEDIATE) IMMEDIATE" by code_simp
  ultimately show ?thesis
    using write_outcome [OF sample_write_sound sample_client_inv, of True 100 3
        "flags_of IMMEDIATE" "sample_start [2]"] by auto
qed

text \<open>
  A write with \<open>IMMEDIATE\<close> that finds the socket not ready returns 0, which the code calls
  ``nothing was written'', yet the bytes stay in the queue and will be sent: a caller that
  repeats the write sends them twice.
\<close>

lemma write_zero_but_queued:
  assumes "client_inv os c" and "connected c" and "data \<noteq> 0" and "sz \<noteq> 0"
    and "writeSpaceRemaining c \<noteq> 0" and "flags_test flags IMMEDIATE"
    and "\<And>w. fst (select_w os (socket c) w) \<le> 0"
  shows "\<exists>c' w' b. write_bytes os data sz flags c w = Inr (0, c', w') \<and>
    writeQueue c' = writeQueue c @ [b] \<and>
    remaining b = unat (min (writeSpaceRemaining c) sz) \<and> 0 < remaining b"
proof -
  let ?n = "min (writeSpaceRemaining c) sz"
  have n: "?n \<noteq> 0" using assms(4,5) by (simp add: min_def)
  from add_outcome_queued [OF assms(1), of data sz flags w] assms(2,3) n obtain c1 w1 b where
    a: "add os data sz flags c w = Inr (?n, c1, w1)" "client_inv os c1"
    and q: "writeQueue c1 = writeQueue c @ [b]" "remaining b = unat ?n" "socket c1 = socket c"
    by auto
  obtain r w2 where r: "select_w os (socket c1) w1 = (r, w2)" by fastforce
  with assms(7) [of w1] q(3) have "r \<le> 0" by simp
  with r have "\<exists>w'. send os c1 w1 = Inr (False, c1, w')"
    by (simp add: send_def)
  then have "\<exists>w'. write_bytes os data sz flags c w = Inr (0, c1, w')"
    using a(1) n assms(6) by (auto simp: write_bytes_def)
  moreover have "0 < remaining b" using q(2) n by (metis unat_gt_0)
  ultimately show ?thesis using q(1,2) by blast
qed

lemma write_zero_but_queued_example:
  "\<exists>c' w' b. write_bytes ((sample_os True)\<lparr>select_w := (\<lambda>fd w. (0, w))\<rparr>) 100 3
      (flags_of IMMEDIATE) (sample_client True CONNECTED 50) (sample_start []) =
        Inr (0, c', w') \<and> writeQueue c' = [b] \<and> remaining b = 3"
proof -
  let ?os = "(sample_os True)\<lparr>select_w := (\<lambda>fd w. (0, w))\<rparr>"
  have "client_inv ?os (sample_client True CONNECTED 50)"
    by (simp add: client_inv_defs INITIAL_WRITE_SPACE_def sample_os_def isOpen_def)
  moreover have "flags_test (flags_of IMMEDIATE) IMMEDIATE" by code_simp
  moreover have "min (5760 :: size_t) 3 = 3" by (simp add: min_def)
  ultimately show ?thesis
    using write_zero_but_queued [of ?os "sample_client True CONNECTED 50" 100 3
        "flags_of IMMEDIATE" "sample_start []"]
    by (auto simp: connected_def)
qed

text \<open>
  \<open>strlen\<close>, which the string variants of \<open>add\<close> and \<open>write\<close> call, returns on every string
  with a terminator, and its result is the offset of the first one.
\<close>

lemma c_strlen_finds_terminator:
  assumes "m (p + of_nat k) = 0"
  shows "\<exists>n. c_strlen m p = Some n \<and> unat n \<le> k \<and> m (p + n) = 0 \<and>
    (\<forall>i < unat n. m (p + of_nat i) \<noteq> 0)"
  using assms
proof (induction k arbitrary: p)
  case 0
  then show ?case by (subst c_strlen.simps) simp
next
  case (Suc k)
  show ?case
  proof (cases "m p = 0")
    case True
    then show ?thesis by (subst c_strlen.simps) simp
  next
    case False
    from Suc.prems have "m ((p + 1) + of_nat k) = 0" by (simp add: algebra_simps)
    from Suc.IH [OF this] obtain n where n: "c_strlen m (p + 1) = Some n" "unat n \<le> k"
      "m (p + 1 + n) = 0" "\<forall>i < unat n. m (p + 1 + of_nat i) \<noteq> 0"
      by blast
    from n(3) False have "n + 1 \<noteq> 0" by (metis add.assoc add.commute add.right_neutral)
    then have u: "unat (n + 1) = unat n + 1" by (metis Suc_eq_plus1 add.commute unatSuc)
    have "m (p + of_nat i) \<noteq> 0" if "i < unat (n + 1)" for i
      using that False n(4) u by (cases i) (auto simp: algebra_simps)
    moreover have "c_strlen m p = Some (n + 1)" using False n(1) by (subst c_strlen.simps) simp
    moreover have "m (p + (n + 1)) = 0" using n(3) by (simp add: algebra_simps)
    moreover have "unat (n + 1) \<le> Suc k" using u n(2) by simp
    ultimately show ?thesis by blast
  qed
qed

lemma c_strlen_finds_terminator_example:
  "\<exists>n. c_strlen (bytes_at (sample_start [])) 253 = Some n \<and> unat n \<le> 3"
proof -
  have "bytes_at (sample_start []) (253 + of_nat 3) = 0" by (simp add: sample_start_def)
  then show ?thesis using c_strlen_finds_terminator [of "bytes_at (sample_start [])" 253 3] by blast
qed

section \<open>Connecting and closing\<close>

text \<open>
  \<open>connect\<close> to an address on every branch. It succeeds exactly when the client has no socket
  yet, one can be had, and the connection is established or in progress; then the client holds
  that socket, the address and the port and is connecting. In every other case the client is
  unchanged, and a socket that was opened is closed again.
\<close>

lemma connect_outcome:
  assumes "sys_socket os w = (fd, w1)"
    and "sys_connect os fd \<lparr>sin_len = sizeof_sockaddr_in os, sin_port = htons os port,
      s_addr = IPAddress_u32 os ip\<rparr> w1 = ((result, errno), w2)"
  shows "if isOpen c then connect_ip os ip port c w = (False, c, w)
    else if fd < 0 then connect_ip os ip port c w = (False, c, w1)
    else if result < 0 \<and> errno \<noteq> EINPROGRESS then
      connect_ip os ip port c w = (False, c, sys_close os fd w2)
    else \<exists>w3. connect_ip os ip port c w =
      (True, c\<lparr>cl_ip := ip, cl_port := port, conn_state := CONNECTING, socket := fd\<rparr>, w3)"
proof -
  have "\<exists>w3. configureSocket os fd c' w2 = (c'\<lparr>socket := fd\<rparr>, w3)" for c' :: "'b ClientBase"
    using configureSocket_fst [of os fd c' w2] by (metis prod.collapse)
  then have "\<exists>w3. configureSocket os fd (c\<lparr>cl_ip := ip, cl_port := port, conn_state := CONNECTING\<rparr>) w2 =
      (c\<lparr>cl_ip := ip, cl_port := port, conn_state := CONNECTING, socket := fd\<rparr>, w3)"
    by fastforce
  then show ?thesis using assms by (auto simp: connect_ip_def)
qed

lemma connect_outcome_example:
  "\<exists>w3. connect_ip (sample_os True) 7 80 (sample_client True DISCONNECTED (-1)) (sample_start []) =
    (True, (sample_client True DISCONNECTED (-1))\<lparr>cl_ip := 7, cl_port := 80,
       conn_state := CONNECTING, socket := 50\<rparr>, w3)"
  using connect_outcome [of "sample_os True" "sample_start []" 50 "sample_start []" 80 7 "-1" 119
      "sample_start []" "sample_client True DISCONNECTED (-1)"]
  by (simp add: sample_os_def isOpen_def EINPROGRESS_def)

text \<open>
  When \<open>fcntl\<close> fails, \<open>_configureSocket\<close> closes the descriptor and stores it nevertheless:
  the client reports an open socket whose descriptor it has just given back.
\<close>

lemma configure_keeps_closed_descriptor:
  assumes "fcntl_getfl os fd w = (fl, w1)" and "fcntl_setfl os fd (or fl (O_NONBLOCK os)) w1 = (res, w2)"
    and "res < 0" and "fd \<noteq> -1"
  shows "\<exists>c'. configureSocket os fd c w = (c', sys_close os fd w2) \<and> isOpen c' \<and> socket c' = fd"
  using assms by (simp add: configureSocket_def isOpen_def)

lemma configure_keeps_closed_descriptor_witness:
  "\<exists>c'. configureSocket ((sample_os True)\<lparr>fcntl_setfl := (\<lambda>fd fl w. (-1, w)),
      sys_close := (\<lambda>fd w. w\<lparr>clock := 77\<rparr>)\<rparr>) 50 (sample_client True CONNECTING (-1)) (sample_start []) =
        (c', (sample_start [])\<lparr>clock := 77\<rparr>) \<and> isOpen c' \<and> socket c' = 50"
  using configure_keeps_closed_descriptor
    [of "(sample_os True)\<lparr>fcntl_setfl := (\<lambda>fd fl w. (-1, w)), sys_close := (\<lambda>fd w. w\<lparr>clock := 77\<rparr>)\<rparr>"
      50 "sample_start []" 0 "sample_start []" "-1" "sample_start []" "sample_client True CONNECTING (-1)"]
  by (simp add: sample_os_def)

text \<open>
  \<open>close\<close> and \<open>abort\<close> leave the client without a socket, with nothing queued and the whole
  buffer free, give the descriptor back exactly once, and a second \<open>close\<close> changes nothing.
\<close>

lemma close_outcome:
  assumes "client_inv os c"
  shows "\<exists>c' w'. close_client os c w = Inr (c', w') \<and> \<not> isOpen c' \<and>
    writeQueue c' = [] \<and> writeSpaceRemaining c' = TCP_SND_BUF os \<and>
    w' = (if isOpen c then sys_close os (socket c) w else w) \<and>
    conn_state c' = (if isOpen c then DISCONNECTING else conn_state c) \<and>
    close_client os c' w' = Inr (c', w')"
proof (cases "isOpen c")
  case True
  then show ?thesis
    using client_inv_unlocked [OF assms]
    by (simp add: close_client_def close_socket_eq isOpen_def INITIAL_WRITE_SPACE_def)
next
  case False
  with assms have "writeQueue c = []" "writeSpaceRemaining c = TCP_SND_BUF os"
    by (auto simp: client_inv_defs INITIAL_WRITE_SPACE_def word_unat_eq_iff)
  with False show ?thesis by (simp add: close_client_def)
qed

lemma close_outcome_example:
  "\<exists>c' w'. close_client (sample_os True) (sample_client True CONNECTED 50) (sample_start []) = Inr (c', w') \<and>
    \<not> isOpen c' \<and> conn_state c' = DISCONNECTING"
  using close_outcome [OF sample_client_inv, of True "sample_start []"]
  by (auto simp: isOpen_def)

text \<open>
  \<open>close\<close> does not cancel a name resolution in progress: the client is left waiting for DNS
  while \<open>freeable\<close> already says it may be deleted, and when the answer comes the manager
  connects it.
\<close>

lemma close_leaves_dns_pending:
  assumes "\<not> isOpen c" and "conn_state c = WAITING_FOR_DNS"
  shows "close_client os c w = Inr (c, w) \<and> freeable c \<and> pendingWrite c \<and>
    isDnsFinished (dnsFoundCallback os (Some ip) c) \<and>
    cl_ip (dnsFoundCallback os (Some ip) c) = ip"
  using assms
  by (simp add: close_client_def freeable_def pendingWrite_def isDnsFinished_def
      dnsFoundCallback_def setDnsFinished_def)

lemma close_leaves_dns_pending_example:
  "close_client (sample_os True) (sample_client True WAITING_FOR_DNS (-1)) (sample_start []) =
     Inr (sample_client True WAITING_FOR_DNS (-1), sample_start []) \<and>
   freeable (sample_client True WAITING_FOR_DNS (-1))"
  using close_leaves_dns_pending [of "sample_client True WAITING_FOR_DNS (-1)" "sample_os True"
      "sample_start []" 7]
  by (simp add: isOpen_def)

section \<open>The connection state as an automaton\<close>

text \<open>What the calls of the application may do to the connection state.\<close>

inductive link_step :: "ConnectionState \<Rightarrow> ConnectionState \<Rightarrow> bool" where
  start_connect: "s \<in> {DISCONNECTED, WAITING_FOR_DNS, DISCONNECTING} \<Longrightarrow> link_step s CONNECTING"
| start_dns: "link_step s WAITING_FOR_DNS"
| start_close: "s \<noteq> DISCONNECTING \<Longrightarrow> link_step s DISCONNECTING"

inductive_simps link_step_simps: "link_step s t"

lemma connect_ip_link:
  assumes "client_inv os c" and "connect_ip os ip port c w = (b, c', w')"
  shows "conn_state c' = conn_state c \<or> link_step (conn_state c) (conn_state c')"
proof (cases rule: connect_ip_cases [of c os ip port w])
  case (started fd w')
  from started(1) assms(1) have "conn_state c \<in> {DISCONNECTED, WAITING_FOR_DNS, DISCONNECTING}"
    by (cases "conn_state c") (auto simp: client_inv_defs)
  with started assms(2) show ?thesis by (auto simp: link_step_simps)
qed (use assms in auto)

lemma connect_host_link:
  assumes "client_inv os c" and "connect_host os self host port c w = (b, c', w')"
  shows "conn_state c' = conn_state c \<or> link_step (conn_state c) (conn_state c')"
  using assms connect_ip_link [OF assms(1)]
  by (auto simp: connect_host_def link_step_simps split: prod.splits if_splits)

lemma close_link:
  assumes "client_inv os c" and "isOpen c" and "close_socket os c w = Inr (c', w')"
  shows "link_step (conn_state c) (conn_state c')"
  using assms by (auto simp: close_socket_eq client_inv_defs link_step_simps)

lemma same_state:
  assumes "write_sound os" and "client_inv os c"
  shows "add os data sz flags c w = Inr (n, c', w') \<Longrightarrow> conn_state c' = conn_state c"
    and "send os c w = Inr (b, c', w') \<Longrightarrow> conn_state c' = conn_state c"
    and "write_bytes os data sz flags c w = Inr (n, c', w') \<Longrightarrow> conn_state c' = conn_state c"
proof -
  have send: "conn_state c2 = conn_state c1"
    if "client_inv os c1" "send os c1 w1 = Inr (b, c2, w2)" for c1 c2 :: "'b ClientBase" and b w1 w2
    by (rule send_cases [OF assms(1) that(1), of w1]) (use that(2) in auto)
  show "send os c w = Inr (b, c', w') \<Longrightarrow> conn_state c' = conn_state c"
    by (rule send [OF assms(2)])
  obtain n1 c1 w1 where a: "add os data sz flags c w = Inr (n1, c1, w1)" "client_inv os c1"
    "conn_state c1 = conn_state c"
    using add_outcome_queued [OF assms(2), of data sz flags w] by metis
  then show "add os data sz flags c w = Inr (n, c', w') \<Longrightarrow> conn_state c' = conn_state c" by simp
  show "write_bytes os data sz flags c w = Inr (n, c', w') \<Longrightarrow> conn_state c' = conn_state c"
    using a send [OF a(2)]
    by (auto simp: write_bytes_def bind_res_Inr_iff split: if_splits)
qed

text \<open>
  C22: no call of the application takes a client to \<open>CONNECTED\<close> or \<open>DISCONNECTED\<close>; every change it
  makes to the state is one of: start connecting from a state without a socket, start waiting
  for DNS, start disconnecting.
\<close>

theorem api_refines_automaton:
  assumes "write_sound os" and "client_inv os c" and "run_api os self op c w = Inr (c', w')"
  shows "conn_state c' = conn_state c \<or> link_step (conn_state c) (conn_state c')"
proof (cases op)
  case (ConnectIp ip port)
  then show ?thesis using assms(3) connect_ip_link [OF assms(2)]
    by (metis Inr_inject prod.collapse run_api.simps(1) snd_conv)
next
  case (ConnectHost host port)
  then show ?thesis using assms(3) connect_host_link [OF assms(2)]
    by (metis Inr_inject prod.collapse run_api.simps(2) snd_conv)
next
  case Close
  then show ?thesis using assms(3) close_link [OF assms(2)]
    by (auto simp: close_client_def split: if_splits)
next
  case Abort
  then show ?thesis using assms(3) close_link [OF assms(2)]
    by (auto simp: abort_client_def bind_res_Inr_iff close_socket_eq client_inv_unlocked [OF assms(2)]
        split: if_splits prod.splits)
next
  case (Add data n flags)
  then show ?thesis using assms(3) same_state(1) [OF assms(1,2), of data n flags w]
    by (cases "add os data n flags c w") auto
next
  case (AddStr str n flags)
  then show ?thesis using assms(3) same_state(1) [OF assms(1,2), of str _ flags w]
    by (cases "add_str os str n flags c w")
      (auto simp: add_str_def bind_res_Inr_iff split: if_splits)
next
  case Send
  then show ?thesis using assms(3) same_state(2) [OF assms(1,2), of w]
    by (cases "send os c w") auto
next
  case (Write data n flags)
  then show ?thesis using assms(3) same_state(3) [OF assms(1,2), of data n flags w]
    by (cases "write_bytes os data n flags c w") auto
next
  case (WriteStr str n flags)
  then show ?thesis using assms(3) same_state(3) [OF assms(1,2), of str _ flags w]
    by (cases "write_str os str n flags c w")
      (auto simp: write_str_def bind_res_Inr_iff split: if_splits)
qed (use assms(3) in \<open>auto simp: setAckTimeout_def setRxTimeout_def\<close>)

theorem api_refines_automaton_witness:
  "\<exists>c' w'. run_api (sample_os True) 4096 Close (sample_client True CONNECTED 50) (sample_start []) =
      Inr (c', w') \<and> conn_state c' = DISCONNECTING \<and> link_step CONNECTED (conn_state c')"
proof -
  have "case run_api (sample_os True) 4096 Close (sample_client True CONNECTED 50) (sample_start []) of
      Inr (c', w') \<Rightarrow> conn_state c' = DISCONNECTING | Inl e \<Rightarrow> False" by code_simp
  then obtain c' w' where r: "run_api (sample_os True) 4096 Close (sample_client True CONNECTED 50)
      (sample_start []) = Inr (c', w')" "conn_state c' = DISCONNECTING"
    by (auto split: sum.splits)
  from api_refines_automaton [OF sample_write_sound sample_client_inv r(1)] r show ?thesis by simp
qed

section \<open>Flags and timeouts\<close>

fun flag_pos :: "ClientApiFlag \<Rightarrow> nat" where
  "flag_pos COPY = 0"
| "flag_pos IMMEDIATE = 1"

lemma flag_bits_exp: "flag_bits f = 2 ^ flag_pos f"
  by (cases f) simp_all

lemma flags_test_bit: "flags_test s g \<longleftrightarrow> bit (bits s) (flag_pos g)"
  by (simp add: flags_test_def flag_bits_exp and_exp_eq_0_iff_not_bit)

lemma bit_flag_bits: "bit (flag_bits f) (flag_pos g) \<longleftrightarrow> f = g"
  by (cases f; cases g) (simp_all add: bit_1_iff bit_numeral_rec)

lemma flag_pos_len: "flag_pos g < 8"
  by (cases g) simp_all

text \<open>
  The flag set behaves as a set: after setting a flag it tests true, after unsetting it
  false, the other flag is unaffected, and \<open>|\<close> has exactly its two operands.
\<close>

lemma flags_behave_as_set:
  "flags_test (flags_set f s) g = (f = g \<or> flags_test s g) \<and>
   flags_test (flags_unset f s) g = (f \<noteq> g \<and> flags_test s g) \<and>
   flags_test (flags_or a b) g = (g = a \<or> g = b)"
  using flag_pos_len [of g]
  by (auto simp: flags_test_bit flags_set_def flags_unset_def flags_or_def flags_of_def
      bit_or_iff bit_and_iff bit_not_iff bit_flag_bits)

text \<open>
  The receive timeout expires exactly when one is set, at least that much time has passed
  since the last packet, and the socket has nothing to read; a socket that is still readable
  re-arms it, and nothing else changes.
\<close>

lemma rx_timeout_outcome:
  assumes "steady_now os w = (now, w1)" and "select_r os (socket c) w1 = (selected, w2)"
  shows "\<exists>expired c' w'. checkRxTimeout os c w = (expired, c', w') \<and>
    (expired \<longleftrightarrow> (\<exists>limit. rx_timeout c = Some limit \<and> limit \<le> now - rx_last_packet c) \<and> selected \<le> 0) \<and>
    (c' = c \<or> c' = c\<lparr>rx_last_packet := now\<rparr> \<and> 0 < selected)"
  using assms by (auto simp: checkRxTimeout_def split: option.splits)

lemma rx_timeout_outcome_example:
  "\<exists>c' w'. checkRxTimeout (sample_os True) (setRxTimeout_ms 5 (sample_client True CONNECTED 50))
      ((sample_start [])\<lparr>clock := 5000000\<rparr>) = (True, c', w')"
  using rx_timeout_outcome [of "sample_os True" "(sample_start [])\<lparr>clock := 5000000\<rparr>" 5000000
      "(sample_start [])\<lparr>clock := 6000000\<rparr>" "setRxTimeout_ms 5 (sample_client True CONNECTED 50)"
      0 "(sample_start [])\<lparr>clock := 6000000\<rparr>"]
  by (auto simp: sample_os_def setRxTimeout_ms_def setRxTimeout_def millis_timeout_def
      sample_client_def ClientBase_new_def SocketConnection_init_def ClientBase_fields_def
      sample_start_def)

end
