(* ===== verification/HandlerProperties.thy ===== *)
theory HandlerProperties
  imports System ClientProperties
begin

text \<open>
  What the handlers of the worker task do on every branch, observed through the callbacks they
  make. The application here is \<open>quiet\<close>: its handlers do nothing, so the trace of callbacks and
  the state afterwards are exactly the handler's own work.
\<close>

section \<open>Quiet applications\<close>

definition quiet :: "('w, 'ip) usercode" where
  "quiet h arg p ev m = []"

text \<open>The callback made for an event, if its slot is filled.\<close>

definition told :: "'ip ClientBase \<Rightarrow> ptr \<Rightarrow> cb_event \<Rightarrow> (ptr \<times> cb_event) list" where
  "told c p ev = (if client_handler c ev = None then [] else [(p, ev)])"

lemma invoke_quiet:
  "heap m p = Some c \<Longrightarrow> invoke os quiet p ev m = Inr (m\<lparr>trace := trace m @ told c p ev\<rparr>)"
  by (auto simp: invoke_def get_client_def told_def quiet_def Let_def split: option.splits)

lemma told_callbacks:
  "callbacks c = callbacks c' \<Longrightarrow> told c p ev = told c' p ev"
  by (cases "cb_type ev") (simp_all add: told_def client_handler_def)

lemma told_update [simp]:
  "told (c\<lparr>rx_last_packet := t\<rparr>) p ev = told c p ev"
  "told (c\<lparr>writeQueue := q\<rparr>) p ev = told c p ev"
  "told (c\<lparr>writeMutex := b\<rparr>) p ev = told c p ev"
  "told (c\<lparr>conn_state := s\<rparr>) p ev = told c p ev"
  "told (c\<lparr>ack_timeout_signaled := b\<rparr>) p ev = told c p ev"
  by (rule told_callbacks, simp)+

lemma error_at_quiet:
  assumes "heap m p = Some c" and "\<not> writeMutex c"
  shows "error_at os quiet p code m =
    Inr ((put_client p (closed_client os c) (sys_close os (socket c) (world m)) m)
      \<lparr>trace := trace m @ told c p (EvError code)\<rparr>)"
  using close_at_eq [of "m\<lparr>trace := trace m @ told c p (EvError code)\<rparr>" p c os] assms
  by (simp add: error_at_def invoke_quiet put_client_def)

definition sent_event :: "WriteQueueBuffer \<Rightarrow> cb_event" where
  "sent_event b = EvSent (ws_length (stats_of b)) (ws_delay (stats_of b))"

lemma notify_sent_quiet:
  "heap m p = Some c \<Longrightarrow> notify_sent os quiet p (map stats_of bs) m =
    Inr (m\<lparr>trace := trace m @ concat (map (\<lambda>b. told c p (sent_event b)) bs)\<rparr>)"
  by (induction bs arbitrary: m) (simp_all add: invoke_quiet sent_event_def)

text \<open>A run in which the handlers of one client are called.\<close>

definition one_client :: "u32 ClientBase \<Rightarrow> nat list \<Rightarrow> (sample_world, u32) machine" where
  "one_client c ks =
     (start_machine (sample_start ks))\<lparr>heap := [4096 \<mapsto> c], clients := [4096]\<rparr>"

definition all_handlers :: "ClientCallbacks" where
  "all_handlers =
     fold (\<lambda>t. set_handler t (Some 1) 0) [CONNECT, DISCONNECT, POLL, SENT, RECV, ERROR, TIMEOUT]
       ClientCallbacks_init"

definition listening :: "ConnectionState \<Rightarrow> int \<Rightarrow> u32 ClientBase" where
  "listening st fd = (sample_client True st fd)\<lparr>callbacks := all_handlers\<rparr>"

lemma listening_simps [simp]:
  "conn_state (listening st fd) = st" "socket (listening st fd) = fd"
  "writeMutex (listening st fd) = False" "writeQueue (listening st fd) = []"
  "writeSpaceRemaining (listening st fd) = 5760" "callbacks (listening st fd) = all_handlers"
  "ack_timeout_signaled (listening st fd) = False" "rx_timeout (listening st fd) = None"
  by (simp_all add: listening_def)

lemma one_client_simps [simp]:
  "heap (one_client c ks) p = (if p = 4096 then Some c else None)"
  "world (one_client c ks) = sample_start ks" "trace (one_client c ks) = []"
  "clients (one_client c ks) = [4096]" "server_heap (one_client c ks) p = None"
  "servers (one_client c ks) = []" "managerMutex (one_client c ks) = False"
  by (simp_all add: one_client_def start_machine_def)

lemma told_all [simp]:
  "callbacks c = all_handlers \<Longrightarrow> cb_type ev \<noteq> None \<Longrightarrow> told c p ev = [(p, ev)]"
  by (cases ev) (simp_all add: told_def client_handler_def all_handlers_def)

lemma one_client_inv: "client_inv (sample_os True) c \<Longrightarrow> machine_inv (sample_os True) {} (one_client c ks)"
  by (auto simp: machine_inv_def heap_inv_def registry_inv_def client_inv_def)

section \<open>Notifications\<close>

lemma cleanup_quiet_eq:
  assumes "heap m p = Some c"
    and "\<forall>b bs. dropWhile finished (writeQueue c) = b # bs \<longrightarrow> \<not> hasError b"
  shows "\<exists>rx. cleanupWriteQueue os quiet p m =
    Inr ((put_client p (unlock_write (c\<lparr>rx_last_packet := rx,
        writeQueue := dropWhile finished (writeQueue c)\<rparr>)) (world m) m)
      \<lparr>trace := trace m @
        concat (map (\<lambda>b. told c p (sent_event b)) (takeWhile finished (writeQueue c)))\<rparr>)"
proof -
  obtain e stats rx rest where s: "cleanup_scan (writeQueue c) (rx_last_packet c) = (e, stats, rx, rest)"
    by (metis surj_pair)
  note split = cleanup_scan_split [OF s]
  with assms(2) have e: "e = None" by (auto split: list.splits)
  let ?c = "unlock_write (c\<lparr>rx_last_packet := rx, writeQueue := rest\<rparr>)"
  have "cleanupWriteQueue os quiet p m =
      notify_sent os quiet p (map stats_of (takeWhile finished (writeQueue c)))
        (put_client p ?c (world m) m)"
    using assms(1) split e by (simp add: cleanupWriteQueue_def get_client_def s)
  also have "\<dots> = Inr ((put_client p ?c (world m) m)\<lparr>trace := trace m @
      concat (map (\<lambda>b. told c p (sent_event b)) (takeWhile finished (writeQueue c)))\<rparr>)"
    by (subst notify_sent_quiet [where c = ?c]) (simp_all add: put_client_def unlock_write_def)
  finally show ?thesis using split by blast
qed

lemma cleanup_quiet:
  assumes "heap m p = Some c"
    and "\<forall>b bs. dropWhile finished (writeQueue c) = b # bs \<longrightarrow> \<not> hasError b"
  shows "\<exists>m' c'. cleanupWriteQueue os quiet p m = Inr m' \<and> heap m' p = Some c' \<and>
    \<not> writeMutex c' \<and> writeQueue c' = dropWhile finished (writeQueue c) \<and>
    conn_state c' = conn_state c \<and> socket c' = socket c \<and> world m' = world m \<and>
    trace m' = trace m @
      concat (map (\<lambda>b. told c p (sent_event b)) (takeWhile finished (writeQueue c)))"
  using cleanup_quiet_eq [OF assms, of os] by (auto simp: put_client_def unlock_write_def)


definition finished_buffer :: "size_t \<Rightarrow> time_point \<Rightarrow> WriteQueueBuffer" where
  "finished_buffer n t =
     OwnedWriteQueueBuffer \<lparr>amountWritten = n, queuedAt = 0, writtenAt = t, errorCode = 0\<rparr> []"

definition failed_buffer :: "byte list \<Rightarrow> int \<Rightarrow> WriteQueueBuffer" where
  "failed_buffer bs e =
     OwnedWriteQueueBuffer \<lparr>amountWritten = 0, queuedAt = 0, writtenAt = 0, errorCode = e\<rparr> bs"

lemma finished_buffer_simps [simp]:
  "finished (finished_buffer n t)" "\<not> hasError (finished_buffer n t)"
  "sent_event (finished_buffer n t) = EvSent n (cast_millis_u32 t)"
  by (simp_all add: finished_def hasError_def isFullyWritten_def finished_buffer_def sent_event_def
      stats_of_def)

lemma failed_buffer_simps [simp]:
  "hasError (failed_buffer bs e) \<longleftrightarrow> e \<noteq> 0" "e \<noteq> 0 \<Longrightarrow> \<not> finished (failed_buffer bs e)"
  "errorCode (asCommonView (failed_buffer bs e)) = e"
  by (simp_all add: finished_def hasError_def failed_buffer_def)


lemma cleanup_quiet_error:
  assumes "heap m p = Some c" and "dropWhile finished (writeQueue c) = b # bs" and "hasError b"
  shows "\<exists>m' c'. cleanupWriteQueue os quiet p m = Inr m' \<and> heap m' p = Some c' \<and>
    conn_state c' = DISCONNECTING \<and> \<not> isOpen c' \<and> writeQueue c' = [] \<and>
    trace m' = trace m @ told c p (EvError (errorCode (asCommonView b)))"
proof -
  obtain e stats rx rest where s: "cleanup_scan (writeQueue c) (rx_last_packet c) = (e, stats, rx, rest)"
    by (metis surj_pair)
  note split = cleanup_scan_split [OF s]
  with assms(2,3) have e: "e = Some (errorCode (asCommonView b))" by auto
  let ?c = "unlock_write (c\<lparr>rx_last_packet := rx\<rparr>)"
  have "cleanupWriteQueue os quiet p m =
      error_at os quiet p (errorCode (asCommonView b)) (put_client p ?c (world m) m)"
    using assms(1) e by (simp add: cleanupWriteQueue_def get_client_def s)
  then show ?thesis
    using error_at_quiet [of "put_client p ?c (world m) m" p ?c os]
    by (auto simp: put_client_def unlock_write_def closed_client_def isOpen_def)
qed

text \<open>
  When the first entry that is not finished has an error, the finished entries before it are
  never reported: the error callback is the only one made, and the queue is thrown away with
  them although their bytes were sent.
\<close>

lemma cleanup_error_drops_notifications:
  assumes "heap m p = Some c" and "dropWhile finished (writeQueue c) = b # bs" and "hasError b"
  shows "\<exists>m' c'. cleanupWriteQueue os quiet p m = Inr m' \<and> heap m' p = Some c' \<and>
    conn_state c' = DISCONNECTING \<and> \<not> isOpen c' \<and> writeQueue c' = [] \<and>
    trace m' = trace m @ told c p (EvError (errorCode (asCommonView b)))"
  using assms by (rule cleanup_quiet_error)

lemma cleanup_error_drops_notifications_example:
  "\<exists>m'. cleanupWriteQueue (sample_os True) quiet 4096
      (one_client ((listening CONNECTED 50)\<lparr>writeMutex := True,
         writeQueue := [finished_buffer 2 3000000, failed_buffer [5] 104]\<rparr>) []) = Inr m' \<and>
    trace m' = [(4096, EvError 104)]"
proof -
  let ?c = "(listening CONNECTED 50)\<lparr>writeMutex := True,
    writeQueue := [finished_buffer 2 3000000, failed_buffer [5] 104]\<rparr>"
  show ?thesis
    using cleanup_error_drops_notifications [of "one_client ?c []" 4096 ?c "failed_buffer [5] 104"
        "[]" "sample_os True"] by auto
qed

section \<open>Socket events\<close>

text \<open>
  A connecting client whose socket becomes writeable: when the socket has an error, or
  cannot even be asked, the error is reported and the client closed; otherwise the client is
  connected, both timeouts restart, and \<open>CONNECT\<close> is reported.
\<close>

lemma writeable_connects:
  assumes "heap m p = Some c" and "conn_state c \<noteq> CONNECTED" and "\<not> writeMutex c"
    and "writeQueue c = []"
    and "getsockopt_error os (socket c) (world m) = ((result, errno, socketError), w1)"
    and "steady_now os w1 = (now, w2)"
  shows "\<exists>m' c'. sockIsWriteable os quiet p m = Inr (0 \<le> result \<and> socketError = 0, m') \<and>
    heap m' p = Some c' \<and>
    (if result < 0 then c' = closed_client os c \<and> trace m' = trace m @ told c p (EvError errno)
     else if socketError \<noteq> 0 then
       c' = closed_client os c \<and> trace m' = trace m @ told c p (EvError socketError)
     else c' = c\<lparr>conn_state := CONNECTED, rx_last_packet := now, ack_timeout_signaled := False\<rparr> \<and>
       trace m' = trace m @ told c p EvConnect)"
proof -
  let ?m1 = "m\<lparr>world := w1\<rparr>"
  let ?c = "c\<lparr>conn_state := CONNECTED, rx_last_packet := now, ack_timeout_signaled := False\<rparr>"
  have err: "error_at os quiet p code ?m1 =
      Inr ((put_client p (closed_client os c) (sys_close os (socket c) w1) ?m1)
        \<lparr>trace := trace m @ told c p (EvError code)\<rparr>)" for code
    using error_at_quiet [of ?m1 p c os code] assms(1,3) by simp
  have same: "c\<lparr>writeMutex := False\<rparr> = c" using assms(3) by simp
  show ?thesis
    using assms err same
    by (auto simp: Let_def sockIsWriteable_def get_client_def put_client_def invoke_quiet
        writeable_section_def lock_write_def unlock_write_def)
qed

lemma writeable_connects_example:
  "\<exists>m'. sockIsWriteable (sample_os True) quiet 4096 (one_client (listening CONNECTING 50) []) =
      Inr (True, m') \<and> trace m' = [(4096, EvConnect)]"
  using writeable_connects [of "one_client (listening CONNECTING 50) []" 4096 "listening CONNECTING 50"
      "sample_os True" 0 0 0 "sample_start []" 0 "sample_start []\<lparr>clock := 1000000\<rparr>"]
  by (auto simp: sample_os_def sample_start_def)

text \<open>
  Data arriving on a socket: data read is handed to the application and restarts the
  receive timeout; end of stream closes the client without an error; ``try again'' does
  nothing; every other error is reported and closes the client.
\<close>

lemma readable_outcome:
  assumes "heap m p = Some c" and "\<not> writeMutex c"
    and "lwip_read os (socket c) (TCP_MSS os) (world m) = ((result, errno, buf), w1)"
    and "steady_now os w1 = (now, w2)"
  shows "\<exists>m' c'. sockIsReadable os quiet p m = Inr m' \<and> heap m' p = Some c' \<and>
    (if 0 < result then
       c' = c\<lparr>rx_last_packet := now\<rparr> \<and> trace m' = trace m @ told c p (EvRecv (take (nat result) buf))
     else if result = 0 then c' = closed_client os c \<and> trace m' = trace m
     else if errno = EAGAIN os \<or> errno = EWOULDBLOCK os then c' = c \<and> trace m' = trace m
     else c' = closed_client os c \<and> trace m' = trace m @ told c p (EvError errno))"
proof -
  let ?m1 = "m\<lparr>world := w1\<rparr>"
  show ?thesis
    using assms error_at_quiet [of ?m1 p c os errno] close_at_eq [of ?m1 p c os]
    by (auto simp: sockIsReadable_def get_client_def put_client_def invoke_quiet)
qed

lemma readable_outcome_example:
  "\<exists>m'. sockIsReadable ((sample_os True)\<lparr>lwip_read := (\<lambda>fd n w. ((2, 0, [8, 9, 0]), w))\<rparr>) quiet 4096
      (one_client (listening CONNECTED 50) []) = Inr m' \<and> trace m' = [(4096, EvRecv [8, 9])]"
  using readable_outcome [of "one_client (listening CONNECTED 50) []" 4096 "listening CONNECTED 50"
      "(sample_os True)\<lparr>lwip_read := (\<lambda>fd n w. ((2, 0, [8, 9, 0]), w))\<rparr>" 2 0 "[8, 9, 0]"
      "sample_start []" 0 "sample_start []\<lparr>clock := 1000000\<rparr>"]
  by (auto simp: sample_os_def sample_start_def)

text \<open>
  A client that was closed by another client's callback after the worker had already
  collected it as writeable is treated as one that is connecting: asking its descriptor \<open>-1\<close>
  for an error fails, so the application gets an error for a connection it has closed itself.
\<close>

lemma writeable_after_close_reports_error:
  assumes "heap m p = Some c" and "\<not> isOpen c" and "conn_state c = DISCONNECTING"
    and "\<not> writeMutex c" and "badfd_law os"
  shows "\<exists>m' errno. sockIsWriteable os quiet p m = Inr (False, m') \<and>
    trace m' = trace m @ told c p (EvError errno) \<and> heap m' p = Some (closed_client os c)"
proof -
  obtain result errno v w1 where g: "getsockopt_error os (socket c) (world m) = ((result, errno, v), w1)"
    by (metis surj_pair)
  moreover from assms(2) g have "result < 0"
    using badfd_lawD [OF assms(5)] by (simp add: isOpen_def)
  ultimately show ?thesis
    using assms error_at_quiet [of "m\<lparr>world := w1\<rparr>" p c os errno]
    by (auto simp: sockIsWriteable_def get_client_def Let_def put_client_def)
qed

lemma writeable_after_close_reports_error_example:
  "\<exists>m' errno. sockIsWriteable (sample_os True) quiet 4096 (one_client (listening DISCONNECTING (-1)) []) =
      Inr (False, m') \<and> trace m' = [(4096, EvError errno)]"
  using writeable_after_close_reports_error [of "one_client (listening DISCONNECTING (-1)) []" 4096
      "listening DISCONNECTING (-1)" "sample_os True"] sample_badfd_law [of True]
  by (auto simp: isOpen_def)

section \<open>Name resolution\<close>

text \<open>
  When the name is resolved but the connection cannot be started, \<open>_sockDelayedConnect\<close>
  drops the failure: no callback is made, the client keeps waiting for DNS with the flag already
  cleared, so it is never visited for it again, and it still counts as having a pending write.
\<close>

lemma delayed_connect_fails_silently:
  assumes "heap m p = Some c" and "conn_state c = WAITING_FOR_DNS" and "\<not> isOpen c"
    and "IPAddress_u32 os (cl_ip c) \<noteq> 0" and "sys_socket os (world m) = (fd, w1)" and "fd < 0"
  shows "\<exists>m'. bind_res (clear_dns p m) (sockDelayedConnect os U p) = Inr m' \<and>
    trace m' = trace m \<and>
    (\<exists>c'. heap m' p = Some c' \<and> conn_state c' = WAITING_FOR_DNS \<and> \<not> isDnsFinished c' \<and>
      \<not> isOpen c' \<and> pendingWrite c')"
  using assms
  by (auto simp: clear_dns_def sockDelayedConnect_def get_client_def put_client_def connect_ip_def
      setDnsFinished_def isDnsFinished_def isOpen_def pendingWrite_def)

lemma delayed_connect_fails_silently_example:
  "\<exists>m'. bind_res (clear_dns 4096 (one_client ((listening WAITING_FOR_DNS (-1))\<lparr>cl_ip := 7\<rparr>) []))
      (sockDelayedConnect ((sample_os True)\<lparr>sys_socket := (\<lambda>w. (-1, w))\<rparr>) quiet 4096) = Inr m' \<and>
    trace m' = []"
  using delayed_connect_fails_silently
    [of "one_client ((listening WAITING_FOR_DNS (-1))\<lparr>cl_ip := 7\<rparr>) []" 4096
      "(listening WAITING_FOR_DNS (-1))\<lparr>cl_ip := 7\<rparr>" "(sample_os True)\<lparr>sys_socket := (\<lambda>w. (-1, w))\<rparr>"
      "-1" "sample_start []" quiet]
  by (auto simp: isOpen_def sample_os_def)

text \<open>
  \<open>connect\<close> to a host name does not check for an open connection: on a connected client it
  takes the state back to waiting for DNS, with the old socket still in place, so nothing can be
  queued; the address, once resolved, is refused because the old socket is still open.
\<close>

lemma connect_host_on_open_client:
  assumes "isOpen c"
    and "dns_gethostbyname os host self w = ((ERR_INPROGRESS os, resolved), w1)"
    and "ERR_INPROGRESS os \<noteq> ERR_OK os"
  shows "\<exists>c'. connect_host os self host port c w = (True, c', w1) \<and>
    socket c' = socket c \<and> \<not> connected c' \<and> space c' = 0 \<and> pendingWrite c' \<and>
    connect_ip os ip port c' w2 = (False, c', w2)"
  using assms
  by (simp add: connect_host_def connected_def space_def pendingWrite_def connect_ip_def isOpen_def)

lemma connect_host_on_open_client_example:
  "\<exists>c'. connect_host (sample_os True) 4096 ''h'' 80 (sample_client True CONNECTED 50)
      (sample_start []) = (True, c', sample_start []) \<and> socket c' = 50 \<and> \<not> connected c'"
proof -
  have "dns_gethostbyname (sample_os True) ''h'' 4096 (sample_start []) =
      ((ERR_INPROGRESS (sample_os True), 0), sample_start [])"
    and "ERR_INPROGRESS (sample_os True) \<noteq> ERR_OK (sample_os True)"
    and "isOpen (sample_client True CONNECTED 50)"
    by (simp_all add: sample_os_def isOpen_def)
  from connect_host_on_open_client [OF this(3,1,2)] show ?thesis by (metis sample_client_simps(2))
qed

section \<open>Timeouts and polling\<close>

definition ack_expired :: "'ip ClientBase \<Rightarrow> time_point \<Rightarrow> bool" where
  "ack_expired c now \<longleftrightarrow> (\<exists>limit b q. ack_timeout c = Some limit \<and> \<not> ack_timeout_signaled c \<and>
     writeQueue c = b # q \<and> limit \<le> now - queuedAt (asCommonView b) \<and>
     writtenAt (asCommonView b) = 0)"

lemma put_same: "heap m p = Some c \<Longrightarrow> put_client p c w m = m\<lparr>world := w\<rparr>"
  by (simp add: put_client_def fun_upd_idem)

lemma ack_fires:
  assumes "heap m p = Some c" and "\<not> writeMutex c" and "steady_now os (world m) = (now, w1)"
    and "ack_expired c now"
  shows "\<exists>d. checkAckTimeout os quiet p m = Inr (True,
    (put_client p (c\<lparr>ack_timeout_signaled := True\<rparr>) w1 m)\<lparr>trace := trace m @ told c p (EvTimeout d)\<rparr>)"
proof -
  have same: "c\<lparr>ack_timeout_signaled := True, writeMutex := False\<rparr> = c\<lparr>ack_timeout_signaled := True\<rparr>"
    using assms(2) by simp
  show ?thesis
    using assms
    by (auto simp: same ack_expired_def checkAckTimeout_def get_client_def lock_write_def
        unlock_write_def put_client_def invoke_quiet)
qed

lemma ack_silent:
  assumes "heap m p = Some c" and "\<not> writeMutex c" and "steady_now os (world m) = (now, w1)"
    and "\<not> ack_expired c now"
  shows "\<exists>w'. checkAckTimeout os quiet p m = Inr (False, m\<lparr>world := w'\<rparr>)"
proof -
  have same: "c\<lparr>writeMutex := False\<rparr> = c" "m\<lparr>world := world m\<rparr> = m"
    using assms(2) by simp_all
  show ?thesis
  proof (cases "ack_timeout c = None \<or> ack_timeout_signaled c")
    case True
    then have "checkAckTimeout os quiet p m = Inr (False, m)"
      using assms(1) by (auto simp: checkAckTimeout_def get_client_def split: option.split)
    then show ?thesis using same(2) by metis
  next
    case False
    then obtain limit where "ack_timeout c = Some limit" "\<not> ack_timeout_signaled c" by auto
    moreover have "\<exists>w'. m = m\<lparr>world := w'\<rparr>" by (rule exI [of _ "world m"]) simp
    ultimately show ?thesis
      using assms put_same [OF assms(1)]
      by (cases "writeQueue c")
        (auto simp: same ack_expired_def checkAckTimeout_def get_client_def lock_write_def unlock_write_def)
  qed
qed

lemma rearm: "add_commit n b c = Inr c2 \<Longrightarrow> \<not> ack_timeout_signaled c2"
  by (auto simp: add_commit_def lock_write_def unlock_write_def split: if_splits)

text \<open>
  The ACK timeout fires exactly when one is set, has not fired since it was last armed, and
  the first entry of the queue has waited that long without being written; having fired it
  stays silent until a further \<open>add\<close> arms it again.
\<close>

lemma ack_timeout_fires_once:
  assumes "heap m p = Some c" and "\<not> writeMutex c" and "steady_now os (world m) = (now, w1)"
  shows "\<exists>fired m' c'. checkAckTimeout os quiet p m = Inr (fired, m') \<and> heap m' p = Some c' \<and>
    (fired \<longleftrightarrow> (\<exists>limit b q. ack_timeout c = Some limit \<and> \<not> ack_timeout_signaled c \<and>
       writeQueue c = b # q \<and> limit \<le> now - queuedAt (asCommonView b) \<and>
       writtenAt (asCommonView b) = 0)) \<and>
    (fired \<longrightarrow> (\<exists>d. trace m' = trace m @ told c p (EvTimeout d)) \<and>
       checkAckTimeout os quiet p m' = Inr (False, m')) \<and>
    (\<not> fired \<longrightarrow> c' = c \<and> trace m' = trace m) \<and>
    (\<forall>n b c2. add_commit n b c' = Inr c2 \<longrightarrow> \<not> ack_timeout_signaled c2)"
proof (cases "ack_expired c now")
  case True
  from ack_fires [OF assms True] obtain d where
    f: "checkAckTimeout os quiet p m = Inr (True, (put_client p (c\<lparr>ack_timeout_signaled := True\<rparr>) w1 m)
      \<lparr>trace := trace m @ told c p (EvTimeout d)\<rparr>)" (is "_ = Inr (True, ?m)")
    by blast
  have "checkAckTimeout os quiet p ?m = Inr (False, ?m)"
    by (simp add: checkAckTimeout_def get_client_def put_client_def split: option.split)
  with f True show ?thesis by (auto simp: put_client_def ack_expired_def rearm)
next
  case False
  from ack_silent [OF assms False] assms(1) False show ?thesis
    by (auto simp: ack_expired_def rearm)
qed

lemma ack_timeout_fires_once_example:
  "\<exists>m'. checkAckTimeout (sample_os True) quiet 4096
      ((one_client ((listening CONNECTED 50)\<lparr>writeQueue := [failed_buffer [5] 0],
         ack_timeout := Some 1000\<rparr>) [])\<lparr>world := sample_start []\<lparr>clock := 1000\<rparr>\<rparr>) = Inr (True, m') \<and>
    (\<exists>d. trace m' = [(4096, EvTimeout d)])"
proof -
  let ?c = "(listening CONNECTED 50)\<lparr>writeQueue := [failed_buffer [5] 0], ack_timeout := Some 1000\<rparr>"
  show ?thesis
    using ack_timeout_fires_once [of "(one_client ?c [])\<lparr>world := sample_start []\<lparr>clock := 1000\<rparr>\<rparr>"
        4096 ?c "sample_os True" 1000 "sample_start []\<lparr>clock := 1001000\<rparr>"]
    by (auto simp: sample_os_def failed_buffer_def sample_start_def)
qed

text \<open>
  Polling a connected client with nothing queued: when the receive timeout has expired the
  client is closed and no poll callback is made; otherwise it is polled and stays connected. A
  client that is not connected is left alone.
\<close>

lemma poll_outcome:
  assumes "heap m p = Some c" and "\<not> writeMutex c" and "writeQueue c = []"
    and "checkRxTimeout os c (world m) = (expired, c1, w1)"
  shows "\<exists>m' c'. sockPoll os quiet p m = Inr m' \<and> heap m' p = Some c' \<and>
    (if conn_state c \<noteq> CONNECTED then m' = m
     else if expired then c' = closed_client os c1 \<and> trace m' = trace m
     else c' = c1 \<and> trace m' = trace m @ told c p EvPoll)"
proof -
  have same: "c\<lparr>writeQueue := [], writeMutex := False\<rparr> = c" "c\<lparr>writeMutex := False\<rparr> = c"
    using assms(2,3) by simp_all
  have c1: "c1 = c \<or> (\<exists>t. c1 = c\<lparr>rx_last_packet := t\<rparr>)"
    using assms(4) by (auto simp: checkRxTimeout_def Let_def split: option.splits prod.splits if_splits)
  then have un: "\<not> writeMutex c1" "told c1 p EvPoll = told c p EvPoll" using assms(2) by auto
  have m: "put_client p c (world m) m = m"
    using assms(1) by (simp add: put_client_def fun_upd_idem)
  have clean: "cleanupWriteQueue os quiet p (put_client p (c\<lparr>writeMutex := True\<rparr>) (world m) m) = Inr m"
    using assms m by (simp add: same cleanupWriteQueue_def get_client_def put_client_def unlock_write_def)
  have ack: "checkAckTimeout os quiet p m = Inr (False, m)"
    using assms m by (simp add: same checkAckTimeout_def get_client_def lock_write_def unlock_write_def
        split: option.split)
  show ?thesis
    using assms(1,2,4) clean ack un close_at_eq [of "put_client p c1 w1 m" p c1 os]
    by (auto simp: sockPoll_def poll_timeouts_def poll_idle_def get_client_def lock_write_def
        connected_def invoke_quiet put_client_def Let_def)
qed

lemma poll_outcome_example:
  "\<exists>m'. sockPoll (sample_os True) quiet 4096 (one_client (listening CONNECTED 50) []) = Inr m' \<and>
    trace m' = [(4096, EvPoll)]"
proof -
  show ?thesis
    using poll_outcome [of "one_client (listening CONNECTED 50) []" 4096 "listening CONNECTED 50"
        "sample_os True" False "listening CONNECTED 50" "sample_start []"]
    by (auto simp: checkRxTimeout_def)
qed

end
