(* ===== verification/ClientThreads.thy ===== *)
theory ClientThreads
  imports HandlerProperties
begin

text \<open>
  One client used by many threads, with the threads interleaved inside its operations
  (\<open>src/src/ClientBase.tpp\<close>). Thread 0 is the worker; every thread may call \<open>add\<close>, \<open>send\<close>,
  \<open>close\<close> and \<open>connect\<close> (the worker in its callbacks). A step is one statement or condition of
  the code that uses the state the threads share; the loop of \<open>_processWriteQueue\<close> takes one
  step for each entry of the queue, the scan of \<open>_cleanupWriteQueue\<close>, the checks before the
  mutex in \<open>add\<close>, and \<open>connect\<close> one in all. Waiting for \<open>_writeMutex\<close> is having no step. The
  callbacks' own calls are those of thread 0 between its handlers, as none runs with the mutex
  held. Not in this model: the timers of \<open>_sockPoll\<close>, reading, and \<open>_pendingWrite\<close>.
\<close>

section \<open>Where a thread is\<close>

text \<open>
  \<open>Add\<close>\<dots>, \<open>Send\<close>\<dots>, \<open>Close\<close>\<dots> and \<open>Clear\<close>\<dots> are the statements of \<open>add\<close>, \<open>send\<close>, \<open>close\<close> with
  \<open>_close\<close>, and \<open>_clearWriteQueue\<close>; \<open>Event\<close>\<dots> those of \<open>_sockIsWriteable\<close>, \<open>Poll\<close>\<dots> the beginning
  of \<open>_sockPoll\<close>, \<open>Scan\<close>\<dots> those of \<open>_cleanupWriteQueue\<close>, \<open>Done\<close>\<dots> those of \<open>_processingDone\<close>.
  The passes of \<open>_processWriteQueue\<close> carry the index of the next entry and the activity flag.
\<close>

datatype 'ip thread_pc =
    Ready
  | AddCheck ptr size_t ClientApiFlags
  | AddLock size_t WriteQueueBuffer
  | AddPush size_t WriteQueueBuffer
  | AddTake size_t
  | AddSignal
  | AddUnlock
  | SendCheck
  | SendSelect
  | SendLock
  | SendEmpty
  | SendPass nat bool
  | SendUnlock
  | CloseCheck
  | CloseState
  | CloseSocket
  | ClearLock
  | ClearQueue
  | ClearSpace
  | ClearUnlock
  | Connect 'ip u16
  | EventCheck
  | EventError
  | EventConnected
  | EventMark
  | EventLock
  | EventEmpty
  | EventPass nat bool
  | EventUnlock
  | PollCheck
  | PollLock
  | ScanQueue
  | ScanUnlock "int option" "WriteStats list"
  | TellError int
  | TellSent "WriteStats list"
  | DoneCheck
  | DoneState

text \<open>Between taking the mutex and releasing it.\<close>

fun holding :: "'ip thread_pc \<Rightarrow> bool" where
  "holding (AddPush n b) = True"
| "holding (AddTake n) = True"
| "holding AddSignal = True"
| "holding AddUnlock = True"
| "holding SendEmpty = True"
| "holding (SendPass i a) = True"
| "holding SendUnlock = True"
| "holding ClearQueue = True"
| "holding ClearSpace = True"
| "holding ClearUnlock = True"
| "holding EventEmpty = True"
| "holding (EventPass i a) = True"
| "holding EventUnlock = True"
| "holding ScanQueue = True"
| "holding (ScanUnlock e ss) = True"
| "holding pc = False"

section \<open>Steps of one thread\<close>

text \<open>
  One entry of the loop of \<open>_processWriteQueue\<close>: the loop goes on at the next index, or is
  over. \<open>None\<close> if the write to the socket never returns.
\<close>

definition pass_step ::
  "('w, 'ip) os \<Rightarrow> nat \<Rightarrow> bool \<Rightarrow> 'ip ClientBase \<Rightarrow> 'w \<Rightarrow>
     ((nat \<times> bool) option \<times> 'ip ClientBase \<times> 'w) option"
where
  "pass_step os i activity c w =
     (if length (writeQueue c) \<le> i then Some (None, c, w)
      else
        let buf = writeQueue c ! i
        in if hasError buf then Some (None, c, w)
           else if isFullyWritten buf then Some (Some (Suc i, activity), c, w)
           else
             (case write_buffer os buf (socket c) w of
                None \<Rightarrow> None
              | Some (written, buf1, w1) \<Rightarrow>
                  Some (Some (Suc i, activity \<or> 0 < written),
                    c\<lparr>writeQueue := (writeQueue c)[i := buf1],
                      writeSpaceRemaining := writeSpaceRemaining c + written\<rparr>, w1)))"

text \<open>
  The next step of a thread, by the function it is in, with the callbacks it makes; \<open>None\<close>: it
  waits, or is in another function.
\<close>

text \<open>\<open>add\<close>; the check and the copy of the bytes are \<open>add_prepare\<close> of theory \<open>ClientBase\<close>.\<close>

fun add_step ::
  "('w, 'ip) os \<Rightarrow> 'ip thread_pc \<Rightarrow> 'ip ClientBase \<Rightarrow> 'w \<Rightarrow>
     ('ip thread_pc \<times> cb_event list \<times> 'ip ClientBase \<times> 'w) option"
where
  "add_step os (AddCheck data sz flags) c w =
     (case add_prepare os data sz flags c w of
        (None, w1) \<Rightarrow> Some (Ready, [], c, w1)
      | (Some (toSend, buf), w1) \<Rightarrow> Some (AddLock toSend buf, [], c, w1))"
| "add_step os (AddLock toSend buf) c w =
     (if writeMutex c then None else Some (AddPush toSend buf, [], c\<lparr>writeMutex := True\<rparr>, w))"
| "add_step os (AddPush toSend buf) c w =
     Some (AddTake toSend, [], c\<lparr>writeQueue := writeQueue c @ [buf]\<rparr>, w)"
| "add_step os (AddTake toSend) c w =
     Some (AddSignal, [], c\<lparr>writeSpaceRemaining := writeSpaceRemaining c - toSend\<rparr>, w)"
| "add_step os AddSignal c w = Some (AddUnlock, [], c\<lparr>ack_timeout_signaled := False\<rparr>, w)"
| "add_step os AddUnlock c w = Some (Ready, [], c\<lparr>writeMutex := False\<rparr>, w)"
| "add_step os pc c w = None"

text \<open>\<open>send\<close>.\<close>

fun send_step ::
  "('w, 'ip) os \<Rightarrow> 'ip thread_pc \<Rightarrow> 'ip ClientBase \<Rightarrow> 'w \<Rightarrow>
     ('ip thread_pc \<times> cb_event list \<times> 'ip ClientBase \<times> 'w) option"
where
  "send_step os SendCheck c w = Some (if connected c then SendSelect else Ready, [], c, w)"
| "send_step os SendSelect c w =
     (let (ready, w1) = select_w os (socket c) w
      in Some (if 0 < ready then SendLock else Ready, [], c, w1))"
| "send_step os SendLock c w =
     (if writeMutex c then None else Some (SendEmpty, [], c\<lparr>writeMutex := True\<rparr>, w))"
| "send_step os SendEmpty c w =
     Some (if writeQueue c \<noteq> [] then SendPass 0 False else SendUnlock, [], c, w)"
| "send_step os (SendPass i activity) c w =
     (case pass_step os i activity c w of
        None \<Rightarrow> None
      | Some (None, c1, w1) \<Rightarrow> Some (SendUnlock, [], c1, w1)
      | Some (Some (i1, activity1), c1, w1) \<Rightarrow> Some (SendPass i1 activity1, [], c1, w1))"
| "send_step os SendUnlock c w = Some (Ready, [], c\<lparr>writeMutex := False\<rparr>, w)"
| "send_step os pc c w = None"

text \<open>\<open>close\<close> and \<open>_close\<close>, which ends in \<open>_clearWriteQueue\<close>.\<close>

fun close_step ::
  "('w, 'ip) os \<Rightarrow> 'ip thread_pc \<Rightarrow> 'ip ClientBase \<Rightarrow> 'w \<Rightarrow>
     ('ip thread_pc \<times> cb_event list \<times> 'ip ClientBase \<times> 'w) option"
where
  "close_step os CloseCheck c w = Some (if isOpen c then CloseState else Ready, [], c, w)"
| "close_step os CloseState c w = Some (CloseSocket, [], c\<lparr>conn_state := DISCONNECTING\<rparr>, w)"
| "close_step os CloseSocket c w =
     Some (ClearLock, [], c\<lparr>socket := -1\<rparr>, sys_close os (socket c) w)"
| "close_step os pc c w = None"

text \<open>\<open>_clearWriteQueue\<close>.\<close>

fun clear_step ::
  "('w, 'ip) os \<Rightarrow> 'ip thread_pc \<Rightarrow> 'ip ClientBase \<Rightarrow> 'w \<Rightarrow>
     ('ip thread_pc \<times> cb_event list \<times> 'ip ClientBase \<times> 'w) option"
where
  "clear_step os ClearLock c w =
     (if writeMutex c then None else Some (ClearQueue, [], c\<lparr>writeMutex := True\<rparr>, w))"
| "clear_step os ClearQueue c w = Some (ClearSpace, [], c\<lparr>writeQueue := []\<rparr>, w)"
| "clear_step os ClearSpace c w =
     Some (ClearUnlock, [], c\<lparr>writeSpaceRemaining := INITIAL_WRITE_SPACE os\<rparr>, w)"
| "clear_step os ClearUnlock c w = Some (Ready, [], c\<lparr>writeMutex := False\<rparr>, w)"
| "clear_step os pc c w = None"

text \<open>\<open>connect\<close>.\<close>

fun connect_step ::
  "('w, 'ip) os \<Rightarrow> 'ip thread_pc \<Rightarrow> 'ip ClientBase \<Rightarrow> 'w \<Rightarrow>
     ('ip thread_pc \<times> cb_event list \<times> 'ip ClientBase \<times> 'w) option"
where
  "connect_step os (Connect ip port) c w =
     (let (ok, c1, w1) = connect_ip os ip port c w in Some (Ready, [], c1, w1))"
| "connect_step os pc c w = None"

text \<open>\<open>_sockIsWriteable\<close>.\<close>

fun event_step ::
  "('w, 'ip) os \<Rightarrow> 'ip thread_pc \<Rightarrow> 'ip ClientBase \<Rightarrow> 'w \<Rightarrow>
     ('ip thread_pc \<times> cb_event list \<times> 'ip ClientBase \<times> 'w) option"
where
  "event_step os EventCheck c w =
     Some (if conn_state c \<noteq> CONNECTED then EventError else EventLock, [], c, w)"
| "event_step os EventError c w =
     (let ((result, errno, socketError), w1) = getsockopt_error os (socket c) w
      in Some (if result < 0 then TellError errno
               else if socketError \<noteq> 0 then TellError socketError
               else EventConnected, [], c, w1))"
| "event_step os EventConnected c w = Some (EventMark, [], c\<lparr>conn_state := CONNECTED\<rparr>, w)"
| "event_step os EventMark c w =
     (let (now, w1) = steady_now os w
      in Some (EventLock, [EvConnect],
           c\<lparr>rx_last_packet := now, ack_timeout_signaled := False\<rparr>, w1))"
| "event_step os EventLock c w =
     (if writeMutex c then None else Some (EventEmpty, [], c\<lparr>writeMutex := True\<rparr>, w))"
| "event_step os EventEmpty c w =
     Some (if conn_state c = CONNECTED \<and> writeQueue c \<noteq> [] then EventPass 0 False else EventUnlock,
       [], c, w)"
| "event_step os (EventPass i activity) c w =
     (case pass_step os i activity c w of
        None \<Rightarrow> None
      | Some (None, c1, w1) \<Rightarrow> Some (ScanQueue, [], c1, w1)
      | Some (Some (i1, activity1), c1, w1) \<Rightarrow> Some (EventPass i1 activity1, [], c1, w1))"
| "event_step os EventUnlock c w = Some (Ready, [], c\<lparr>writeMutex := False\<rparr>, w)"
| "event_step os pc c w = None"

text \<open>\<open>_sockPoll\<close>, as far as the cleanup.\<close>

fun poll_step ::
  "('w, 'ip) os \<Rightarrow> 'ip thread_pc \<Rightarrow> 'ip ClientBase \<Rightarrow> 'w \<Rightarrow>
     ('ip thread_pc \<times> cb_event list \<times> 'ip ClientBase \<times> 'w) option"
where
  "poll_step os PollCheck c w = Some (if connected c then PollLock else Ready, [], c, w)"
| "poll_step os PollLock c w =
     (if writeMutex c then None else Some (ScanQueue, [], c\<lparr>writeMutex := True\<rparr>, w))"
| "poll_step os pc c w = None"

text \<open>\<open>_cleanupWriteQueue\<close>.\<close>

fun scan_step ::
  "('w, 'ip) os \<Rightarrow> 'ip thread_pc \<Rightarrow> 'ip ClientBase \<Rightarrow> 'w \<Rightarrow>
     ('ip thread_pc \<times> cb_event list \<times> 'ip ClientBase \<times> 'w) option"
where
  "scan_step os ScanQueue c w =
     (let (err, notifyQueue, rx, rest) = cleanup_scan (writeQueue c) (rx_last_packet c)
      in case err of
           Some code \<Rightarrow> Some (ScanUnlock (Some code) [], [], c\<lparr>rx_last_packet := rx\<rparr>, w)
         | None \<Rightarrow> Some (ScanUnlock None notifyQueue, [],
             c\<lparr>rx_last_packet := rx, writeQueue := rest\<rparr>, w))"
| "scan_step os (ScanUnlock err notifyQueue) c w =
     Some (case err of Some code \<Rightarrow> TellError code | None \<Rightarrow> TellSent notifyQueue, [],
       c\<lparr>writeMutex := False\<rparr>, w)"
| "scan_step os (TellSent notifyQueue) c w =
     Some (Ready, map (\<lambda>s. EvSent (ws_length s) (ws_delay s)) notifyQueue, c, w)"
| "scan_step os pc c w = None"

text \<open>\<open>_error\<close>.\<close>

fun error_step ::
  "('w, 'ip) os \<Rightarrow> 'ip thread_pc \<Rightarrow> 'ip ClientBase \<Rightarrow> 'w \<Rightarrow>
     ('ip thread_pc \<times> cb_event list \<times> 'ip ClientBase \<times> 'w) option"
where
  "error_step os (TellError code) c w = Some (CloseState, [EvError code], c, w)"
| "error_step os pc c w = None"

text \<open>\<open>_processingDone\<close>.\<close>

fun done_step ::
  "('w, 'ip) os \<Rightarrow> 'ip thread_pc \<Rightarrow> 'ip ClientBase \<Rightarrow> 'w \<Rightarrow>
     ('ip thread_pc \<times> cb_event list \<times> 'ip ClientBase \<times> 'w) option"
where
  "done_step os DoneCheck c w =
     Some (if conn_state c = DISCONNECTING then DoneState else Ready, [], c, w)"
| "done_step os DoneState c w =
     Some (Ready, [EvDisconnect], c\<lparr>conn_state := DISCONNECTED\<rparr>, w)"
| "done_step os pc c w = None"

text \<open>The step of the function the thread is in. A thread that is \<open>Ready\<close> has nothing to do.\<close>

fun first_of :: "'a option list \<Rightarrow> 'a option" where
  "first_of [] = None"
| "first_of (x # xs) = (case x of None \<Rightarrow> first_of xs | Some r \<Rightarrow> Some r)"

definition thread_step ::
  "('w, 'ip) os \<Rightarrow> 'ip thread_pc \<Rightarrow> 'ip ClientBase \<Rightarrow> 'w \<Rightarrow>
     ('ip thread_pc \<times> cb_event list \<times> 'ip ClientBase \<times> 'w) option"
where
  "thread_step os pc c w = first_of
     [add_step os pc c w, send_step os pc c w, close_step os pc c w, clear_step os pc c w,
      connect_step os pc c w, event_step os pc c w, poll_step os pc c w, scan_step os pc c w,
      error_step os pc c w, done_step os pc c w]"

text \<open>By the place a thread is at.\<close>

lemma thread_step_simps [simp]:
  "thread_step os Ready c w = None"
  "thread_step os (AddCheck data sz flags) c w = add_step os (AddCheck data sz flags) c w"
  "thread_step os (AddLock toSend buf) c w = add_step os (AddLock toSend buf) c w"
  "thread_step os (AddPush toSend buf) c w = add_step os (AddPush toSend buf) c w"
  "thread_step os (AddTake toSend) c w = add_step os (AddTake toSend) c w"
  "thread_step os AddSignal c w = add_step os AddSignal c w"
  "thread_step os AddUnlock c w = add_step os AddUnlock c w"
  "thread_step os SendCheck c w = send_step os SendCheck c w"
  "thread_step os SendSelect c w = send_step os SendSelect c w"
  "thread_step os SendLock c w = send_step os SendLock c w"
  "thread_step os SendEmpty c w = send_step os SendEmpty c w"
  "thread_step os (SendPass i activity) c w = send_step os (SendPass i activity) c w"
  "thread_step os SendUnlock c w = send_step os SendUnlock c w"
  "thread_step os CloseCheck c w = close_step os CloseCheck c w"
  "thread_step os CloseState c w = close_step os CloseState c w"
  "thread_step os CloseSocket c w = close_step os CloseSocket c w"
  "thread_step os ClearLock c w = clear_step os ClearLock c w"
  "thread_step os ClearQueue c w = clear_step os ClearQueue c w"
  "thread_step os ClearSpace c w = clear_step os ClearSpace c w"
  "thread_step os ClearUnlock c w = clear_step os ClearUnlock c w"
  "thread_step os (Connect ip port) c w = connect_step os (Connect ip port) c w"
  "thread_step os EventCheck c w = event_step os EventCheck c w"
  "thread_step os EventError c w = event_step os EventError c w"
  "thread_step os EventConnected c w = event_step os EventConnected c w"
  "thread_step os EventMark c w = event_step os EventMark c w"
  "thread_step os EventLock c w = event_step os EventLock c w"
  "thread_step os EventEmpty c w = event_step os EventEmpty c w"
  "thread_step os (EventPass i activity) c w = event_step os (EventPass i activity) c w"
  "thread_step os EventUnlock c w = event_step os EventUnlock c w"
  "thread_step os PollCheck c w = poll_step os PollCheck c w"
  "thread_step os PollLock c w = poll_step os PollLock c w"
  "thread_step os ScanQueue c w = scan_step os ScanQueue c w"
  "thread_step os (ScanUnlock err notifyQueue) c w = scan_step os (ScanUnlock err notifyQueue) c w"
  "thread_step os (TellSent notifyQueue) c w = scan_step os (TellSent notifyQueue) c w"
  "thread_step os (TellError code) c w = error_step os (TellError code) c w"
  "thread_step os DoneCheck c w = done_step os DoneCheck c w"
  "thread_step os DoneState c w = done_step os DoneState c w"
  by (simp_all add: thread_step_def split: option.splits prod.splits)

section \<open>All threads\<close>

record ('w, 'ip) threads =
  pcs :: "nat \<Rightarrow> 'ip thread_pc"
  object :: "'ip ClientBase"
  heard :: "cb_event list"
  outside :: 'w

text \<open>What a thread may begin: any call of the API, and thread 0 the worker's handlers as well.\<close>

fun may_begin :: "nat \<Rightarrow> 'ip thread_pc \<Rightarrow> bool" where
  "may_begin t (AddCheck data sz flags) = True"
| "may_begin t SendCheck = True"
| "may_begin t CloseCheck = True"
| "may_begin t (Connect ip port) = True"
| "may_begin t EventCheck = (t = 0)"
| "may_begin t PollCheck = (t = 0)"
| "may_begin t DoneCheck = (t = 0)"
| "may_begin t pc = False"

definition go_on :: "('w, 'ip) os \<Rightarrow> nat \<Rightarrow> ('w, 'ip) threads \<Rightarrow> ('w, 'ip) threads option" where
  "go_on os t s =
     (case thread_step os (pcs s t) (object s) (outside s) of
        None \<Rightarrow> None
      | Some (pc, evs, c, w) \<Rightarrow>
          Some \<lparr>pcs = (pcs s)(t := pc), object = c, heard = heard s @ evs, outside = w\<rparr>)"

definition start_at :: "nat \<Rightarrow> 'ip thread_pc \<Rightarrow> ('w, 'ip) threads \<Rightarrow> ('w, 'ip) threads" where
  "start_at t pc s = s\<lparr>pcs := (pcs s)(t := pc)\<rparr>"

inductive threads_step ::
  "(nat \<Rightarrow> 'ip thread_pc \<Rightarrow> bool) \<Rightarrow> ('w, 'ip) os \<Rightarrow> ('w, 'ip) threads \<Rightarrow> ('w, 'ip) threads \<Rightarrow> bool"
  for may :: "nat \<Rightarrow> 'ip thread_pc \<Rightarrow> bool" and os :: "('w, 'ip) os"
where
  step_begin: "pcs s t = Ready \<Longrightarrow> may_begin t pc \<Longrightarrow> may t pc \<Longrightarrow>
    threads_step may os s (start_at t pc s)"
| step_on: "go_on os t s = Some s1 \<Longrightarrow> threads_step may os s s1"

inductive_cases threads_stepE: "threads_step may os s s1"

text \<open>From a client no thread is using, in a state its invariant allows.\<close>

definition at_rest :: "'ip ClientBase \<Rightarrow> 'w \<Rightarrow> ('w, 'ip) threads" where
  "at_rest c w = \<lparr>pcs = (\<lambda>_. Ready), object = c, heard = [], outside = w\<rparr>"

inductive threads_reachable ::
  "(nat \<Rightarrow> 'ip thread_pc \<Rightarrow> bool) \<Rightarrow> ('w, 'ip) os \<Rightarrow> ('w, 'ip) threads \<Rightarrow> bool"
  for may :: "nat \<Rightarrow> 'ip thread_pc \<Rightarrow> bool" and os :: "('w, 'ip) os"
where
  threads_start: "client_inv os c \<Longrightarrow> threads_reachable may os (at_rest c w)"
| threads_next: "threads_reachable may os s \<Longrightarrow> threads_step may os s s1 \<Longrightarrow>
    threads_reachable may os s1"

fun is_ready :: "'ip thread_pc \<Rightarrow> bool" where
  "is_ready Ready = True"
| "is_ready pc = False"

lemma is_ready_iff: "is_ready pc \<longleftrightarrow> pc = Ready"
  by (cases pc) auto

text \<open>A given schedule: threads that begin something, and threads that go on.\<close>

datatype 'ip turn = Begin nat "'ip thread_pc" | Go nat

fun run_turns ::
  "('w, 'ip) os \<Rightarrow> 'ip turn list \<Rightarrow> ('w, 'ip) threads \<Rightarrow> ('w, 'ip) threads option"
where
  "run_turns os [] s = Some s"
| "run_turns os (Begin t pc # ts) s =
     (if is_ready (pcs s t) \<and> may_begin t pc then run_turns os ts (start_at t pc s) else None)"
| "run_turns os (Go t # ts) s =
     (case go_on os t s of None \<Rightarrow> None | Some s1 \<Rightarrow> run_turns os ts s1)"

lemma run_turns_reachable:
  assumes "run_turns os ts s = Some s1" and "threads_reachable may os s"
    and "\<And>t pc. Begin t pc \<in> set ts \<Longrightarrow> may t pc"
  shows "threads_reachable may os s1"
  using assms
proof (induction os ts s rule: run_turns.induct)
  case (2 os t pc ts s)
  from "2.prems"(1) have r: "is_ready (pcs s t)" "may_begin t pc" "run_turns os ts (start_at t pc s) = Some s1"
    by (simp_all split: if_splits)
  have "threads_step may os s (start_at t pc s)"
    using r(1,2) "2.prems"(3) by (simp add: is_ready_iff step_begin)
  with "2.IH" [OF conjI [OF r(1,2)] r(3) threads_next [OF "2.prems"(2) this]] "2.prems"(3)
  show ?case by simp
next
  case (3 os t ts s)
  from "3.prems"(1) obtain s2 where s2: "go_on os t s = Some s2" "run_turns os ts s2 = Some s1"
    by (simp split: option.splits)
  from "3.IH" [OF s2 threads_next [OF "3.prems"(2) step_on [OF s2(1)]]] "3.prems"(3) show ?case by simp
qed simp

end
