(* ===== verification/ClientThreadsInvariant.thy ===== *)
theory ClientThreadsInvariant
  imports ClientThreads
begin

text \<open>
  What every interleaving of the threads of theory \<open>ClientThreads\<close> keeps: the mutex of a
  client is held by exactly the thread that is between taking and releasing it, and whenever it
  is free the free space and the queued bytes add up, modulo \<open>2 ^ 32\<close>.
\<close>

section \<open>The account of the send buffer\<close>

abbreviation balanced :: "('w, 'ip) os \<Rightarrow> 'ip ClientBase \<Rightarrow> bool" where
  "balanced os c \<equiv>
     writeSpaceRemaining c + of_nat (queue_bytes (writeQueue c)) = INITIAL_WRITE_SPACE os"

text \<open>
  While a thread holds the mutex: \<open>add\<close> has queued bytes it has not subtracted yet, or
  \<open>_clearWriteQueue\<close> has emptied the queue and not reset the counter yet.
\<close>

fun balance :: "('w, 'ip) os \<Rightarrow> 'ip thread_pc \<Rightarrow> 'ip ClientBase \<Rightarrow> bool" where
  "balance os (AddTake n) c \<longleftrightarrow>
     writeSpaceRemaining c + of_nat (queue_bytes (writeQueue c)) = INITIAL_WRITE_SPACE os + n"
| "balance os ClearSpace c \<longleftrightarrow> writeQueue c = []"
| "balance os pc c \<longleftrightarrow> balanced os c"

fun pending_ok :: "'ip thread_pc \<Rightarrow> bool" where
  "pending_ok (AddLock n b) \<longleftrightarrow> buf_ok b \<and> remaining b = unat n"
| "pending_ok (AddPush n b) \<longleftrightarrow> buf_ok b \<and> remaining b = unat n"
| "pending_ok pc \<longleftrightarrow> True"

definition same_account :: "'ip ClientBase \<Rightarrow> 'ip ClientBase \<Rightarrow> bool" where
  "same_account c c1 \<longleftrightarrow> writeMutex c1 = writeMutex c \<and> writeQueue c1 = writeQueue c \<and>
     writeSpaceRemaining c1 = writeSpaceRemaining c"

lemma same_account_refl [simp]: "same_account c c"
  by (simp add: same_account_def)

lemma connect_same_account: "connect_ip os ip port c w = (ok, c1, w1) \<Longrightarrow> same_account c c1"
  by (auto simp: connect_ip_def configureSocket_def same_account_def Let_def
      split: prod.splits if_splits)

lemma queue_bytes_update:
  "i < length q \<Longrightarrow> queue_bytes (q[i := b]) + remaining (q ! i) = queue_bytes q + remaining b"
proof (induction q arbitrary: i)
  case (Cons a q)
  then show ?case by (cases i) auto
qed simp

text \<open>One entry of a pass moves its written bytes from the queue to the free space.\<close>

definition queue_ok :: "'ip ClientBase \<Rightarrow> bool" where
  "queue_ok c \<longleftrightarrow> (\<forall>b \<in> set (writeQueue c). buf_ok b)"

lemma pass_step_keeps:
  assumes "write_sound os" and "queue_ok c" and "pass_step os i a c w = Some (r, c1, w1)"
  shows "queue_ok c1 \<and> writeMutex c1 = writeMutex c \<and>
    queue_bytes (writeQueue c1) \<le> queue_bytes (writeQueue c) \<and>
    writeSpaceRemaining c1 + of_nat (queue_bytes (writeQueue c1)) =
      writeSpaceRemaining c + of_nat (queue_bytes (writeQueue c))"
proof (cases "length (writeQueue c) \<le> i \<or> hasError (writeQueue c ! i) \<or> isFullyWritten (writeQueue c ! i)")
  case True
  with assms show ?thesis by (auto simp: pass_step_def Let_def split: if_splits)
next
  case False
  let ?b = "writeQueue c ! i"
  from False have i: "i < length (writeQueue c)" by simp
  with assms(2) have b: "buf_ok ?b" by (simp add: queue_ok_def)
  from wqb.wr_counts [OF assms(1) b, of "socket c" w] False obtain n b1 w2 where
    w: "write_buffer os ?b (socket c) w = Some (n, b1, w2)" and b1: "buf_ok b1"
    and n: "unat n + remaining b1 = remaining ?b" by auto
  have c1: "c1 = c\<lparr>writeQueue := (writeQueue c)[i := b1],
      writeSpaceRemaining := writeSpaceRemaining c + n\<rparr>"
    using assms(3) False w by (auto simp: pass_step_def Let_def)
  have sum: "queue_bytes ((writeQueue c)[i := b1]) + unat n = queue_bytes (writeQueue c)"
    using queue_bytes_update [OF i, of b1] n by simp
  then have "(of_nat (queue_bytes ((writeQueue c)[i := b1])) + n :: size_t) = of_nat (queue_bytes (writeQueue c))"
    by (simp flip: sum)
  then have "writeSpaceRemaining c + n + of_nat (queue_bytes ((writeQueue c)[i := b1])) =
      writeSpaceRemaining c + of_nat (queue_bytes (writeQueue c))" by (simp add: algebra_simps)
  moreover have "queue_ok c1"
    using assms(2) b1 set_update_subset_insert [of "writeQueue c" i b1] by (auto simp: queue_ok_def c1)
  ultimately show ?thesis using sum by (simp add: c1)
qed

section \<open>One step of one thread\<close>

text \<open>
  What a step does to the mutex and the account, by where the thread is before and after it:
  outside the mutex it touches neither; it takes the mutex only when it is free.
\<close>

definition step_ok ::
  "('w, 'ip) os \<Rightarrow> 'ip thread_pc \<Rightarrow> 'ip ClientBase \<Rightarrow> 'ip thread_pc \<Rightarrow> 'ip ClientBase \<Rightarrow> bool"
where
  "step_ok os pc c pc1 c1 \<longleftrightarrow>
     (if holding pc
      then (if holding pc1 then writeMutex c1 = writeMutex c \<and> balance os pc1 c1
            else \<not> writeMutex c1 \<and> balanced os c1)
      else (if holding pc1
            then \<not> writeMutex c \<and> writeMutex c1 \<and> balance os pc1 c1 \<and>
              writeSpaceRemaining c1 = writeSpaceRemaining c
            else same_account c c1)) \<and>
     queue_ok c1 \<and> pending_ok pc1"

lemma queue_ok_fields [simp]:
  "queue_ok (c\<lparr>writeMutex := b\<rparr>) = queue_ok c"
  "queue_ok (c\<lparr>writeSpaceRemaining := n\<rparr>) = queue_ok c"
  "queue_ok (c\<lparr>ack_timeout_signaled := b\<rparr>) = queue_ok c"
  "queue_ok (c\<lparr>rx_last_packet := t\<rparr>) = queue_ok c"
  "queue_ok (c\<lparr>conn_state := st\<rparr>) = queue_ok c"
  "queue_ok (c\<lparr>socket := fd\<rparr>) = queue_ok c"
  "queue_ok (c\<lparr>writeQueue := []\<rparr>)"
  "queue_ok (c\<lparr>writeQueue := writeQueue c @ [b1]\<rparr>) = (queue_ok c \<and> buf_ok b1)"
  by (auto simp: queue_ok_def)

lemma same_account_queue: "same_account c c1 \<Longrightarrow> queue_ok c1 = queue_ok c"
  by (simp add: same_account_def queue_ok_def)

lemma thread_step_ok:
  assumes "write_sound os" and "thread_step os pc c w = Some (pc1, evs, c1, w1)"
    and "queue_ok c" and "pending_ok pc" and "holding pc \<Longrightarrow> balance os pc c"
    and "\<not> writeMutex c \<Longrightarrow> balanced os c"
  shows "step_ok os pc c pc1 c1"
proof (cases pc)
  case (AddCheck data sz flags)
  obtain r w2 where r: "add_prepare os data sz flags c w = (r, w2)" by fastforce
  show ?thesis
  proof (cases r)
    case None
    with AddCheck r assms(2,3) show ?thesis by (simp add: step_ok_def)
  next
    case (Some x)
    obtain n b where "x = (n, b)" by fastforce
    with Some r have p: "add_prepare os data sz flags c w = (Some (n, b), w2)" by simp
    with AddCheck assms(2,3) add_prepare_Some(6,7) [OF p] show ?thesis by (auto simp: step_ok_def)
  qed
next
  case (AddPush n b)
  with assms have "of_nat (remaining b) = n" by simp
  with AddPush assms show ?thesis by (auto simp: step_ok_def algebra_simps)
next
  case (AddTake n)
  with assms show ?thesis by (auto simp: step_ok_def algebra_simps)
next
  case (SendPass i a)
  with assms(2) obtain r where r: "pass_step os i a c w = Some (r, c1, w1)"
    and pc1: "pc1 = (case r of None \<Rightarrow> SendUnlock | Some (i1, a1) \<Rightarrow> SendPass i1 a1)"
    by (auto split: option.splits)
  with SendPass assms(5) pass_step_keeps [OF assms(1,3) r] show ?thesis
    by (simp add: step_ok_def split: option.splits prod.splits)
next
  case (EventPass i a)
  with assms(2) obtain r where r: "pass_step os i a c w = Some (r, c1, w1)"
    and pc1: "pc1 = (case r of None \<Rightarrow> ScanQueue | Some (i1, a1) \<Rightarrow> EventPass i1 a1)"
    by (auto split: option.splits)
  with EventPass assms(5) pass_step_keeps [OF assms(1,3) r] show ?thesis
    by (simp add: step_ok_def split: option.splits prod.splits)
next
  case (Connect ip port)
  with assms(2) obtain ok where "connect_ip os ip port c w = (ok, c1, w1)" and "pc1 = Ready"
    by (auto simp: Let_def split: prod.splits)
  from connect_same_account [OF this(1)] Connect this(2) assms(3) show ?thesis
    by (simp add: step_ok_def same_account_queue)
next
  case ScanQueue
  obtain e ss rx rest where s: "cleanup_scan (writeQueue c) (rx_last_packet c) = (e, ss, rx, rest)"
    by (metis surj_pair)
  from cleanup_scan_rest [OF s] ScanQueue assms s show ?thesis
    by (auto simp: step_ok_def queue_ok_def split: option.splits)
qed (use assms in \<open>auto simp: step_ok_def same_account_def Let_def
    split: if_splits option.splits prod.splits\<close>)

section \<open>Every interleaving\<close>

definition holders_ok :: "('w, 'ip) os \<Rightarrow> (nat \<Rightarrow> 'ip thread_pc) \<Rightarrow> 'ip ClientBase \<Rightarrow> bool" where
  "holders_ok os at c \<longleftrightarrow>
     (\<forall>t. holding (at t) \<longrightarrow> writeMutex c \<and> balance os (at t) c \<and>
        (\<forall>u. holding (at u) \<longrightarrow> u = t)) \<and>
     (writeMutex c \<longrightarrow> (\<exists>t. holding (at t))) \<and>
     (\<not> writeMutex c \<longrightarrow> balanced os c)"

definition threads_inv :: "('w, 'ip) os \<Rightarrow> ('w, 'ip) threads \<Rightarrow> bool" where
  "threads_inv os s \<longleftrightarrow> queue_ok (object s) \<and> (\<forall>t. pending_ok (pcs s t)) \<and>
     holders_ok os (pcs s) (object s)"

lemma threads_inv_holder:
  "threads_inv os s \<Longrightarrow> holding (pcs s t) \<Longrightarrow>
     writeMutex (object s) \<and> balance os (pcs s t) (object s) \<and> (\<forall>u. holding (pcs s u) \<longrightarrow> u = t)"
  by (simp add: threads_inv_def holders_ok_def)

lemma at_rest_inv: "client_inv os c \<Longrightarrow> threads_inv os (at_rest c w)"
proof -
  assume c: "client_inv os c"
  then have "unat (writeSpaceRemaining c) + queue_bytes (writeQueue c) = unat (INITIAL_WRITE_SPACE os)"
    by (simp add: client_inv_defs)
  then have "balanced os c" by (metis of_nat_add of_nat_unat ucast_id)
  with c show ?thesis
    by (simp add: threads_inv_def holders_ok_def at_rest_def queue_ok_def client_inv_defs)
qed

lemma may_begin_outside: "may_begin t pc \<Longrightarrow> \<not> holding pc \<and> pending_ok pc"
  by (cases pc) auto

text \<open>A thread moves while it is outside the mutex before and after: nothing changes for the others.\<close>

lemma holders_move_outside:
  assumes "holders_ok os at c" and "\<not> holding (at t)" and "\<not> holding pc" and "same_account c c1"
  shows "holders_ok os (at(t := pc)) c1"
proof -
  have h: "holding ((at(t := pc)) u) \<longleftrightarrow> holding (at u)" for u using assms(2,3) by simp
  have same: "(at(t := pc)) u = at u" if "holding (at u)" for u using that assms(2) by auto
  have b: "balance os pc c1 = balance os pc c" for pc
    using assms(4) by (cases pc) (simp_all add: same_account_def)
  have "balance os ((at(t := pc)) u) c1" if "holding (at u)" for u
    using that assms(1) same [OF that] b [of "at u"] by (simp only: holders_ok_def)
  then show ?thesis
    using assms(1,4) b [of Ready]
    unfolding holders_ok_def h same_account_def by (simp del: fun_upd_apply)
qed

lemma holders_take:
  assumes "holders_ok os at c" and "\<not> writeMutex c" and "holding pc" and "writeMutex c1"
    and "balance os pc c1"
  shows "holders_ok os (at(t := pc)) c1"
proof -
  have "\<not> holding (at u)" for u using assms(1,2) by (auto simp: holders_ok_def)
  then have "holding ((at(t := pc)) u) \<longleftrightarrow> u = t" for u using assms(3) by simp
  with assms(4,5) show ?thesis by (simp add: holders_ok_def)
qed

lemma holders_keep:
  assumes "holders_ok os at c" and "holding (at t)" and "holding pc"
    and "writeMutex c1 = writeMutex c" and "balance os pc c1"
  shows "holders_ok os (at(t := pc)) c1"
proof -
  have m: "writeMutex c" and "\<And>u. holding (at u) \<Longrightarrow> u = t"
    using assms(1,2) by (auto simp: holders_ok_def)
  then have "holding ((at(t := pc)) u) \<longleftrightarrow> u = t" for u using assms(3) by auto
  with m assms(4,5) show ?thesis by (simp add: holders_ok_def)
qed

lemma holders_release:
  assumes "holders_ok os at c" and "holding (at t)" and "\<not> holding pc"
    and "\<not> writeMutex c1" and "balanced os c1"
  shows "holders_ok os (at(t := pc)) c1"
proof -
  have "\<And>u. holding (at u) \<Longrightarrow> u = t" using assms(1,2) by (auto simp: holders_ok_def)
  then have "\<not> holding ((at(t := pc)) u)" for u using assms(3) by auto
  with assms(4,5) show ?thesis by (simp add: holders_ok_def)
qed

lemma start_at_inv:
  assumes "threads_inv os s" and "pcs s t = Ready" and "may_begin t pc"
  shows "threads_inv os (start_at t pc s)"
  using assms holders_move_outside [of os "pcs s" "object s" t pc "object s"] may_begin_outside [OF assms(3)]
  by (simp add: threads_inv_def start_at_def)

lemma go_on_inv:
  assumes "write_sound os" and "threads_inv os s" and "go_on os t s = Some s1"
  shows "threads_inv os s1"
proof -
  let ?pc = "pcs s t" and ?c = "object s"
  from assms(3) obtain pc1 evs c1 w1 where
    step: "thread_step os ?pc ?c (outside s) = Some (pc1, evs, c1, w1)"
    and s1: "pcs s1 = (pcs s)(t := pc1)" "object s1 = c1"
    by (auto simp: go_on_def split: option.splits)
  have q: "queue_ok ?c" "pending_ok ?pc" and h: "holders_ok os (pcs s) ?c"
    using assms(2) by (simp_all add: threads_inv_def)
  have ok: "step_ok os ?pc ?c pc1 c1"
    by (rule thread_step_ok [OF assms(1) step q]) (use h in \<open>simp_all add: holders_ok_def\<close>)
  have "holders_ok os ((pcs s)(t := pc1)) c1"
    using ok holders_move_outside [OF h] holders_take [OF h] holders_keep [OF h] holders_release [OF h]
    by (cases "holding ?pc"; cases "holding pc1") (simp_all add: step_ok_def)
  moreover have "pending_ok pc1" "queue_ok c1" using ok by (simp_all add: step_ok_def)
  ultimately show ?thesis using assms(2) by (simp add: threads_inv_def s1)
qed

lemma threads_step_inv:
  assumes "write_sound os" and "threads_inv os s" and "threads_step may os s s1"
  shows "threads_inv os s1"
  using assms(3)
proof (rule threads_stepE)
  fix t pc assume "pcs s t = Ready" "may_begin t pc" "s1 = start_at t pc s"
  with start_at_inv [OF assms(2)] show ?thesis by blast
next
  fix t assume "go_on os t s = Some s1"
  with go_on_inv [OF assms(1,2)] show ?thesis by blast
qed

lemma threads_reachable_inv:
  "threads_reachable may os s \<Longrightarrow> write_sound os \<Longrightarrow> threads_inv os s"
proof (induction rule: threads_reachable.induct)
  case (threads_start c w)
  then show ?case by (simp add: at_rest_inv)
next
  case (threads_next s s1)
  with threads_step_inv show ?case by blast
qed

end
