(* ===== verification/ClientThreadsProperties.thy ===== *)
theory ClientThreadsProperties
  imports ClientThreadsInvariant
begin

text \<open>
  What holds of one client under every interleaving of the threads that use it, and the runs
  that show what does not.
\<close>

section \<open>Runs of the sample platform\<close>

abbreviation gos :: "nat \<Rightarrow> nat \<Rightarrow> 'ip turn list" where
  "gos n t \<equiv> replicate n (Go t)"

abbreviation sample_rest :: "nat list \<Rightarrow> (sample_world, u32) threads" where
  "sample_rest ks \<equiv> at_rest (listening CONNECTED 50) (sample_start ks)"

lemma sample_rest_start: "threads_reachable may (sample_os True) (sample_rest ks)"
  by (rule threads_start)
    (simp add: client_inv_defs isOpen_def INITIAL_WRITE_SPACE_def sample_os_def)

lemma sample_run_reachable:
  assumes "run_turns (sample_os True) ts (sample_rest ks) = Some s"
  shows "threads_reachable (\<lambda>t pc. True) (sample_os True) s"
  by (rule run_turns_reachable [OF assms sample_rest_start]) simp

section \<open>The mutex and the account\<close>

text \<open>
  C7: for any number of threads interleaved between the statements of their calls: at most one
  thread is between taking and releasing the write mutex, the mutex is taken exactly while one
  is, and whenever it is free the free-space counter and the bytes queued add up to the initial
  space modulo \<open>2 ^ 32\<close>: no update of the counter is ever lost.
\<close>

theorem threads_account:
  assumes "write_sound os" and "threads_reachable may os s"
  shows "(\<forall>t u. holding (pcs s t) \<and> holding (pcs s u) \<longrightarrow> t = u) \<and>
    (writeMutex (object s) \<longleftrightarrow> (\<exists>t. holding (pcs s t))) \<and>
    (\<not> writeMutex (object s) \<longrightarrow>
       writeSpaceRemaining (object s) + of_nat (queue_bytes (writeQueue (object s))) =
         INITIAL_WRITE_SPACE os)"
proof -
  have "holders_ok os (pcs s) (object s)"
    using threads_reachable_inv [OF assms(2,1)] by (simp add: threads_inv_def)
  then show ?thesis unfolding holders_ok_def by blast
qed

theorem threads_account_witness:
  "\<exists>s. run_turns (sample_os True) [Begin 1 SendCheck, Go 1, Go 1, Go 1] (sample_rest []) = Some s \<and>
    holding (pcs s 1) \<and> writeMutex (object s) \<and> \<not> holding (pcs s 0)"
proof -
  let ?r = "run_turns (sample_os True) [Begin 1 SendCheck, Go 1, Go 1, Go 1] (sample_rest [])"
  have "case ?r of None \<Rightarrow> False | Some s \<Rightarrow> holding (pcs s 1)" by code_simp
  then obtain s where s: "?r = Some s" "holding (pcs s 1)" by (auto split: option.splits)
  from threads_account [OF sample_write_sound sample_run_reachable [OF s(1)]] s show ?thesis
    by (metis zero_neq_one)
qed

section \<open>Threads get on\<close>

text \<open>The steps a thread has still to take before it releases the mutex.\<close>

fun steps_left :: "'ip thread_pc \<Rightarrow> 'ip ClientBase \<Rightarrow> nat" where
  "steps_left (AddPush n b) c = 4"
| "steps_left (AddTake n) c = 3"
| "steps_left AddSignal c = 2"
| "steps_left AddUnlock c = 1"
| "steps_left SendEmpty c = length (writeQueue c) + 5"
| "steps_left (SendPass i a) c = (length (writeQueue c) - i) + 4"
| "steps_left SendUnlock c = 1"
| "steps_left ClearQueue c = 3"
| "steps_left ClearSpace c = 2"
| "steps_left ClearUnlock c = 1"
| "steps_left EventEmpty c = length (writeQueue c) + 5"
| "steps_left (EventPass i a) c = (length (writeQueue c) - i) + 4"
| "steps_left EventUnlock c = 1"
| "steps_left ScanQueue c = 2"
| "steps_left (ScanUnlock e ss) c = 1"
| "steps_left pc c = 0"

lemma pass_step_returns:
  assumes "write_sound os" and "queue_ok c"
  shows "\<exists>r c1 w1. pass_step os i a c w = Some (r, c1, w1) \<and>
    (case r of None \<Rightarrow> True | Some (i1, a1) \<Rightarrow> i < length (writeQueue c) \<and> i1 = Suc i \<and>
       length (writeQueue c1) = length (writeQueue c))"
proof (cases "length (writeQueue c) \<le> i \<or> hasError (writeQueue c ! i) \<or> isFullyWritten (writeQueue c ! i)")
  case True
  then show ?thesis by (auto simp: pass_step_def Let_def)
next
  case False
  then have "buf_ok (writeQueue c ! i)" using assms(2) by (simp add: queue_ok_def)
  from wqb.wr_counts [OF assms(1) this, of "socket c" w] False show ?thesis
    by (auto simp: pass_step_def Let_def)
qed

lemma holder_steps:
  assumes "write_sound os" and "queue_ok c" and "holding pc"
  shows "\<exists>pc1 evs c1 w1. thread_step os pc c w = Some (pc1, evs, c1, w1) \<and>
    (holding pc1 \<longrightarrow> steps_left pc1 c1 < steps_left pc c)"
proof (cases pc)
  case (SendPass i a)
  from pass_step_returns [OF assms(1,2), of i a w] obtain r c1 w1 where
    "pass_step os i a c w = Some (r, c1, w1)" "case r of None \<Rightarrow> True
      | Some (i1, a1) \<Rightarrow> i < length (writeQueue c) \<and> i1 = Suc i \<and> length (writeQueue c1) = length (writeQueue c)"
    by blast
  with SendPass show ?thesis by (cases r) auto
next
  case (EventPass i a)
  from pass_step_returns [OF assms(1,2), of i a w] obtain r c1 w1 where
    "pass_step os i a c w = Some (r, c1, w1)" "case r of None \<Rightarrow> True
      | Some (i1, a1) \<Rightarrow> i < length (writeQueue c) \<and> i1 = Suc i \<and> length (writeQueue c1) = length (writeQueue c)"
    by blast
  with EventPass show ?thesis by (cases r) auto
next
  case ScanQueue
  obtain e ss rx rest where "cleanup_scan (writeQueue c) (rx_last_packet c) = (e, ss, rx, rest)"
    by (metis surj_pair)
  with ScanQueue show ?thesis by (cases e) auto
qed (use assms(3) in \<open>auto split: option.splits\<close>)

text \<open>A thread outside the mutex only ever waits for it.\<close>

lemma outside_steps:
  assumes "pc \<noteq> Ready" and "\<not> holding pc" and "\<not> writeMutex c"
  shows "\<exists>x. thread_step os pc c w = Some x"
  using assms by (cases pc) (auto simp: Let_def split: prod.splits option.splits)

fun go_on_n :: "('w, 'ip) os \<Rightarrow> nat \<Rightarrow> nat \<Rightarrow> ('w, 'ip) threads \<Rightarrow> ('w, 'ip) threads option" where
  "go_on_n os t 0 s = Some s"
| "go_on_n os t (Suc n) s = (case go_on os t s of None \<Rightarrow> None | Some s1 \<Rightarrow> go_on_n os t n s1)"

lemma holder_releases:
  assumes "write_sound os"
  shows "threads_inv os s \<Longrightarrow> holding (pcs s t) \<Longrightarrow>
    \<exists>n s1. go_on_n os t n s = Some s1 \<and> \<not> writeMutex (object s1) \<and>
      n \<le> steps_left (pcs s t) (object s)"
proof (induction "steps_left (pcs s t) (object s)" arbitrary: s rule: less_induct)
  case less
  have "queue_ok (object s)" using less.prems(1) by (simp add: threads_inv_def)
  from holder_steps [OF assms this less.prems(2), of "outside s"] obtain pc1 evs c1 w1 where
    step: "thread_step os (pcs s t) (object s) (outside s) = Some (pc1, evs, c1, w1)"
    and left: "holding pc1 \<longrightarrow> steps_left pc1 c1 < steps_left (pcs s t) (object s)" by blast
  define s1 where "s1 = \<lparr>pcs = (pcs s)(t := pc1), object = c1, heard = heard s @ evs, outside = w1\<rparr>"
  have go: "go_on os t s = Some s1" by (simp add: go_on_def step s1_def)
  from go_on_inv [OF assms less.prems(1) go] have inv: "threads_inv os s1" .
  show ?case
  proof (cases "holding pc1")
    case True
    with left have "steps_left (pcs s1 t) (object s1) < steps_left (pcs s t) (object s)"
      by (simp add: s1_def)
    from less.hyps [OF this inv] True obtain n s2 where
      "go_on_n os t n s1 = Some s2" "\<not> writeMutex (object s2)" "n \<le> steps_left (pcs s1 t) (object s1)"
      by (auto simp: s1_def)
    with go \<open>steps_left (pcs s1 t) (object s1) < _\<close> show ?thesis
      by (intro exI [of _ "Suc n"] exI [of _ s2]) simp
  next
    case False
    have "\<not> holding (pcs s1 u)" for u
      using False threads_inv_holder [OF less.prems(1,2)] by (auto simp: s1_def)
    then have "\<not> writeMutex (object s1)" using inv by (simp add: threads_inv_def holders_ok_def)
    moreover have "0 < steps_left (pcs s t) (object s)" using less.prems(2) by (cases "pcs s t") auto
    ultimately show ?thesis using go by (intro exI [of _ 1] exI [of _ s1]) simp
  qed
qed

text \<open>
  C9: no deadlock, and no thread keeps the mutex: in every reachable state a thread that has
  something to do either can take its next step, or waits for the mutex, and then the thread
  that holds it reaches its release by itself, in at most as many steps as the queue has entries
  and five more.
\<close>

theorem threads_progress:
  assumes "write_sound os" and "threads_reachable may os s" and "pcs s t \<noteq> Ready"
  shows "(\<exists>s1. go_on os t s = Some s1) \<or>
    (\<exists>u n s1. holding (pcs s u) \<and> go_on_n os u n s = Some s1 \<and> \<not> writeMutex (object s1) \<and>
       n \<le> length (writeQueue (object s)) + 5)"
proof -
  have inv: "threads_inv os s" by (rule threads_reachable_inv [OF assms(2,1)])
  show ?thesis
  proof (cases "writeMutex (object s)")
    case True
    with inv obtain u where u: "holding (pcs s u)" by (auto simp: threads_inv_def holders_ok_def)
    have "steps_left (pcs s u) (object s) \<le> length (writeQueue (object s)) + 5"
      by (cases "pcs s u") auto
    with holder_releases [OF assms(1) inv u] u show ?thesis by (meson le_trans)
  next
    case False
    with inv have "\<not> holding (pcs s t)" by (auto simp: threads_inv_def holders_ok_def)
    from outside_steps [OF assms(3) this False, of os "outside s"] show ?thesis
      by (auto simp: go_on_def)
  qed
qed

theorem threads_progress_witness:
  "\<exists>s. run_turns (sample_os True) ([Begin 1 SendCheck] @ gos 3 1 @ [Begin 2 CloseCheck] @ gos 3 2)
      (sample_rest []) = Some s \<and> go_on (sample_os True) 2 s = None \<and>
    (\<exists>u n s1. holding (pcs s u) \<and> go_on_n (sample_os True) u n s = Some s1 \<and>
       \<not> writeMutex (object s1) \<and> n \<le> length (writeQueue (object s)) + 5)"
proof -
  let ?r = "run_turns (sample_os True) ([Begin 1 SendCheck] @ gos 3 1 @ [Begin 2 CloseCheck] @ gos 3 2)
      (sample_rest [])"
  have "case ?r of None \<Rightarrow> False
    | Some s \<Rightarrow> \<not> is_ready (pcs s 2) \<and> (case go_on (sample_os True) 2 s of None \<Rightarrow> True | Some x \<Rightarrow> False)"
    by code_simp
  then obtain s where s: "?r = Some s" "pcs s 2 \<noteq> Ready" "go_on (sample_os True) 2 s = None"
    by (auto simp: is_ready_iff split: option.splits)
  from threads_progress [OF sample_write_sound sample_run_reachable [OF s(1)] s(2)] s show ?thesis by auto
qed

section \<open>One thread that adds\<close>

fun adding :: "'ip thread_pc \<Rightarrow> bool" where
  "adding (AddCheck data sz flags) = True"
| "adding (AddLock n b) = True"
| "adding (AddPush n b) = True"
| "adding (AddTake n) = True"
| "adding pc = False"

text \<open>The bytes a thread is about to queue.\<close>

fun claimed :: "'ip thread_pc \<Rightarrow> nat" where
  "claimed (AddLock n b) = unat n"
| "claimed (AddPush n b) = unat n"
| "claimed pc = 0"

lemma balanced_space:
  assumes "balanced os c" and "queue_bytes (writeQueue c) \<le> unat (INITIAL_WRITE_SPACE os)"
  shows "unat (writeSpaceRemaining c) + queue_bytes (writeQueue c) = unat (INITIAL_WRITE_SPACE os)"
proof -
  let ?q = "of_nat (queue_bytes (writeQueue c)) :: size_t"
  have "unat (INITIAL_WRITE_SPACE os) < 2 ^ LENGTH(32)" by (rule unsigned_less)
  with assms(2) have q: "unat ?q = queue_bytes (writeQueue c)"
    by (simp add: unsigned_of_nat take_bit_nat_eq_self)
  have "writeSpaceRemaining c = INITIAL_WRITE_SPACE os - ?q"
    using assms(1) by (metis add_diff_cancel_right')
  moreover have "?q \<le> INITIAL_WRITE_SPACE os" using assms(2) q by (simp add: word_le_nat_alt)
  ultimately show ?thesis using q assms(2) by (simp add: unat_minus_le)
qed

definition bounded :: "('w, 'ip) os \<Rightarrow> nat \<Rightarrow> ('w, 'ip) threads \<Rightarrow> bool" where
  "bounded os a s \<longleftrightarrow>
     (\<forall>t. adding (pcs s t) \<longrightarrow> t = a) \<and>
     queue_bytes (writeQueue (object s)) + claimed (pcs s a) \<le> unat (INITIAL_WRITE_SPACE os) \<and>
     writeSpaceRemaining (object s) \<le> INITIAL_WRITE_SPACE os"

text \<open>What the free space is worth to a thread that looks at it without the mutex.\<close>

lemma space_seen:
  assumes "threads_inv os s" and "bounded os a s" and "claimed (pcs s a) = 0"
    and "\<And>n. pcs s a \<noteq> AddTake n"
  shows "queue_bytes (writeQueue (object s)) + unat (writeSpaceRemaining (object s))
    \<le> unat (INITIAL_WRITE_SPACE os)"
proof -
  let ?c = "object s"
  have q: "queue_bytes (writeQueue ?c) \<le> unat (INITIAL_WRITE_SPACE os)"
    and le: "unat (writeSpaceRemaining ?c) \<le> unat (INITIAL_WRITE_SPACE os)"
    using assms(2,3) by (simp_all add: bounded_def word_le_nat_alt)
  show ?thesis
  proof (cases "balanced os ?c")
    case True
    from balanced_space [OF this q] show ?thesis by simp
  next
    case False
    with assms(1) obtain u where u: "holding (pcs s u)" "balance os (pcs s u) ?c"
      by (auto simp: threads_inv_def holders_ok_def)
    have "pcs s u \<noteq> AddTake n" for n
    proof
      assume add: "pcs s u = AddTake n"
      then have "u = a" using assms(2) by (auto simp: bounded_def)
      with add assms(4) show False by blast
    qed
    with u False have "pcs s u = ClearSpace" by (cases "pcs s u") auto
    with u le show ?thesis by simp
  qed
qed

text \<open>A step claims no more than it saw, and queues no more than it claimed.\<close>

lemma step_claims:
  assumes "write_sound os" and "queue_ok c" and "pending_ok pc"
    and "thread_step os pc c w = Some (pc1, evs, c1, w1)"
  shows "queue_bytes (writeQueue c1) + claimed pc1 \<le> queue_bytes (writeQueue c) + claimed pc \<or>
      (\<exists>data sz flags. pc = AddCheck data sz flags) \<and> writeQueue c1 = writeQueue c \<and>
      claimed pc1 \<le> unat (writeSpaceRemaining c)"
    and "adding pc1 \<longrightarrow> adding pc"
proof -
  have pass: "queue_bytes (writeQueue c2) \<le> queue_bytes (writeQueue c)"
    if "pass_step os i a c w = Some (r, c2, w2)" for i a r c2 w2
    using pass_step_keeps [OF assms(1,2) that] by simp
  have scan: "queue_bytes rest = queue_bytes (writeQueue c)"
    if "cleanup_scan (writeQueue c) (rx_last_packet c) = (e, ss, rx, rest)" for e ss rx rest
    by (rule cleanup_scan_rest [OF that])
  have conn: "writeQueue c2 = writeQueue c" if "connect_ip os ip port c w = (ok, c2, w2)" for ip port ok c2 w2
    using connect_same_account [OF that] by (simp add: same_account_def)
  show "queue_bytes (writeQueue c1) + claimed pc1 \<le> queue_bytes (writeQueue c) + claimed pc \<or>
      (\<exists>data sz flags. pc = AddCheck data sz flags) \<and> writeQueue c1 = writeQueue c \<and>
      claimed pc1 \<le> unat (writeSpaceRemaining c)"
  proof (cases "\<exists>data sz flags. pc = AddCheck data sz flags")
    case True
    then obtain data sz flags where pc: "pc = AddCheck data sz flags" by blast
    obtain r w2 where r: "add_prepare os data sz flags c w = (r, w2)" by fastforce
    have "unat n \<le> unat (writeSpaceRemaining c)" if "r = Some (n, b)" for n b
      using add_prepare_Some(5) [of os data sz flags c w n b w2] r that by (simp add: word_le_nat_alt)
    with assms(4) r show ?thesis by (cases r) (auto simp: pc)
  next
    case False
    with assms(3,4) show ?thesis
      by (cases pc) (auto simp: Let_def pass scan conn split: prod.splits option.splits if_splits)
  qed
  show "adding pc1 \<longrightarrow> adding pc"
    using assms(4) by (cases pc) (auto simp: Let_def split: prod.splits option.splits if_splits)
qed

lemma step_space:
  assumes "write_sound os" and "queue_ok c" and "pending_ok pc"
    and "thread_step os pc c w = Some (pc1, evs, c1, w1)"
    and "holding pc \<Longrightarrow> balance os pc c" and "\<not> writeMutex c \<Longrightarrow> balanced os c"
  shows "writeSpaceRemaining c1 = writeSpaceRemaining c \<or> balanced os c1"
proof -
  have ok: "step_ok os pc c pc1 c1" by (rule thread_step_ok [OF assms(1,4,2,3,5,6)])
  show ?thesis
  proof (cases "holding pc \<and> holding pc1")
    case True
    show ?thesis
    proof (cases "(\<exists>n. pc1 = AddTake n) \<or> pc1 = ClearSpace")
      case True
      with assms(4) show ?thesis by (cases pc) (auto simp: Let_def split: prod.splits option.splits if_splits)
    next
      case False
      with ok \<open>holding pc \<and> holding pc1\<close> show ?thesis by (cases pc1) (auto simp: step_ok_def)
    qed
  next
    case False
    with ok show ?thesis by (auto simp: step_ok_def same_account_def split: if_splits)
  qed
qed

lemma begin_bounded:
  assumes "bounded os a s" and "pcs s t = Ready" and "may_begin t pc" and "adding pc \<longrightarrow> t = a"
  shows "bounded os a (start_at t pc s)"
proof -
  have "claimed pc = 0" using assms(3) by (cases pc) auto
  with assms(1,2) have "queue_bytes (writeQueue (object s)) + claimed (((pcs s)(t := pc)) a)
      \<le> unat (INITIAL_WRITE_SPACE os)" by (cases "t = a") (simp_all add: bounded_def)
  moreover have "adding (((pcs s)(t := pc)) u) \<longrightarrow> u = a" for u
    using assms(1,4) by (cases "u = t") (simp_all add: bounded_def)
  ultimately show ?thesis using assms(1) by (simp add: bounded_def start_at_def del: fun_upd_apply)
qed

lemma go_on_bounded:
  assumes "write_sound os" and "threads_inv os s" and "bounded os a s" and "go_on os t s = Some s1"
  shows "bounded os a s1"
proof -
  let ?pc = "pcs s t" and ?c = "object s"
  from assms(4) obtain pc1 evs c1 w1 where
    step: "thread_step os ?pc ?c (outside s) = Some (pc1, evs, c1, w1)"
    and s1: "pcs s1 = (pcs s)(t := pc1)" "object s1 = c1"
    by (auto simp: go_on_def split: option.splits)
  have q: "queue_ok ?c" "pending_ok ?pc" and h: "holders_ok os (pcs s) ?c"
    using assms(2) by (simp_all add: threads_inv_def)
  note claims = step_claims [OF assms(1) q step]
  have mine: "adding ?pc \<longrightarrow> t = a" using assms(3) by (simp add: bounded_def)
  have unclaimed: "claimed pc = 0" if "\<not> adding pc" for pc :: "'b thread_pc"
    using that by (cases pc) auto
  have bytes: "queue_bytes (writeQueue c1) + claimed (pcs s1 a) \<le> unat (INITIAL_WRITE_SPACE os)"
  proof (cases "\<exists>data sz flags. ?pc = AddCheck data sz flags")
    case True
    then have "t = a" using mine by auto
    moreover from True \<open>t = a\<close> have "queue_bytes (writeQueue ?c) + unat (writeSpaceRemaining ?c)
        \<le> unat (INITIAL_WRITE_SPACE os)"
      by (intro space_seen [OF assms(2,3)]) auto
    moreover have "claimed ?pc = 0" using True by auto
    ultimately show ?thesis using claims(1) s1 by auto
  next
    case False
    with claims(1) have c: "queue_bytes (writeQueue c1) + claimed pc1
        \<le> queue_bytes (writeQueue ?c) + claimed ?pc" by blast
    show ?thesis
    proof (cases "t = a")
      case True
      with c assms(3) s1 show ?thesis by (simp add: bounded_def)
    next
      case False
      with mine have "claimed ?pc = 0" using unclaimed by blast
      with c False assms(3) s1 show ?thesis by (simp add: bounded_def)
    qed
  qed
  have "writeSpaceRemaining c1 = writeSpaceRemaining ?c \<or> balanced os c1"
    by (rule step_space [OF assms(1) q step]) (use h in \<open>simp_all add: holders_ok_def\<close>)
  then have "writeSpaceRemaining c1 \<le> INITIAL_WRITE_SPACE os"
  proof
    assume "balanced os c1"
    from balanced_space [OF this] bytes show ?thesis by (simp add: word_le_nat_alt)
  qed (use assms(3) in \<open>simp add: bounded_def\<close>)
  with bytes claims(2) mine assms(3) show ?thesis by (auto simp: bounded_def s1)
qed

lemma one_adder_bounded:
  assumes "write_sound os" and "\<And>t data sz flags. may t (AddCheck data sz flags) \<Longrightarrow> t = a"
  shows "threads_reachable may os s \<Longrightarrow> bounded os a s"
proof (induction rule: threads_reachable.induct)
  case (threads_start c w)
  then have "unat (writeSpaceRemaining c) + queue_bytes (writeQueue c) = unat (INITIAL_WRITE_SPACE os)"
    by (simp add: client_inv_defs)
  then show ?case by (simp add: bounded_def at_rest_def word_le_nat_alt)
next
  case (threads_next s s1)
  from threads_next.hyps(2) show ?case
  proof (rule threads_stepE)
    fix t pc assume "pcs s t = Ready" "may_begin t pc" "may t pc" "s1 = start_at t pc s"
    moreover have "adding pc \<longrightarrow> t = a" using \<open>may_begin t pc\<close> \<open>may t pc\<close> assms(2) by (cases pc) auto
    ultimately show ?thesis using begin_bounded [OF threads_next.IH] by blast
  next
    fix t assume "go_on os t s = Some s1"
    with go_on_bounded [OF assms(1) threads_reachable_inv [OF threads_next.hyps(1) assms(1)] threads_next.IH]
    show ?thesis .
  qed
qed

text \<open>
  C8: if only one thread calls \<open>add\<close> on a client, then however the others push, close, connect,
  and handle its events, the counter never wraps and the buffer is never overcommitted: whenever
  the mutex is free, free space and queued bytes are exactly the initial space.
\<close>

theorem one_adder_exact:
  assumes "write_sound os" and "\<And>t data sz flags. may t (AddCheck data sz flags) \<Longrightarrow> t = a"
    and "threads_reachable may os s" and "\<not> writeMutex (object s)"
  shows "unat (writeSpaceRemaining (object s)) + queue_bytes (writeQueue (object s)) =
    unat (INITIAL_WRITE_SPACE os)"
proof -
  have "bounded os a s" using one_adder_bounded [of os may a s] assms(1-3) by blast
  then have "queue_bytes (writeQueue (object s)) \<le> unat (INITIAL_WRITE_SPACE os)"
    by (simp add: bounded_def)
  moreover have "balanced os (object s)"
    using threads_reachable_inv [OF assms(3,1)] assms(4) by (simp add: threads_inv_def holders_ok_def)
  ultimately show ?thesis by (rule balanced_space [rotated])
qed

theorem one_adder_exact_witness:
  "\<exists>s. run_turns (sample_os True) ([Begin 1 (AddCheck 100 4000 (flags_of IMMEDIATE))] @ gos 6 1)
      (sample_rest []) = Some s \<and> map data_size (writeQueue (object s)) = [4000] \<and>
    unat (writeSpaceRemaining (object s)) + queue_bytes (writeQueue (object s)) = 5760"
proof -
  let ?ts = "[Begin 1 (AddCheck 100 4000 (flags_of IMMEDIATE))] @ gos 6 1 :: u32 turn list"
  let ?r = "run_turns (sample_os True) ?ts (sample_rest [])"
  have "case ?r of None \<Rightarrow> False
    | Some s \<Rightarrow> \<not> writeMutex (object s) \<and> map data_size (writeQueue (object s)) = [4000]" by code_simp
  then obtain s where s: "?r = Some s" "\<not> writeMutex (object s)"
    "map data_size (writeQueue (object s)) = [4000]" by (auto split: option.splits)
  have "threads_reachable (\<lambda>t pc. adding pc \<longrightarrow> t = 1) (sample_os True) s"
    by (rule run_turns_reachable [OF s(1) sample_rest_start]) auto
  from one_adder_exact [OF sample_write_sound _ this s(2), of 1]
  have "unat (writeSpaceRemaining (object s)) + queue_bytes (writeQueue (object s)) =
    unat (INITIAL_WRITE_SPACE (sample_os True))" by simp
  with s show ?thesis by (intro exI [of _ s]) (simp add: INITIAL_WRITE_SPACE_def sample_os_def)
qed

section \<open>Runs that go wrong\<close>

text \<open>Two threads pass the checks of \<open>add\<close> before either takes the mutex.\<close>

definition two_adds :: "u32 turn list" where
  "two_adds =
     [Begin 1 (AddCheck 100 4000 (flags_of IMMEDIATE)), Go 1,
      Begin 2 (AddCheck 100 4000 (flags_of IMMEDIATE)), Go 2] @ gos 5 1 @ gos 5 2"

text \<open>
  C37: the restriction to one adding thread is needed: \<open>add\<close> reads the free space before it takes
  the mutex, so two threads can take the same space. With 5760 bytes in all, 8000 are queued,
  every thread is done, and the counter says that 4294965056 bytes are free.
\<close>

theorem two_adders_overcommit:
  "\<exists>s. threads_reachable (\<lambda>t pc. True) (sample_os True) s \<and> TCP_SND_BUF (sample_os True) = 5760 \<and>
    pcs s 0 = Ready \<and> pcs s 1 = Ready \<and> pcs s 2 = Ready \<and>
    map data_size (writeQueue (object s)) = [4000, 4000] \<and>
    writeSpaceRemaining (object s) = 4294965056"
proof -
  let ?r = "run_turns (sample_os True) two_adds (sample_rest [])"
  have "case ?r of None \<Rightarrow> False
    | Some s \<Rightarrow> is_ready (pcs s 0) \<and> is_ready (pcs s 1) \<and> is_ready (pcs s 2) \<and>
      map data_size (writeQueue (object s)) = [4000, 4000] \<and>
      writeSpaceRemaining (object s) = 4294965056" by code_simp
  then obtain s where "?r = Some s" "pcs s 0 = Ready" "pcs s 1 = Ready" "pcs s 2 = Ready"
    "map data_size (writeQueue (object s)) = [4000, 4000]" "writeSpaceRemaining (object s) = 4294965056"
    by (auto simp: is_ready_iff split: option.splits)
  moreover have "TCP_SND_BUF (sample_os True) = 5760" by (simp add: sample_os_def)
  ultimately show ?thesis using sample_run_reachable [of two_adds "[]" s] by (intro exI [of _ s]) simp
qed

text \<open>Thread 2 closes the client while thread 1 is about to take the mutex in \<open>add\<close>.\<close>

definition add_then_close :: "u32 turn list" where
  "add_then_close =
     [Begin 1 (AddCheck 101 2 (flags_of COPY)), Go 1, Begin 2 CloseCheck] @ gos 7 2 @ gos 5 1"

text \<open>The worker reports the end, thread 1 connects again, and the worker finds the socket writeable.\<close>

definition reconnect :: "u32 turn list" where
  "reconnect =
     [Begin 0 DoneCheck, Go 0, Go 0, Begin 1 (Connect 7 80), Go 1, Begin 0 EventCheck] @ gos 11 0"

text \<open>
  C38: bytes of one connection can be sent on the next: \<open>add\<close> checks that the client is connected
  before it takes the mutex, and \<open>_close\<close> empties the queue in between, so the bytes are queued on
  a closed client; nothing removes them, and when the client connects again, they are the first
  bytes the new peer gets.
\<close>

theorem stale_bytes_on_next_connection:
  "\<exists>s1 s2. threads_reachable (\<lambda>t pc. True) (sample_os True) s1 \<and>
    pcs s1 0 = Ready \<and> pcs s1 1 = Ready \<and> pcs s1 2 = Ready \<and> \<not> isOpen (object s1) \<and>
    conn_state (object s1) = DISCONNECTING \<and> queue_bytes (writeQueue (object s1)) = 2 \<and>
    run_turns (sample_os True) reconnect s1 = Some s2 \<and>
    connected (object s2) \<and> socket (object s2) = 50 \<and>
    outs (outside s1) 50 = [] \<and> outs (outside s2) 50 = [101, 102]"
proof -
  let ?r = "run_turns (sample_os True) add_then_close (sample_rest [5])"
  have "case ?r of None \<Rightarrow> False
    | Some s1 \<Rightarrow> is_ready (pcs s1 0) \<and> is_ready (pcs s1 1) \<and> is_ready (pcs s1 2) \<and>
      \<not> isOpen (object s1) \<and> conn_state (object s1) = DISCONNECTING \<and>
      queue_bytes (writeQueue (object s1)) = 2 \<and> outs (outside s1) 50 = [] \<and>
      (case run_turns (sample_os True) reconnect s1 of None \<Rightarrow> False
       | Some s2 \<Rightarrow> connected (object s2) \<and> socket (object s2) = 50 \<and> outs (outside s2) 50 = [101, 102])" by code_simp
  then obtain s1 s2 where "?r = Some s1" "pcs s1 0 = Ready" "pcs s1 1 = Ready" "pcs s1 2 = Ready"
    "\<not> isOpen (object s1)" "conn_state (object s1) = DISCONNECTING"
    "queue_bytes (writeQueue (object s1)) = 2" "outs (outside s1) 50 = []"
    "run_turns (sample_os True) reconnect s1 = Some s2" "connected (object s2)" "socket (object s2) = 50"
    "outs (outside s2) 50 = [101, 102]"
    by (auto simp: is_ready_iff split: option.splits)
  then show ?thesis using sample_run_reachable [of add_then_close "[5]" s1]
    by (intro exI [of _ s1] exI [of _ s2]) simp
qed

text \<open>Two threads pass the check of \<open>close\<close>; the worker reports the end before the second goes on.\<close>

definition two_closes :: "u32 turn list" where
  "two_closes =
     [Begin 1 CloseCheck, Go 1, Begin 2 CloseCheck] @ gos 7 2 @ [Begin 0 DoneCheck, Go 0, Go 0] @
     gos 6 1 @ [Begin 0 DoneCheck, Go 0, Go 0]"

text \<open>
  C40: when two threads close a client at the same time, the application can be told twice that
  one connection has ended, with no \<open>connect\<close> in between: \<open>_close\<close> sets the state without looking at it.
\<close>

theorem two_closers_told_twice:
  "\<exists>s. threads_reachable (\<lambda>t pc. pc = CloseCheck \<or> pc = DoneCheck) (sample_os True) s \<and>
    pcs s 0 = Ready \<and> pcs s 1 = Ready \<and> pcs s 2 = Ready \<and>
    heard s = [EvDisconnect, EvDisconnect]"
proof -
  let ?r = "run_turns (sample_os True) two_closes (sample_rest [])"
  have "case ?r of None \<Rightarrow> False
    | Some s \<Rightarrow> is_ready (pcs s 0) \<and> is_ready (pcs s 1) \<and> is_ready (pcs s 2) \<and>
      heard s = [EvDisconnect, EvDisconnect]" by code_simp
  then obtain s where "?r = Some s" "pcs s 0 = Ready" "pcs s 1 = Ready" "pcs s 2 = Ready"
    "heard s = [EvDisconnect, EvDisconnect]"
    by (auto simp: is_ready_iff split: option.splits)
  moreover have "threads_reachable (\<lambda>t pc. pc = CloseCheck \<or> pc = DoneCheck) (sample_os True) s"
    by (rule run_turns_reachable [OF \<open>?r = Some s\<close> sample_rest_start]) (auto simp: two_closes_def)
  ultimately show ?thesis by (intro exI [of _ s]) simp
qed

text \<open>
  Thread 1 closes the client, the worker, which had found it writeable, asks for its error, and
  thread 1 connects again before the worker goes on.
\<close>

definition close_and_reconnect :: "u32 turn list" where
  "close_and_reconnect =
     [Begin 1 CloseCheck] @ gos 7 1 @ [Begin 0 EventCheck, Go 0, Go 0, Begin 1 (Connect 7 80), Go 1]"

text \<open>
  C39: an error of one connection can end the next: \<open>_error\<close> reports it and then closes whatever
  socket the client has by then. Here the worker has the error of a client that was closed; the
  client is connecting anew when the worker closes it.
\<close>

theorem stale_error_closes_next_connection:
  "\<exists>s1 s2. threads_reachable (\<lambda>t pc. True) (sample_os True) s1 \<and>
    conn_state (object s1) = CONNECTING \<and> socket (object s1) = 50 \<and> pcs s1 0 = TellError 9 \<and>
    run_turns (sample_os True) (gos 7 0) s1 = Some s2 \<and> pcs s2 0 = Ready \<and>
    conn_state (object s2) = DISCONNECTING \<and> \<not> isOpen (object s2) \<and> heard s2 = [EvError 9]"
proof -
  let ?r = "run_turns (sample_os True) close_and_reconnect (sample_rest [])"
  have "case ?r of None \<Rightarrow> False
    | Some s1 \<Rightarrow> conn_state (object s1) = CONNECTING \<and> socket (object s1) = 50 \<and> pcs s1 0 = TellError 9 \<and>
      (case run_turns (sample_os True) (gos 7 0) s1 of None \<Rightarrow> False
       | Some s2 \<Rightarrow> is_ready (pcs s2 0) \<and> conn_state (object s2) = DISCONNECTING \<and>
           \<not> isOpen (object s2) \<and> heard s2 = [EvError 9])" by code_simp
  then obtain s1 s2 where "?r = Some s1" "conn_state (object s1) = CONNECTING" "socket (object s1) = 50"
    "pcs s1 0 = TellError 9" "run_turns (sample_os True) (gos 7 0) s1 = Some s2" "pcs s2 0 = Ready"
    "conn_state (object s2) = DISCONNECTING" "\<not> isOpen (object s2)" "heard s2 = [EvError 9]"
    by (auto simp: is_ready_iff split: option.splits)
  then show ?thesis using sample_run_reachable [of close_and_reconnect "[]" s1]
    by (intro exI [of _ s1] exI [of _ s2]) simp
qed

end
