(* ===== verification/ClientThreadsAtomic.thy ===== *)
theory ClientThreadsAtomic
  imports ClientThreadsProperties
begin

text \<open>
  The steps of theory \<open>ClientThreads\<close> are those of the operations of theories \<open>ClientBase\<close> and
  \<open>ClientHandlers\<close>: a thread that is not interrupted ends in the state these compute.
\<close>

section \<open>One thread alone\<close>

fun alone ::
  "('w, 'ip) os \<Rightarrow> nat \<Rightarrow> 'ip thread_pc \<Rightarrow> 'ip ClientBase \<Rightarrow> 'w \<Rightarrow>
     ('ip thread_pc \<times> cb_event list \<times> 'ip ClientBase \<times> 'w) option"
where
  "alone os 0 p c w = Some (p, [], c, w)"
| "alone os (Suc n) p c w =
     (case thread_step os p c w of None \<Rightarrow> None
      | Some (p1, evs, c1, w1) \<Rightarrow>
          (case alone os n p1 c1 w1 of None \<Rightarrow> None
           | Some (p2, evs2, c2, w2) \<Rightarrow> Some (p2, evs @ evs2, c2, w2)))"

definition does ::
  "('w, 'ip) os \<Rightarrow> 'ip thread_pc \<Rightarrow> 'ip ClientBase \<Rightarrow> 'w \<Rightarrow>
     'ip thread_pc \<times> cb_event list \<times> 'ip ClientBase \<times> 'w \<Rightarrow> bool"
where
  "does os p c w r \<longleftrightarrow> (\<exists>n. alone os n p c w = Some r)"

lemma does_n: "alone os n p c w = Some r \<Longrightarrow> does os p c w r"
  by (auto simp: does_def)

lemma does_step:
  assumes "thread_step os p c w = Some (p1, evs, c1, w1)" and "does os p1 c1 w1 (p2, evs2, c2, w2)"
  shows "does os p c w (p2, evs @ evs2, c2, w2)"
proof -
  from assms(2) obtain n where "alone os n p1 c1 w1 = Some (p2, evs2, c2, w2)" by (auto simp: does_def)
  with assms(1) have "alone os (Suc n) p c w = Some (p2, evs @ evs2, c2, w2)" by simp
  then show ?thesis by (rule does_n)
qed

lemma does_more:
  assumes "alone os n p c w = Some (p1, evs, c1, w1)" and "does os p1 c1 w1 (p2, evs2, c2, w2)"
  shows "does os p c w (p2, evs @ evs2, c2, w2)"
  using assms
proof (induction n arbitrary: p c w evs)
  case (Suc n)
  from Suc.prems(1) obtain p3 e3 c3 w3 e4 where
    "thread_step os p c w = Some (p3, e3, c3, w3)" "alone os n p3 c3 w3 = Some (p1, e4, c1, w1)"
    "evs = e3 @ e4" by (auto split: option.splits)
  with does_step [OF _ Suc.IH [OF _ Suc.prems(2)]] show ?case by simp
qed simp

lemma does_trans:
  assumes "does os p c w (p1, evs, c1, w1)" and "does os p1 c1 w1 (p2, evs2, c2, w2)"
  shows "does os p c w (p2, evs @ evs2, c2, w2)"
  using assms(1) does_more [OF _ assms(2)] by (auto simp: does_def [of os p c w "(p1, evs, c1, w1)"])

text \<open>Among the others.\<close>

lemma alone_go_on:
  "alone os n (pcs s t) (object s) (outside s) = Some (p1, evs, c1, w1) \<Longrightarrow>
    go_on_n os t n s = Some \<lparr>pcs = (pcs s)(t := p1), object = c1, heard = heard s @ evs, outside = w1\<rparr>"
proof (induction n arbitrary: s evs)
  case (Suc n)
  from Suc.prems obtain p2 e2 c2 w2 e3 where
    step: "thread_step os (pcs s t) (object s) (outside s) = Some (p2, e2, c2, w2)"
    and rest: "alone os n p2 c2 w2 = Some (p1, e3, c1, w1)" and e: "evs = e2 @ e3"
    by (auto split: option.splits)
  let ?s = "\<lparr>pcs = (pcs s)(t := p2), object = c2, heard = heard s @ e2, outside = w2\<rparr>"
  have "go_on os t s = Some ?s" using step by (simp add: go_on_def)
  moreover from Suc.IH [of ?s e3] rest e
  have "go_on_n os t n ?s = Some \<lparr>pcs = (pcs s)(t := p1), object = c1, heard = heard s @ evs, outside = w1\<rparr>"
    by (simp del: fun_upd_apply add: fun_upd_same)
  ultimately show ?case by (simp del: fun_upd_apply)
next
  case 0
  then show ?case by (cases s) auto
qed

lemma does_go_on:
  assumes "does os p (object s) (outside s) (Ready, evs, c1, w1)" and "pcs s t = Ready"
  shows "\<exists>n. go_on_n os t n (start_at t p s) =
    Some (s\<lparr>object := c1, heard := heard s @ evs, outside := w1\<rparr>)"
proof -
  from assms(1) obtain n where "alone os n p (object s) (outside s) = Some (Ready, evs, c1, w1)"
    by (auto simp: does_def)
  then have "alone os n (pcs (start_at t p s) t) (object (start_at t p s)) (outside (start_at t p s)) =
    Some (Ready, evs, c1, w1)" by (simp add: start_at_def)
  from alone_go_on [OF this] assms(2) show ?thesis
    by (intro exI [of _ n]) (simp add: start_at_def fun_upd_idem)
qed

text \<open>A pass over the queue, for either of the two loops that make one.\<close>

lemma does_pass:
  assumes pass: "\<And>i a c w. thread_step os (P i a) c w =
      (case pass_step os i a c w of None \<Rightarrow> None
       | Some (None, c1, w1) \<Rightarrow> Some (Q, [], c1, w1)
       | Some (Some (i1, a1), c1, w1) \<Rightarrow> Some (P i1 a1, [], c1, w1))"
  shows "process_queue hasError isFullyWritten (\<lambda>b. write_buffer os b (socket c)) a rest
      (writeSpaceRemaining c) w = Some (a1, rest1, space1, w1) \<Longrightarrow>
    writeQueue c = front @ rest \<Longrightarrow>
    does os (P (length front) a) c w
      (Q, [], c\<lparr>writeQueue := front @ rest1, writeSpaceRemaining := space1\<rparr>, w1)"
proof (induction rest arbitrary: a c w front rest1)
  case Nil
  then have "pass_step os (length front) a c w = Some (None, c, w)" by (simp add: pass_step_def)
  with Nil show ?case by (intro does_n [where n = 1]) (simp add: pass)
next
  case (Cons b rest)
  let ?i = "length front"
  have b: "writeQueue c ! ?i = b" "\<not> length (writeQueue c) \<le> ?i" using Cons.prems(2) by simp_all
  consider (err) "hasError b" | (full) "\<not> hasError b" "isFullyWritten b"
    | (wr) "\<not> hasError b" "\<not> isFullyWritten b" by blast
  then show ?case
  proof cases
    case err
    then have "pass_step os ?i a c w = Some (None, c, w)" using b by (simp add: pass_step_def)
    moreover from err Cons.prems have "c\<lparr>writeQueue := front @ rest1, writeSpaceRemaining := space1\<rparr> = c"
      "w1 = w" by auto
    ultimately show ?thesis by (intro does_n [where n = 1]) (simp add: pass)
  next
    case full
    with Cons.prems(1) obtain rest2 where r: "rest1 = b # rest2"
      "process_queue hasError isFullyWritten (\<lambda>b. write_buffer os b (socket c)) a rest
        (writeSpaceRemaining c) w = Some (a1, rest2, space1, w1)" by (auto split: option.splits)
    have "pass_step os ?i a c w = Some (Some (Suc ?i, a), c, w)"
      using full b by (simp add: pass_step_def)
    then have step: "thread_step os (P ?i a) c w = Some (P (length (front @ [b])) a, [], c, w)"
      by (simp add: pass)
    from does_step [OF step Cons.IH [OF r(2), of "front @ [b]"]] Cons.prems(2) r(1) show ?thesis by simp
  next
    case wr
    with Cons.prems(1) obtain n b1 w2 rest2 where
      w: "write_buffer os b (socket c) w = Some (n, b1, w2)" and r: "rest1 = b1 # rest2"
      and p: "process_queue hasError isFullyWritten (\<lambda>b. write_buffer os b (socket c)) (a \<or> 0 < n) rest
        (writeSpaceRemaining c + n) w2 = Some (a1, rest2, space1, w1)" by (auto split: option.splits)
    let ?c = "c\<lparr>writeQueue := (front @ [b1]) @ rest, writeSpaceRemaining := writeSpaceRemaining c + n\<rparr>"
    have "(writeQueue c)[?i := b1] = (front @ [b1]) @ rest" using Cons.prems(2) by simp
    then have "pass_step os ?i a c w = Some (Some (Suc ?i, a \<or> 0 < n), ?c, w2)"
      using wr b w by (simp add: pass_step_def)
    then have step: "thread_step os (P ?i a) c w =
        Some (P (length (front @ [b1])) (a \<or> 0 < n), [], ?c, w2)" by (simp add: pass)
    have "does os (P (length (front @ [b1])) (a \<or> 0 < n)) ?c w2
        (Q, [], ?c\<lparr>writeQueue := (front @ [b1]) @ rest2, writeSpaceRemaining := space1\<rparr>, w1)"
      by (rule Cons.IH) (use p in simp_all)
    from does_step [OF step this] r show ?thesis by simp
  qed
qed

lemma pass_does:
  assumes "process_queue hasError isFullyWritten (\<lambda>b. write_buffer os b (socket c)) a (writeQueue c)
    (writeSpaceRemaining c) w = Some (a1, q, space1, w1)"
  shows "does os (SendPass 0 a) c w
      (SendUnlock, [], c\<lparr>writeQueue := q, writeSpaceRemaining := space1\<rparr>, w1)"
    and "does os (EventPass 0 a) c w
      (ScanQueue, [], c\<lparr>writeQueue := q, writeSpaceRemaining := space1\<rparr>, w1)"
  using does_pass [of os SendPass SendUnlock c a "writeQueue c" w a1 q space1 w1 "[]"]
    does_pass [of os EventPass ScanQueue c a "writeQueue c" w a1 q space1 w1 "[]"] assms
  by simp_all

section \<open>The calls of the application\<close>

lemma add_does:
  assumes "add os data sz flags c w = Inr (k, c1, w1)" and "\<not> writeMutex c"
  shows "does os (AddCheck data sz flags) c w (Ready, [], c1, w1)"
proof (cases "fst (add_prepare os data sz flags c w)")
  case None
  with assms(1) show ?thesis
    by (intro does_n [where n = 1]) (auto simp: add_def split: prod.splits)
next
  case (Some x)
  then obtain n b w2 where "add_prepare os data sz flags c w = (Some (n, b), w2)"
    by (metis prod.collapse)
  with assms show ?thesis
    by (intro does_n [where n = 6])
      (auto simp: add_def add_commit_def lock_write_def unlock_write_def eval_nat_numeral)
qed

lemma clear_does:
  assumes "\<not> writeMutex c"
  shows "does os ClearLock c w (Ready, [],
    c\<lparr>writeQueue := [], writeSpaceRemaining := INITIAL_WRITE_SPACE os\<rparr>, w)"
  using assms by (intro does_n [where n = 4]) (simp add: eval_nat_numeral)

lemma close_socket_does:
  assumes "\<not> writeMutex c"
  shows "does os CloseState c w (Ready, [], closed_client os c, sys_close os (socket c) w)"
  using assms by (intro does_n [where n = 6]) (simp add: eval_nat_numeral closed_client_def)

lemma close_does:
  assumes "close_client os c w = Inr (c1, w1)" and "\<not> writeMutex c"
  shows "does os CloseCheck c w (Ready, [], c1, w1)"
proof (cases "isOpen c")
  case True
  with assms have "c1 = closed_client os c" "w1 = sys_close os (socket c) w"
    by (simp_all add: close_client_def close_socket_eq closed_client_def)
  with True does_step [OF _ close_socket_does [OF assms(2), of os w], of CloseCheck c w "[]"] show ?thesis
    by simp
next
  case False
  with assms(1) show ?thesis by (intro does_n [where n = 1]) (simp add: close_client_def)
qed

lemma send_does:
  assumes "send os c w = Inr (a, c1, w1)" and "\<not> writeMutex c"
  shows "does os SendCheck c w (Ready, [], c1, w1)"
proof -
  obtain r w2 where s: "select_w os (socket c) w = (r, w2)" by fastforce
  have un: "c\<lparr>writeMutex := False\<rparr> = c" using assms(2) by simp
  consider "\<not> connected c \<or> \<not> 0 < r" | "connected c" "0 < r" "writeQueue c = []"
    | "connected c" "0 < r" "writeQueue c \<noteq> []" by blast
  then show ?thesis
  proof cases
    case 1
    with assms(1) s show ?thesis
      by (cases "connected c")
        (auto simp: send_def eval_nat_numeral intro: does_n [where n = 1] does_n [where n = 2])
  next
    case 2
    with assms s un show ?thesis
      by (intro does_n [where n = 5])
        (auto simp: send_def lock_write_def unlock_write_def eval_nat_numeral)
  next
    case 3
    let ?c = "c\<lparr>writeMutex := True\<rparr>"
    from 3 assms s obtain q sp where
      p: "process_queue hasError isFullyWritten (\<lambda>b. write_buffer os b (socket ?c)) False (writeQueue ?c)
        (writeSpaceRemaining ?c) w2 = Some (a, q, sp, w1)"
      and c1: "c1 = ?c\<lparr>writeQueue := q, writeSpaceRemaining := sp, writeMutex := False\<rparr>"
      by (auto simp: send_def lock_write_def unlock_write_def process_locked_def processWriteQueue_def
          bind_res_Inr_iff of_option_def split: option.splits)
    have to_pass: "alone os 4 SendCheck c w = Some (SendPass 0 False, [], ?c, w2)"
      using 3 s assms(2) by (simp add: eval_nat_numeral)
    have "does os SendUnlock (?c\<lparr>writeQueue := q, writeSpaceRemaining := sp\<rparr>) w1 (Ready, [], c1, w1)"
      by (intro does_n [where n = 1]) (simp add: c1)
    from does_more [OF to_pass does_trans [OF pass_does(1) [OF p] this]] show ?thesis by simp
  qed
qed

section \<open>The handlers of the worker\<close>

text \<open>
  The thread ends where the handler, run on the whole state without callbacks that act, leaves
  the client, and the callbacks are the same.
\<close>

definition mirrors ::
  "('w, 'ip) os \<Rightarrow> ptr \<Rightarrow> 'ip thread_pc \<Rightarrow> 'ip ClientBase \<Rightarrow> ('w, 'ip) machine \<Rightarrow>
     ('w, 'ip) machine \<Rightarrow> bool"
where
  "mirrors os p pc c m m1 \<longleftrightarrow>
     (\<exists>evs c1. does os pc c (world m) (Ready, evs, c1, world m1) \<and> heap m1 p = Some c1 \<and>
        trace m1 = trace m @ concat (map (told c p) evs))"

lemma mirrorsI:
  "does os pc c (world m) (Ready, evs, c1, world m1) \<Longrightarrow> heap m1 p = Some c1 \<Longrightarrow>
     trace m1 = trace m @ concat (map (told c p) evs) \<Longrightarrow> mirrors os p pc c m m1"
  by (auto simp: mirrors_def)

lemma told_update_more [simp]:
  "told (c\<lparr>writeSpaceRemaining := n\<rparr>) p ev = told c p ev"
  "told (closed_client os c) p ev = told c p ev"
  by (rule told_callbacks, simp add: closed_client_def)+

lemma error_does:
  assumes "\<not> writeMutex c"
  shows "does os (TellError code) c w
    (Ready, [EvError code], closed_client os c, sys_close os (socket c) w)"
  using does_step [OF _ close_socket_does [OF assms], of os "TellError code" c w "[EvError code]"] by simp

lemma cleanup_mirrors:
  assumes "heap m p = Some c" and "cleanupWriteQueue os quiet p m = Inr m1"
  shows "mirrors os p ScanQueue c m m1"
proof -
  obtain e stats rx rest where s: "cleanup_scan (writeQueue c) (rx_last_packet c) = (e, stats, rx, rest)"
    by (metis surj_pair)
  show ?thesis
  proof (cases e)
    case None
    let ?c = "unlock_write (c\<lparr>rx_last_packet := rx, writeQueue := rest\<rparr>)"
    have st: "stats = map stats_of (takeWhile finished (writeQueue c))"
      using cleanup_scan_split [OF s] by simp
    have h: "heap (put_client p ?c (world m) m) p = Some ?c" by (simp add: put_client_def)
    have m1: "m1 = (put_client p ?c (world m) m)\<lparr>trace := trace m @
        concat (map (\<lambda>b. told ?c p (sent_event b)) (takeWhile finished (writeQueue c)))\<rparr>"
      using assms s None notify_sent_quiet [OF h, of os] st
      by (simp add: cleanupWriteQueue_def get_client_def) (simp add: put_client_def)
    have "does os ScanQueue c (world m)
        (Ready, map (\<lambda>s. EvSent (ws_length s) (ws_delay s)) stats, ?c, world m)"
      using s None by (intro does_n [where n = 3]) (simp add: eval_nat_numeral unlock_write_def)
    with m1 show ?thesis
      by (intro mirrorsI [where evs = "map (\<lambda>s. EvSent (ws_length s) (ws_delay s)) stats" and ?c1.0 = ?c])
        (simp_all add: put_client_def st sent_event_def comp_def unlock_write_def)
  next
    case (Some code)
    let ?c = "unlock_write (c\<lparr>rx_last_packet := rx\<rparr>)"
    let ?m = "put_client p ?c (world m) m"
    have h: "heap ?m p = Some ?c" "\<not> writeMutex ?c" by (simp_all add: put_client_def unlock_write_def)
    from assms s Some error_at_quiet [OF h, of os code]
    have m1: "m1 = (put_client p (closed_client os ?c) (sys_close os (socket ?c) (world ?m)) ?m)
        \<lparr>trace := trace ?m @ told ?c p (EvError code)\<rparr>"
      by (simp add: cleanupWriteQueue_def get_client_def)
    have "alone os 2 ScanQueue c (world m) = Some (TellError code, [], ?c, world m)"
      using s Some by (simp add: eval_nat_numeral unlock_write_def)
    from does_more [OF this error_does [OF h(2)]] show ?thesis
      by (intro mirrorsI) (auto simp: m1 put_client_def unlock_write_def)
  qed
qed

lemma section_mirrors:
  assumes "heap m p = Some c" and "\<not> writeMutex c"
    and "writeable_section os quiet p act m = Inr (a, m1)"
  shows "mirrors os p EventLock c m m1"
proof -
  let ?c = "c\<lparr>writeMutex := True\<rparr>"
  show ?thesis
  proof (cases "conn_state c = CONNECTED \<and> writeQueue c \<noteq> []")
    case False
    with assms have m1: "m1 = put_client p (unlock_write ?c) (world m) m"
      by (simp add: writeable_section_def get_client_def lock_write_def split: if_splits)
    have "does os EventLock c (world m) (Ready, [], unlock_write ?c, world m)"
      using assms(2) False by (intro does_n [where n = 3]) (auto simp: eval_nat_numeral unlock_write_def)
    with m1 show ?thesis
      by (intro mirrorsI [where evs = "[]" and ?c1.0 = "unlock_write ?c"]) (simp_all add: put_client_def)
  next
    case True
    with assms obtain c2 w2 where
      p: "process_locked os ?c (world m) = Inr (a, c2, w2)"
      and clean: "cleanupWriteQueue os quiet p (put_client p c2 w2 m) = Inr m1"
      by (auto simp: writeable_section_def get_client_def lock_write_def bind_res_Inr_iff)
    from p obtain q sp where
      q: "process_queue hasError isFullyWritten (\<lambda>b. write_buffer os b (socket ?c)) False (writeQueue ?c)
        (writeSpaceRemaining ?c) (world m) = Some (a, q, sp, w2)"
      and c2: "c2 = ?c\<lparr>writeQueue := q, writeSpaceRemaining := sp\<rparr>"
      by (auto simp: process_locked_def processWriteQueue_def bind_res_Inr_iff of_option_def
          split: option.splits)
    have to_pass: "alone os 2 EventLock c (world m) = Some (EventPass 0 False, [], ?c, world m)"
      using True assms(2) by (simp add: eval_nat_numeral)
    let ?m = "put_client p c2 w2 m"
    have h: "heap ?m p = Some c2" "world ?m = w2" "trace ?m = trace m" by (simp_all add: put_client_def)
    from cleanup_mirrors [OF h(1) clean] obtain evs c1 where
      d: "does os ScanQueue c2 w2 (Ready, evs, c1, world m1)" "heap m1 p = Some c1"
      and tr: "trace m1 = trace m @ concat (map (told c2 p) evs)" by (auto simp: mirrors_def h)
    from does_more [OF to_pass does_trans [OF pass_does(2) [OF q] d(1) [unfolded c2]]]
    have "does os EventLock c (world m) (Ready, evs, c1, world m1)" by simp
    moreover have "told c2 p = told c p" by (rule ext) (simp add: c2)
    ultimately show ?thesis using d(2) tr by (intro mirrorsI) simp_all
  qed
qed

lemma writeable_mirrors:
  assumes "heap m p = Some c" and "\<not> writeMutex c" and "sockIsWriteable os quiet p m = Inr (a, m1)"
  shows "mirrors os p EventCheck c m m1"
proof (cases "conn_state c = CONNECTED")
  case True
  with assms have "writeable_section os quiet p False m = Inr (a, m1)"
    by (simp add: sockIsWriteable_def get_client_def)
  from section_mirrors [OF assms(1,2) this] obtain evs c1 where
    d: "does os EventLock c (world m) (Ready, evs, c1, world m1)" "heap m1 p = Some c1"
    "trace m1 = trace m @ concat (map (told c p) evs)" by (auto simp: mirrors_def)
  with does_step [OF _ d(1), of EventCheck c "world m" "[]"] True show ?thesis
    by (auto intro: mirrorsI)
next
  case False
  obtain result errno v w1 where g: "getsockopt_error os (socket c) (world m) = ((result, errno, v), w1)"
    by (metis surj_pair)
  let ?m = "m\<lparr>world := w1\<rparr>"
  have err: "mirrors os p EventCheck c m m1"
    if e: "error_at os quiet p code ?m = Inr m1"
      and t: "alone os 2 EventCheck c (world m) = Some (TellError code, [], c, w1)" for code
  proof -
    have "m1 = (put_client p (closed_client os c) (sys_close os (socket c) w1) ?m)
        \<lparr>trace := trace m @ told c p (EvError code)\<rparr>"
      using error_at_quiet [of ?m p c os code] assms(1,2) e by simp
    with does_more [OF t error_does [OF assms(2)]] show ?thesis
      by (intro mirrorsI) (auto simp: put_client_def)
  qed
  consider "result < 0" | "\<not> result < 0" "v \<noteq> 0" | "\<not> result < 0" "v = 0" by blast
  then show ?thesis
  proof cases
    case 1
    with err [of errno] g False assms show ?thesis
      by (auto simp: sockIsWriteable_def get_client_def Let_def bind_res_Inr_iff eval_nat_numeral)
  next
    case 2
    with err [of v] g False assms show ?thesis
      by (auto simp: sockIsWriteable_def get_client_def Let_def bind_res_Inr_iff eval_nat_numeral)
  next
    case 3
    obtain now w2 where n: "steady_now os w1 = (now, w2)" by fastforce
    let ?c = "c\<lparr>conn_state := CONNECTED, rx_last_packet := now, ack_timeout_signaled := False\<rparr>"
    let ?m1 = "(put_client p ?c w2 m)\<lparr>trace := trace m @ told ?c p EvConnect\<rparr>"
    have h: "heap ?m1 p = Some ?c" "world ?m1 = w2" "\<not> writeMutex ?c"
      using assms(2) by (simp_all add: put_client_def)
    have "invoke os quiet p EvConnect (put_client p ?c w2 m) = Inr ?m1"
      by (subst invoke_quiet [where c = ?c]) (simp_all add: put_client_def)
    with 3 g n False assms have sec: "writeable_section os quiet p True ?m1 = Inr (a, m1)"
      by (simp add: sockIsWriteable_def get_client_def Let_def)
    have told: "told ?c p = told c p" by (rule ext) simp
    from section_mirrors [OF h(1,3) sec] obtain evs c1 where
      d: "does os EventLock ?c w2 (Ready, evs, c1, world m1)" "heap m1 p = Some c1"
      "trace m1 = trace m @ told c p EvConnect @ concat (map (told c p) evs)"
      by (auto simp: mirrors_def h told) (simp add: put_client_def told)
    have "alone os 4 EventCheck c (world m) = Some (EventLock, [EvConnect], ?c, w2)"
      using 3 g n False by (simp add: eval_nat_numeral)
    from does_more [OF this d(1)] d(2,3) show ?thesis by (auto intro: mirrorsI)
  qed
qed

lemma done_mirrors:
  assumes "heap m p = Some c" and "processingDone os quiet p m = Inr m1"
  shows "mirrors os p DoneCheck c m m1"
proof (cases "conn_state c = DISCONNECTING")
  case True
  let ?c = "c\<lparr>conn_state := DISCONNECTED\<rparr>"
  have "m1 = (put_client p ?c (world m) m)\<lparr>trace := trace m @ told ?c p EvDisconnect\<rparr>"
    using assms True invoke_quiet [of "put_client p ?c (world m) m" p ?c os EvDisconnect]
    by (simp add: processingDone_def get_client_def) (simp add: put_client_def)
  moreover have "does os DoneCheck c (world m) (Ready, [EvDisconnect], ?c, world m)"
    using True by (intro does_n [where n = 2]) (simp add: eval_nat_numeral)
  ultimately show ?thesis
    by (intro mirrorsI [where evs = "[EvDisconnect]" and ?c1.0 = ?c]) (simp_all add: put_client_def)
next
  case False
  with assms have "m1 = m" by (simp add: processingDone_def get_client_def)
  moreover have "does os DoneCheck c (world m) (Ready, [], c, world m)"
    using False by (intro does_n [where n = 1]) simp
  ultimately show ?thesis using assms(1) by (intro mirrorsI [where evs = "[]" and ?c1.0 = c]) simp_all
qed

lemma mirrors_go_on:
  assumes "mirrors os p pc (object s) m m1" and "world m = outside s" and "pcs s t = Ready"
  shows "\<exists>n evs c1. go_on_n os t n (start_at t pc s) =
      Some (s\<lparr>object := c1, heard := heard s @ evs, outside := world m1\<rparr>) \<and>
    heap m1 p = Some c1 \<and> trace m1 = trace m @ concat (map (told (object s) p) evs)"
proof -
  from assms(1,2) obtain evs c1 where d: "does os pc (object s) (outside s) (Ready, evs, c1, world m1)"
    "heap m1 p = Some c1" "trace m1 = trace m @ concat (map (told (object s) p) evs)"
    by (auto simp: mirrors_def)
  from does_go_on [OF d(1) assms(3)] d(2,3) show ?thesis by blast
qed

section \<open>Without interruption\<close>

text \<open>
  C10: the steps refine the calls: a thread that begins \<open>add\<close>, \<open>send\<close> or \<open>close\<close> while the mutex is
  free and is not interrupted finishes the call and leaves the client, the world and the other
  threads exactly as the call of theory \<open>ClientBase\<close> does.
\<close>

theorem uninterrupted_calls:
  assumes "pcs s t = Ready" and "\<not> writeMutex (object s)"
  shows "(\<forall>k c1 w1. add os data sz flags (object s) (outside s) = Inr (k, c1, w1) \<longrightarrow>
      (\<exists>n. go_on_n os t n (start_at t (AddCheck data sz flags) s) = Some (s\<lparr>object := c1, outside := w1\<rparr>))) \<and>
    (\<forall>a c1 w1. send os (object s) (outside s) = Inr (a, c1, w1) \<longrightarrow>
      (\<exists>n. go_on_n os t n (start_at t SendCheck s) = Some (s\<lparr>object := c1, outside := w1\<rparr>))) \<and>
    (\<forall>c1 w1. close_client os (object s) (outside s) = Inr (c1, w1) \<longrightarrow>
      (\<exists>n. go_on_n os t n (start_at t CloseCheck s) = Some (s\<lparr>object := c1, outside := w1\<rparr>)))"
proof -
  have same: "s\<lparr>object := c1, heard := heard s @ [], outside := w1\<rparr> = s\<lparr>object := c1, outside := w1\<rparr>"
    for c1 w1 by simp
  note alone = does_go_on [OF _ assms(1), where evs = "[]", unfolded same]
  show ?thesis
    using alone [OF add_does [OF _ assms(2)]] alone [OF send_does [OF _ assms(2)]]
      alone [OF close_does [OF _ assms(2)]] by blast
qed

theorem uninterrupted_calls_witness:
  "\<exists>n. go_on_n (sample_os True) 1 n (start_at 1 CloseCheck (sample_rest [])) =
    Some ((sample_rest [])\<lparr>object := closed_client (sample_os True) (listening CONNECTED 50)\<rparr>)"
proof -
  let ?s = "sample_rest []"
  have close: "close_client (sample_os True) (object ?s) (outside ?s) =
      Inr (closed_client (sample_os True) (listening CONNECTED 50), outside ?s)"
    by (simp add: at_rest_def close_client_def isOpen_def close_socket_eq closed_client_def)
      (simp add: sample_os_def)
  have "pcs ?s 1 = Ready" "\<not> writeMutex (object ?s)" by (simp_all add: at_rest_def)
  from uninterrupted_calls [OF this, of "sample_os True" 0 0 "flags_of COPY"] close show ?thesis
    by (simp add: at_rest_def)
qed

text \<open>
  So does the worker: uninterrupted, its steps through \<open>_sockIsWriteable\<close> and
  \<open>_processingDone\<close> end with the client, the world and the callbacks that the handlers of theory
  \<open>ClientHandlers\<close> leave.
\<close>

lemma uninterrupted_handlers:
  assumes "pcs s 0 = Ready" and "\<not> writeMutex (object s)"
    and "heap m p = Some (object s)" and "world m = outside s"
  shows "(\<forall>a m1. sockIsWriteable os quiet p m = Inr (a, m1) \<longrightarrow>
      (\<exists>n evs c1. go_on_n os 0 n (start_at 0 EventCheck s) =
           Some (s\<lparr>object := c1, heard := heard s @ evs, outside := world m1\<rparr>) \<and>
         heap m1 p = Some c1 \<and> trace m1 = trace m @ concat (map (told (object s) p) evs))) \<and>
    (\<forall>m1. processingDone os quiet p m = Inr m1 \<longrightarrow>
      (\<exists>n evs c1. go_on_n os 0 n (start_at 0 DoneCheck s) =
           Some (s\<lparr>object := c1, heard := heard s @ evs, outside := world m1\<rparr>) \<and>
         heap m1 p = Some c1 \<and> trace m1 = trace m @ concat (map (told (object s) p) evs)))"
  using mirrors_go_on [OF writeable_mirrors [OF assms(3,2)] assms(4,1)]
    mirrors_go_on [OF done_mirrors [OF assms(3)] assms(4,1)] by blast

lemma uninterrupted_handlers_example:
  "\<exists>n evs c1. go_on_n (sample_os True) 0 n (start_at 0 EventCheck (sample_rest [])) =
    Some ((sample_rest [])\<lparr>object := c1, heard := evs\<rparr>)"
proof -
  let ?s = "sample_rest []" and ?m = "one_client (listening CONNECTED 50) []"
  have h: "heap ?m 4096 = Some (object ?s)" "world ?m = outside ?s" by (simp_all add: at_rest_def)
  have r: "pcs ?s 0 = Ready" "\<not> writeMutex (object ?s)" by (simp_all add: at_rest_def)
  have "sockIsWriteable (sample_os True) quiet 4096 ?m = Inr (False, ?m)"
    by (simp add: sockIsWriteable_def get_client_def writeable_section_def lock_write_def
        unlock_write_def put_same)
  with uninterrupted_handlers [OF r h, of "sample_os True"] show ?thesis
    by (fastforce simp: at_rest_def)
qed

end
