(* ===== verification/ManagerProperties.thy ===== *)
theory ManagerProperties
  imports HandlerProperties
begin

text \<open>
  What the worker task does across connections: the descriptors it waits for, the
  \<open>DISCONNECT\<close> notifications at the end of a round, the registration of connections, and
  accepting.
\<close>

section \<open>End of a round\<close>

definition settle :: "'ip ClientBase \<Rightarrow> 'ip ClientBase" where
  "settle c = (if conn_state c = DISCONNECTING then c\<lparr>conn_state := DISCONNECTED\<rparr> else c)"

definition farewell :: "('w, 'ip) machine \<Rightarrow> ptr \<Rightarrow> (ptr \<times> cb_event) list" where
  "farewell m p =
     (case heap m p of
        Some c \<Rightarrow> if conn_state c = DISCONNECTING then told c p EvDisconnect else []
      | None \<Rightarrow> [])"

lemma processingDone_quiet:
  assumes "heap m p = Some c"
  shows "processingDone os quiet p m =
    Inr (m\<lparr>heap := (heap m)(p \<mapsto> settle c), trace := trace m @ farewell m p\<rparr>)"
  using assms
  by (auto simp: processingDone_def get_client_def settle_def farewell_def put_client_def invoke_quiet
      fun_upd_idem)

lemma done_all:
  assumes "distinct ps" and "\<forall>p \<in> set ps. heap m p \<noteq> None"
  shows "for_each (processingDone os quiet) ps m =
    Inr (m\<lparr>heap := (\<lambda>p. if p \<in> set ps then map_option settle (heap m p) else heap m p),
           trace := trace m @ concat (map (farewell m) ps)\<rparr>)"
  using assms
proof (induction ps arbitrary: m)
  case (Cons p ps)
  then obtain c where c: "heap m p = Some c" by auto
  let ?m = "m\<lparr>heap := (heap m)(p \<mapsto> settle c), trace := trace m @ farewell m p\<rparr>"
  have f: "map (farewell ?m) ps = map (farewell m) ps"
    using Cons.prems(1) by (auto simp: farewell_def)
  have h: "(\<lambda>q. if q \<in> set ps then map_option settle (heap ?m q) else heap ?m q) =
      (\<lambda>q. if q \<in> set (p # ps) then map_option settle (heap m q) else heap m q)"
    using Cons.prems(1) c by (auto simp: fun_eq_iff)
  have "for_each (processingDone os quiet) ps ?m =
      Inr (?m\<lparr>heap := (\<lambda>q. if q \<in> set ps then map_option settle (heap ?m q) else heap ?m q),
           trace := trace ?m @ concat (map (farewell ?m) ps)\<rparr>)"
    by (rule Cons.IH) (use Cons.prems in auto)
  then have "for_each (processingDone os quiet) (p # ps) m =
      Inr (?m\<lparr>heap := (\<lambda>q. if q \<in> set (p # ps) then map_option settle (heap m q) else heap m q),
           trace := trace ?m @ concat (map (farewell m) ps)\<rparr>)"
    by (simp only: for_each.simps processingDone_quiet [OF c] bind_res.simps h f)
  then show ?case by simp
qed simp

text \<open>
  C20: at the end of a round every client that is disconnecting becomes disconnected and is told
  so exactly once, in the order of registration; no other client is told, or changed; and
  repeating the phase tells nobody anything.
\<close>

theorem disconnect_told_once:
  assumes "machine_inv os {} m"
  shows "\<exists>m'. done_phase os quiet m = Inr m' \<and>
    trace m' = trace m @ concat (map (farewell m) (clients m)) \<and>
    (\<forall>p. heap m' p = map_option settle (heap m p)) \<and>
    done_phase os quiet m' = Inr m'"
proof -
  let ?m = "m\<lparr>heap := (\<lambda>p. map_option settle (heap m p)),
    trace := trace m @ concat (map (farewell m) (clients m))\<rparr>"
  have reg: "distinct (clients m)" "\<forall>p. p \<in> set (clients m) \<longleftrightarrow> heap m p \<noteq> None"
    "\<not> managerMutex m"
    using assms by (simp_all add: machine_inv_def registry_inv_def)
  have h: "(\<lambda>p. if p \<in> set (clients m) then map_option settle (f p) else f p) =
      (\<lambda>p. map_option settle (f p))" if "\<forall>p. f p = None \<longleftrightarrow> heap m p = None" for f
    using reg(2) that by (metis (no_types, lifting) option.map_disc_iff option.map(1))
  have "done_phase os quiet m = Inr ?m"
    using done_all [OF reg(1), of m os] reg(2) h [of "heap m"]
    by (simp add: done_phase_def collect_clients_eq [OF assms])
  moreover have "done_phase os quiet ?m = Inr ?m"
  proof -
    have s: "settle (settle c) = settle c" for c :: "'b ClientBase" by (simp add: settle_def)
    have idem: "map_option settle (map_option settle x) = map_option settle x"
      for x :: "'b ClientBase option"
      by (cases x) (simp_all add: s)
    have nil: "farewell ?m p = []" for p
      by (simp add: farewell_def settle_def split: option.split)
    have "machine_inv os {} ?m"
      using assms by (fastforce simp: machine_inv_def heap_inv_def registry_inv_def settle_def
          space_inv_def link_inv_def isOpen_def split: if_splits)
    from collect_clients_eq [OF this, of "\<lambda>c. True"] show ?thesis
      using done_all [OF reg(1), of ?m os] reg(2) h [of "heap ?m"] nil
      by (simp add: done_phase_def idem)
  qed
  ultimately show ?thesis by simp
qed

theorem disconnect_told_once_witness:
  "\<exists>m'. done_phase (sample_os True) quiet (one_client (listening DISCONNECTING (-1)) []) = Inr m' \<and>
    trace m' = [(4096, EvDisconnect)]"
proof -
  have "client_inv (sample_os True) (listening DISCONNECTING (-1))"
    by (simp add: client_inv_defs isOpen_def INITIAL_WRITE_SPACE_def sample_os_def)
  from disconnect_told_once [OF one_client_inv [OF this], of "[]"] show ?thesis
    by (auto simp: farewell_def)
qed

text \<open>
  A client that is closed and connects again before the worker's next round has its
  \<open>DISCONNECT\<close> notification lost: the round finds it connecting and tells it nothing.
\<close>

lemma reconnect_loses_disconnect:
  assumes "client_inv os c" and "isOpen c" and "close_client os c w = Inr (c1, w1)"
    and "connect_ip os ip port c1 w1 = (True, c2, w2)" and "heap m p = Some c2"
  shows "conn_state c1 = DISCONNECTING \<and> processingDone os U p m = Inr m"
proof -
  have c1: "conn_state c1 = DISCONNECTING"
    using assms(1-3) client_inv_unlocked [OF assms(1)]
    by (auto simp: close_client_def close_socket_eq)
  have "conn_state c2 = CONNECTING"
    using connect_ip_cases [of c1 os ip port w1] assms(4) by fastforce
  with assms(5) c1 show ?thesis by (simp add: processingDone_def get_client_def)
qed

lemma reconnect_loses_disconnect_example:
  "\<exists>c1 w1 c2 w2. close_client (sample_os True) (listening CONNECTED 50) (sample_start []) = Inr (c1, w1) \<and>
    connect_ip (sample_os True) 7 80 c1 w1 = (True, c2, w2) \<and>
    processingDone (sample_os True) quiet 4096 (one_client c2 []) = Inr (one_client c2 [])"
proof -
  have inv: "client_inv (sample_os True) (listening CONNECTED 50)"
    by (simp add: client_inv_defs isOpen_def INITIAL_WRITE_SPACE_def sample_os_def)
  obtain c1 w1 where c1: "close_client (sample_os True) (listening CONNECTED 50) (sample_start []) =
      Inr (c1, w1)" "\<not> isOpen c1"
    using close_outcome [OF inv, of "sample_start []"] by blast
  have "fst (connect_ip (sample_os True) 7 80 c1 w1)"
    using c1(2) by (auto simp: connect_ip_def sample_os_def EINPROGRESS_def split: prod.splits)
  then obtain c2 w2 where c2: "connect_ip (sample_os True) 7 80 c1 w1 = (True, c2, w2)"
    by (metis prod.collapse)
  have "isOpen (listening CONNECTED 50)" by (simp add: isOpen_def)
  from reconnect_loses_disconnect [OF inv this c1(1) c2, of "one_client c2 []" 4096 quiet] c1(1) c2
  show ?thesis by auto
qed

section \<open>Registration\<close>

text \<open>
  Creating a client registers it and deleting it takes it out again: the registry and the
  objects alive are then exactly what they were, so the worker never visits a deleted client.
\<close>

lemma new_delete_roundtrip:
  assumes "new_law os" and "machine_inv os {} m" and "new_client os fd m = Inr (p, m1)"
  shows "p \<notin> set (clients m) \<and> clients m1 = clients m @ [p] \<and> heap m1 p \<noteq> None \<and>
    (\<exists>m2. delete_client os p m1 = Inr m2 \<and> clients m2 = clients m \<and> heap m2 = heap m \<and>
      machine_inv os {} m2)"
proof -
  from new_client_holds [OF assms(1,2), of fd] assms(3) obtain c where
    m1: "machine_inv os {} m1" "heap m p = None" "clients m1 = clients m @ [p]"
      "heap m1 = (heap m)(p \<mapsto> c)"
    by auto
  then have p: "p \<notin> set (clients m)" and "heap m1 p \<noteq> None"
    using assms(2) by (auto simp: machine_inv_def registry_inv_def)
  from delete_client_live [OF m1(1) this(2)] obtain m2 where
    "delete_client os p m1 = Inr m2" "machine_inv os {} m2" "heap m2 = (heap m1)(p := None)"
    "clients m2 = removeAll p (clients m1)"
    using holds_total by blast
  with m1 p show ?thesis by (auto simp: fun_upd_idem)
qed

lemma new_delete_roundtrip_example:
  "\<exists>p m1 m2. new_client (sample_os True) (Some 51) (start_machine (sample_start [])) = Inr (p, m1) \<and>
    delete_client (sample_os True) p m1 = Inr m2 \<and> clients m2 = []"
proof -
  let ?r = "new_client (sample_os True) (Some 51) (start_machine (sample_start []))"
  have "case ?r of Inr (p, m1) \<Rightarrow> True | Inl e \<Rightarrow> False" by code_simp
  then obtain p m1 where r: "?r = Inr (p, m1)" by (auto split: sum.splits)
  from new_delete_roundtrip [OF sample_new_law start_inv r] r show ?thesis
    by (auto simp: start_machine_def)
qed

section \<open>Waiting\<close>

lemma fold_clients:
  assumes "fold (\<lambda>p (n, rs, ws).
      let c = the (h p); fd = socket c
      in if fd \<noteq> -1 then (max n (fd + 1), rs @ [fd], if pendingWrite c then ws @ [fd] else ws)
         else (n, rs, ws)) ps (n, rs, ws) = (n' :: int, rs', ws')"
  shows "n \<le> n' \<and> (\<forall>p \<in> set ps. socket (the (h p)) \<noteq> -1 \<longrightarrow> socket (the (h p)) < n') \<and>
    set rs' = set rs \<union> {socket (the (h p)) |p. p \<in> set ps \<and> socket (the (h p)) \<noteq> -1} \<and>
    set ws' = set ws \<union> {socket (the (h p)) |p. p \<in> set ps \<and> socket (the (h p)) \<noteq> -1 \<and>
      pendingWrite (the (h p))}"
  using assms
proof (induction ps arbitrary: n rs ws)
  case (Cons p ps)
  show ?case
  proof (cases "socket (the (h p)) = -1")
    case True
    with Cons.IH [of n rs ws] Cons.prems show ?thesis by auto
  next
    case False
    let ?fd = "socket (the (h p))"
    let ?ws = "if pendingWrite (the (h p)) then ws @ [?fd] else ws"
    from Cons.prems False have "fold (\<lambda>p (n, rs, ws).
      let c = the (h p); fd = socket c
      in if fd \<noteq> -1 then (max n (fd + 1), rs @ [fd], if pendingWrite c then ws @ [fd] else ws)
         else (n, rs, ws)) ps (max n (?fd + 1), rs @ [?fd], ?ws) = (n', rs', ws')"
      by (simp add: Let_def)
    from Cons.IH [OF this] False show ?thesis by auto
  qed
qed simp

lemma fold_servers:
  assumes "fold (\<lambda>p (n, rs, ws).
      let fd = socket (the (h p))
      in if fd \<noteq> -1 \<and> free then (max n (fd + 1), rs @ [fd], ws) else (n, rs, ws)) ps (n, rs, ws) =
        (n' :: int, rs', ws')"
  shows "n \<le> n' \<and> (\<forall>p \<in> set ps. socket (the (h p)) \<noteq> -1 \<and> free \<longrightarrow> socket (the (h p)) < n') \<and>
    set rs' = set rs \<union> {socket (the (h p)) |p. p \<in> set ps \<and> socket (the (h p)) \<noteq> -1 \<and> free} \<and>
    ws' = ws"
  using assms
proof (induction ps arbitrary: n rs)
  case (Cons p ps)
  let ?fd = "socket (the (h p))"
  show ?case
  proof (cases "?fd \<noteq> -1 \<and> free")
    case False
    with Cons.IH [of n rs] Cons.prems show ?thesis by (auto simp: Let_def)
  next
    case True
    with Cons.IH [of "max n (?fd + 1)" "rs @ [?fd]"] Cons.prems show ?thesis
      by (auto simp: Let_def)
  qed
qed simp

text \<open>
  C21: the worker waits on exactly the right descriptors: for reading, the socket of every open
  client, and of every open server while a socket is free; for writing, the socket of every open
  client with a pending write. The bound handed to \<open>select\<close> exceeds all of them, and the
  descriptor \<open>-1\<close> of a closed connection is never among them.
\<close>

theorem waits_on_open_sockets:
  assumes "machine_inv os {} m"
  shows "\<exists>n rs ws. gather os m = Inr ((n, rs, ws), m) \<and>
    set rs = {socket c |p c. heap m p = Some c \<and> isOpen c} \<union>
      {socket s |p s. server_heap m p = Some s \<and> isOpen s \<and> hasFreeSocket os m} \<and>
    set ws = {socket c |p c. heap m p = Some c \<and> isOpen c \<and> pendingWrite c} \<and>
    (\<forall>fd \<in> set rs. fd < n) \<and> -1 \<notin> set rs"
proof -
  have reg: "p \<in> set (clients m) \<longleftrightarrow> (\<exists>c. heap m p = Some c)"
    "p \<in> set (servers m) \<longleftrightarrow> (\<exists>s. server_heap m p = Some s)" for p
    using assms by (auto simp: machine_inv_def registry_inv_def)
  obtain n1 rs1 ws1 where c: "fold (\<lambda>p (n, rs, ws).
      let c = the (heap m p); fd = socket c
      in if fd \<noteq> -1 then (max n (fd + 1), rs @ [fd], if pendingWrite c then ws @ [fd] else ws)
         else (n, rs, ws)) (clients m) (0 :: int, [], []) = (n1, rs1, ws1)"
    by (rule prod_cases3)
  obtain n rs ws where s: "fold (\<lambda>p (n, rs, ws).
      let fd = socket (the (server_heap m p))
      in if fd \<noteq> -1 \<and> hasFreeSocket os m then (max n (fd + 1), rs @ [fd], ws) else (n, rs, ws))
      (servers m) (n1, rs1, ws1) = (n, rs, ws)"
    by (rule prod_cases3)
  have g: "gather os m = Inr ((n, rs, ws), m)"
    using gather_eq [OF assms] by (simp add: gather_fds_def c s)
  note fc = fold_clients [OF c] and fs = fold_servers [OF s]
  have r1: "{socket (the (heap m p)) |p. p \<in> set (clients m) \<and> socket (the (heap m p)) \<noteq> -1} =
      {socket c |p c. heap m p = Some c \<and> isOpen c}"
    unfolding reg isOpen_def by (rule Collect_cong) (metis option.sel)
  have r2: "{socket (the (server_heap m p)) |p. p \<in> set (servers m) \<and>
        socket (the (server_heap m p)) \<noteq> -1 \<and> hasFreeSocket os m} =
      {socket s |p s. server_heap m p = Some s \<and> isOpen s \<and> hasFreeSocket os m}"
    unfolding reg isOpen_def by (rule Collect_cong) (metis option.sel)
  have r3: "{socket (the (heap m p)) |p. p \<in> set (clients m) \<and> socket (the (heap m p)) \<noteq> -1 \<and>
        pendingWrite (the (heap m p))} =
      {socket c |p c. heap m p = Some c \<and> isOpen c \<and> pendingWrite c}"
    unfolding reg isOpen_def by (rule Collect_cong) (metis option.sel)
  have "set rs = {socket c |p c. heap m p = Some c \<and> isOpen c} \<union>
      {socket s |p s. server_heap m p = Some s \<and> isOpen s \<and> hasFreeSocket os m}"
    using fc fs r1 r2 by simp
  moreover have "set ws = {socket c |p c. heap m p = Some c \<and> isOpen c \<and> pendingWrite c}"
    using fc fs r3 by simp
  moreover have "\<forall>fd \<in> set rs. fd < n"
  proof
    fix fd assume "fd \<in> set rs"
    with fc fs consider p where "p \<in> set (clients m)" "fd = socket (the (heap m p))" "fd \<noteq> -1"
      | p where "p \<in> set (servers m)" "fd = socket (the (server_heap m p))" "fd \<noteq> -1" "hasFreeSocket os m"
      by auto
    then show "fd < n" by cases (use fc fs in fastforce)+
  qed
  moreover have "-1 \<notin> set rs" using fc fs by auto
  ultimately show ?thesis using g by blast
qed

theorem waits_on_open_sockets_witness:
  "\<exists>n rs ws. gather (sample_os True) (one_client (listening CONNECTING 50) []) =
      Inr ((n, rs, ws), one_client (listening CONNECTING 50) []) \<and> 50 \<in> set rs \<and> 50 \<in> set ws \<and> 50 < n"
proof -
  have "client_inv (sample_os True) (listening CONNECTING 50)"
    by (simp add: client_inv_defs isOpen_def INITIAL_WRITE_SPACE_def sample_os_def)
  from waits_on_open_sockets [OF one_client_inv [OF this], of "[]"] obtain n rs ws where
    g: "gather (sample_os True) (one_client (listening CONNECTING 50) []) =
      Inr ((n, rs, ws), one_client (listening CONNECTING 50) [])"
    and rs: "set rs = {50}" and ws: "set ws = {50}" and n: "\<forall>fd \<in> set rs. fd < n"
    by (fastforce simp: isOpen_def pendingWrite_def)
  then show ?thesis by auto
qed

section \<open>Accepting\<close>

text \<open>
  C24: a server without an accept handler leaves the connection in the backlog, and a failing
  \<open>accept\<close> changes nothing. Otherwise exactly one new client is registered, connected on the
  accepted descriptor, and the application is handed it.
\<close>

theorem accept_outcome:
  assumes "new_law os" and "machine_inv os {} m" and "server_heap m p = Some s"
    and "sys_accept os (socket s) (world m) = (fd, w1)"
    and "server_readable os quiet p m = Inr m'"
  shows "if acceptHandler (sv_callbacks s) = None then m' = m
    else if fd < 0 then m' = m\<lparr>world := w1\<rparr>
    else \<exists>q c. q \<notin> set (clients m) \<and> clients m' = clients m @ [q] \<and>
      heap m' = (heap m)(q \<mapsto> c) \<and> socket c = fd \<and> (0 < fd \<longrightarrow> connected c) \<and>
      writeQueue c = [] \<and> trace m' = trace m @ [(p, EvAccept q)]"
proof (cases "acceptHandler (sv_callbacks s) = None \<or> fd < 0")
  case True
  with assms show ?thesis by (auto simp: server_readable_def get_server_def)
next
  case False
  then obtain h where h: "acceptHandler (sv_callbacks s) = Some h" and fd: "0 \<le> fd" by auto
  let ?m = "m\<lparr>world := w1\<rparr>"
  have inv: "machine_inv os {} ?m" using assms(2) by simp
  from assms(3-5) h fd obtain q m2 where n: "new_client os (Some fd) ?m = Inr (q, m2)"
    by (auto simp: server_readable_def get_server_def bind_res_Inr_iff)
  from n obtain q1 w2 where a1: "allocate os ?m = Inr (q1, w2)"
    by (cases "allocate os ?m") (auto simp: new_client_def)
  obtain c w3 where c: "construct_client os (Some fd) w2 = (c, w3)" by fastforce
  from allocate_holds [OF assms(1) inv] a1 have q1: "q1 \<noteq> 0" "heap m q1 = None" "server_heap m q1 = None"
    by auto
  have un: "\<not> managerMutex ?m" using inv by (simp add: machine_inv_def registry_inv_def)
  from new_client_eq [OF a1 c un q1(1)] n have "q1 = q"
    and m2: "m2 = (put_client q c w3 ?m)\<lparr>clients := clients m @ [q]\<rparr>" by auto
  with q1 have q: "heap m q = None" "server_heap m q = None" by simp_all
  have conn: "socket c = fd" "0 < fd \<longrightarrow> connected c" "writeQueue c = []"
    using c by (auto simp: construct_client_def ClientBase_accepted_def ClientBase_fields_def Let_def
        connected_def configureSocket_def split: prod.splits if_splits)
  have "q \<notin> set (clients m)" using assms(2) q by (auto simp: machine_inv_def registry_inv_def)
  moreover have "m' = m2\<lparr>trace := trace m @ [(p, EvAccept q)],
      world := setNoDelay os (noDelay s) c (world m2)\<rparr>"
    using assms(3-5) h fd n q
    by (auto simp: server_readable_def get_server_def get_client_def m2 put_client_def
        invoke_accept_def quiet_def Let_def)
  ultimately show ?thesis using h fd conn by (auto simp: m2 put_client_def)
qed

definition one_server :: "nat \<Rightarrow> (sample_world, u32) machine" where
  "one_server port =
     (start_machine (sample_start []))\<lparr>server_heap :=
        [8192 \<mapsto> Server_onClient (Some 1) 0
          ((fst (Server_new (sample_os True) None (of_nat port) (sample_start [])))\<lparr>socket := 40\<rparr>)],
      servers := [8192]\<rparr>"

lemma one_server_inv: "machine_inv (sample_os True) {} (one_server port)"
  by (simp add: one_server_def start_machine_def machine_inv_def heap_inv_def registry_inv_def)

theorem accept_outcome_witness:
  "\<exists>m' q. server_readable (sample_os True) quiet 8192 (one_server 80) = Inr m' \<and>
    clients m' = [q] \<and> trace m' = [(8192, EvAccept q)]"
proof -
  let ?r = "server_readable (sample_os True) quiet 8192 (one_server 80)"
  have "case ?r of Inr m' \<Rightarrow> True | Inl e \<Rightarrow> False" by code_simp
  then obtain m' where r: "?r = Inr m'" by (auto split: sum.splits)
  obtain s where s: "server_heap (one_server 80) 8192 = Some s" "acceptHandler (sv_callbacks s) = Some 1"
    by (simp add: one_server_def Server_onClient_def)
  have a: "sys_accept (sample_os True) (socket s) (world (one_server 80)) = (51, sample_start [])"
    by (simp add: sample_os_def one_server_def start_machine_def)
  from accept_outcome [OF sample_new_law one_server_inv s(1) a r] s(2) r show ?thesis
    by (auto simp: one_server_def start_machine_def)
qed

end
