(* ===== verification/SslClient.thy ===== *)
theory SslClient
  imports HandlerProperties
begin

text \<open>
  \<open>SslClient\<close> (\<open>SslClient.hpp\<close>, \<open>SslClient.cpp\<close>) as it is built without
  \<open>ASYNC_TCP_SSL_ENABLED\<close>, and the virtual dispatch from \<open>ClientBase.tpp\<close> into it. The class
  overrides the virtual \<open>connect\<close>, \<open>_close\<close> and \<open>_processWriteQueue\<close>. Its \<open>_sockIsWriteable\<close> and
  \<open>_sockIsReadable\<close> only hide those of \<open>ClientBase\<close>, which are not virtual: the manager, which
  holds a \<open>Client*\<close>, never calls them.
\<close>

section \<open>The class\<close>

datatype ClientClass = Is_Client | Is_SslClient

definition ssl_connect_ip ::
  "('w, 'ip) os \<Rightarrow> 'ip \<Rightarrow> u16 \<Rightarrow> 'ip ClientBase \<Rightarrow> 'w \<Rightarrow> bool \<times> 'ip ClientBase \<times> 'w"
where
  "ssl_connect_ip os ip port c w = connect_ip os ip port c w"

definition ssl_connect_host ::
  "('w, 'ip) os \<Rightarrow> ptr \<Rightarrow> string \<Rightarrow> u16 \<Rightarrow> 'ip ClientBase \<Rightarrow> 'w \<Rightarrow> bool \<times> 'ip ClientBase \<times> 'w"
where
  "ssl_connect_host os self host port c w = connect_host os self host port c w"

definition ssl_close ::
  "('w, 'ip) os \<Rightarrow> 'ip ClientBase \<Rightarrow> 'w \<Rightarrow> ('ip ClientBase \<times> 'w) res"
where
  "ssl_close os c w = close_socket os c w"

definition ssl_runSSLHandshakeLoop :: int where
  "ssl_runSSLHandshakeLoop = 0"

definition ssl_processWriteQueue ::
  "'ip ClientBase \<Rightarrow> 'w \<Rightarrow> (bool \<times> 'ip ClientBase \<times> 'w) res"
where
  "ssl_processWriteQueue c w = Inr (False, c, w)"

section \<open>Virtual dispatch\<close>

text \<open>The call of \<open>_processWriteQueue\<close> in \<open>send\<close> and \<open>_sockIsWriteable\<close>, by the object's class.\<close>

fun virtual_processWriteQueue ::
  "ClientClass \<Rightarrow> ('w, 'ip) os \<Rightarrow> 'ip ClientBase \<Rightarrow> 'w \<Rightarrow> (bool \<times> 'ip ClientBase \<times> 'w) res"
where
  "virtual_processWriteQueue Is_Client os c w = process_locked os c w"
| "virtual_processWriteQueue Is_SslClient os c w = ssl_processWriteQueue c w"

definition send_of ::
  "ClientClass \<Rightarrow> ('w, 'ip) os \<Rightarrow> 'ip ClientBase \<Rightarrow> 'w \<Rightarrow> (bool \<times> 'ip ClientBase \<times> 'w) res"
where
  "send_of cls os c w =
     (if \<not> connected c then Inr (False, c, w)
      else
        let (ready, w1) = select_w os (socket c) w
        in if 0 < ready then
             bind_res (lock_write c) (\<lambda>c1.
               if writeQueue c1 \<noteq> [] then
                 bind_res (virtual_processWriteQueue cls os c1 w1) (\<lambda>(activity, c2, w2).
                   Inr (activity, unlock_write c2, w2))
               else Inr (False, unlock_write c1, w1))
           else Inr (False, c, w1))"

definition write_bytes_of ::
  "ClientClass \<Rightarrow> ('w, 'ip) os \<Rightarrow> ptr \<Rightarrow> size_t \<Rightarrow> ClientApiFlags \<Rightarrow> 'ip ClientBase \<Rightarrow> 'w \<Rightarrow>
     (size_t \<times> 'ip ClientBase \<times> 'w) res"
where
  "write_bytes_of cls os data sz apiFlags c w =
     bind_res (add os data sz apiFlags c w) (\<lambda>(toSend, c1, w1).
       if toSend = 0 then Inr (0, c1, w1)
       else if flags_test apiFlags IMMEDIATE then
         bind_res (send_of cls os c1 w1) (\<lambda>(success, c2, w2).
           if \<not> success then Inr (0, c2, w2) else Inr (toSend, c2, w2))
       else Inr (toSend, c1, w1))"

definition writeable_section_of ::
  "ClientClass \<Rightarrow> ('w, 'ip) os \<Rightarrow> ('w, 'ip) usercode \<Rightarrow> ptr \<Rightarrow> bool \<Rightarrow> ('w, 'ip) machine \<Rightarrow>
     (bool \<times> ('w, 'ip) machine) res"
where
  "writeable_section_of cls os U p activity m =
     bind_res (get_client p m) (\<lambda>c.
     bind_res (lock_write c) (\<lambda>c1.
       if conn_state c1 = CONNECTED \<and> writeQueue c1 \<noteq> [] then
         bind_res (virtual_processWriteQueue cls os c1 (world m)) (\<lambda>(activity1, c2, w2).
         bind_res (cleanupWriteQueue os U p (put_client p c2 w2 m)) (\<lambda>m1.
           Inr (activity1, m1)))
       else Inr (activity, put_client p (unlock_write c1) (world m) m)))"

definition sockIsWriteable_of ::
  "ClientClass \<Rightarrow> ('w, 'ip) os \<Rightarrow> ('w, 'ip) usercode \<Rightarrow> ptr \<Rightarrow> ('w, 'ip) machine \<Rightarrow>
     (bool \<times> ('w, 'ip) machine) res"
where
  "sockIsWriteable_of cls os U p m =
     bind_res (get_client p m) (\<lambda>c.
       if conn_state c \<noteq> CONNECTED then
         let ((result, errno, socketError), w1) = getsockopt_error os (socket c) (world m);
             m1 = m\<lparr>world := w1\<rparr>
         in if result < 0 then
              bind_res (error_at os U p errno m1) (\<lambda>m2. Inr (False, m2))
            else if socketError \<noteq> 0 then
              bind_res (error_at os U p socketError m1) (\<lambda>m2. Inr (False, m2))
            else
              let (now, w2) = steady_now os w1;
                  c1 = c\<lparr>conn_state := CONNECTED, rx_last_packet := now,
                         ack_timeout_signaled := False\<rparr>
              in bind_res (invoke os U p EvConnect (put_client p c1 w2 m))
                   (writeable_section_of cls os U p True)
       else writeable_section_of cls os U p False m)"

text \<open>For a plain \<open>Client\<close> these are the definitions of the theories before.\<close>

lemma of_Client [simp]:
  "send_of Is_Client = send"
  "write_bytes_of Is_Client = write_bytes"
  "writeable_section_of Is_Client = writeable_section"
  "sockIsWriteable_of Is_Client = sockIsWriteable"
proof -
  show s: "send_of Is_Client = send"
    unfolding fun_eq_iff send_of_def send_def virtual_processWriteQueue.simps by (intro allI refl)
  show "write_bytes_of Is_Client = write_bytes"
    unfolding fun_eq_iff write_bytes_of_def write_bytes_def s by (intro allI refl)
  show w: "writeable_section_of Is_Client = writeable_section"
    unfolding fun_eq_iff writeable_section_of_def writeable_section_def
      virtual_processWriteQueue.simps by (intro allI refl)
  show "sockIsWriteable_of Is_Client = sockIsWriteable"
    unfolding fun_eq_iff sockIsWriteable_of_def sockIsWriteable_def w by (intro allI refl)
qed

section \<open>The contract of the virtual function\<close>

text \<open>
  What the callers rely on, whichever class provides it: it returns, changes the queue and the
  free space only, keeps their sum and the number of entries.
\<close>

locale queue_pass =
  fixes ok :: bool and os :: "('w, 'ip) os" and cls :: ClientClass
  assumes pass_ok: "ok \<Longrightarrow> space_inv os c \<Longrightarrow> \<exists>a q s w'.
    virtual_processWriteQueue cls os c w =
      Inr (a, c\<lparr>writeQueue := q, writeSpaceRemaining := s\<rparr>, w') \<and>
    space_inv os (c\<lparr>writeQueue := q, writeSpaceRemaining := s\<rparr>) \<and> length q = length (writeQueue c)"
begin

lemma pass_locked:
  assumes "ok" and "client_inv os c"
  shows "\<exists>a c2 w2. virtual_processWriteQueue cls os (c\<lparr>writeMutex := True\<rparr>) w = Inr (a, c2, w2) \<and>
    writeMutex c2 \<and> space_inv os c2 \<and> link_inv c2 \<and> client_inv os (unlock_write c2)"
proof -
  let ?c = "c\<lparr>writeMutex := True\<rparr>"
  have "space_inv os ?c" using assms(2) by (simp add: client_inv_defs)
  from pass_ok [OF assms(1) this, of w] obtain a q s w2 where
    p: "virtual_processWriteQueue cls os ?c w =
      Inr (a, ?c\<lparr>writeQueue := q, writeSpaceRemaining := s\<rparr>, w2)"
    and q: "space_inv os (?c\<lparr>writeQueue := q, writeSpaceRemaining := s\<rparr>)"
      "length q = length (writeQueue c)" by auto
  have "q = [] \<longleftrightarrow> writeQueue c = []" using q(2) by auto
  with assms(2) q(1) p show ?thesis
    by (auto simp: client_inv_defs isOpen_def unlock_write_def)
qed

lemma send_via_keeps:
  assumes "ok" and "client_inv os c"
  shows "keeps os (send_of cls os c w)"
proof -
  have un: "\<not> writeMutex c" by (rule client_inv_unlocked [OF assms(2)])
  obtain r w1 where s: "select_w os (socket c) w = (r, w1)" by fastforce
  have "client_inv os (c\<lparr>writeMutex := False\<rparr>)"
    using assms(2) by (auto simp: client_inv_defs isOpen_def)
  with pass_locked [OF assms, of w1] assms(2) un show ?thesis
    by (auto simp: send_of_def s lock_write_def unlock_write_def)
qed

lemma section_keeps:
  assumes "ok" and "platform_ok os" and "machine_inv os {} m"
  shows "holds app_faults (\<lambda>(b, m1). machine_inv os {} m1) (writeable_section_of cls os U p act m)"
  unfolding writeable_section_of_def holds_bind
proof (rule get_client_holds, goal_cases)
  case (1 c)
  have inv: "client_inv os c" using machine_inv_client [OF assms(3) 1] by simp
  have un: "\<not> writeMutex c" by (rule client_inv_unlocked [OF inv])
  obtain a c2 w2 where
    p: "virtual_processWriteQueue cls os (c\<lparr>writeMutex := True\<rparr>) (world m) = Inr (a, c2, w2)"
    and c2: "writeMutex c2" "space_inv os c2" "link_inv c2"
    using pass_locked [OF assms(1) inv, of "world m"] by auto
  have "machine_inv os {p} (put_client p c2 w2 m)"
    using machine_inv_put_locked [OF assms(3) _ c2(2,3,1), of p w2] 1 by simp
  from any_app.cleanupWriteQueue_ok [OF assms(2), of p "{p}" _ "{}"] this
  have "holds app_faults (machine_inv os {}) (cleanupWriteQueue os U p (put_client p c2 w2 m))"
    by (simp add: safe_any alive_def)
  moreover have "client_inv os (c\<lparr>writeMutex := False\<rparr>)"
    using inv by (auto simp: client_inv_defs isOpen_def)
  then have "machine_inv os {} (put_client p (c\<lparr>writeMutex := False\<rparr>) (world m) m)"
    using machine_inv_put [OF assms(3), of p _ "world m"] 1 by simp
  ultimately show ?case
    using un by (auto simp: lock_write_def unlock_write_def p elim!: holds_mono)
qed simp

end

interpretation client_pass: queue_pass "write_sound os" os Is_Client
  for os :: "('w, 'ip) os"
proof
  fix c :: "'ip ClientBase" and w :: 'w
  assume "write_sound os" and "space_inv os c"
  from process_locked_ok [OF this, of w] show "\<exists>a q s w'.
    virtual_processWriteQueue Is_Client os c w =
      Inr (a, c\<lparr>writeQueue := q, writeSpaceRemaining := s\<rparr>, w') \<and>
    space_inv os (c\<lparr>writeQueue := q, writeSpaceRemaining := s\<rparr>) \<and> length q = length (writeQueue c)"
    by auto
qed

interpretation ssl_pass: queue_pass True os Is_SslClient
  for os :: "('w, 'ip) os"
proof
  fix c :: "'ip ClientBase" and w :: 'w
  assume "space_inv os c"
  then show "\<exists>a q s w'.
    virtual_processWriteQueue Is_SslClient os c w =
      Inr (a, c\<lparr>writeQueue := q, writeSpaceRemaining := s\<rparr>, w') \<and>
    space_inv os (c\<lparr>writeQueue := q, writeSpaceRemaining := s\<rparr>) \<and> length q = length (writeQueue c)"
    by (intro exI [of _ False] exI [of _ "writeQueue c"] exI [of _ "writeSpaceRemaining c"] exI [of _ w])
      (simp add: ssl_processWriteQueue_def)
qed

end
