(* ===== verification/StreamProperties.thy ===== *)
theory StreamProperties
  imports ManagerProperties SslClient
begin

text \<open>
  The byte stream of one connection, end to end: from the application's memory through
  \<open>add\<close>, \<open>send\<close> and the worker's write handler to the socket.
\<close>

section \<open>What happens to a connection\<close>

text \<open>
  \<open>select\<close> sends nothing and leaves memory alone, like the calls of \<open>stream_law\<close>.
\<close>

definition wire_law :: "('w, 'ip) os \<Rightarrow> ('w \<Rightarrow> int \<Rightarrow> byte list) \<Rightarrow> bool" where
  "wire_law os sent \<longleftrightarrow> stream_law os sent \<and>
     (\<forall>fd w r w'. select_w os fd w = (r, w') \<longrightarrow> sent w' fd = sent w fd \<and> mem os w' = mem os w)"

text \<open>The application queues bytes or pushes; the worker finds the socket writeable.\<close>

datatype stream_op = Put ptr size_t ClientApiFlags | Push | Writeable

text \<open>A step also returns the bytes it took from the application.\<close>

fun stream_step ::
  "ClientClass \<Rightarrow> ('w, 'ip) os \<Rightarrow> ptr \<Rightarrow> stream_op \<Rightarrow> ('w, 'ip) machine \<Rightarrow> (byte list \<times> ('w, 'ip) machine) res"
where
  "stream_step cls os p (Put data sz flags) m =
     bind_res (get_client p m) (\<lambda>c.
     bind_res (add os data sz flags c (world m)) (\<lambda>(n, c1, w1).
       Inr (read_mem (mem os w1) data n, put_client p c1 w1 m)))"
| "stream_step cls os p Push m =
     bind_res (get_client p m) (\<lambda>c.
     bind_res (send_of cls os c (world m)) (\<lambda>(activity, c1, w1). Inr ([], put_client p c1 w1 m)))"
| "stream_step cls os p Writeable m =
     bind_res (sockIsWriteable_of cls os quiet p m) (\<lambda>(activity, m1). Inr ([], m1))"

fun stream_run ::
  "ClientClass \<Rightarrow> ('w, 'ip) os \<Rightarrow> ptr \<Rightarrow> stream_op list \<Rightarrow> ('w, 'ip) machine \<Rightarrow>
     (byte list \<times> ('w, 'ip) machine) res"
where
  "stream_run cls os p [] m = Inr ([], m)"
| "stream_run cls os p (op # ops) m =
     bind_res (stream_step cls os p op m) (\<lambda>(bs, m1).
     bind_res (stream_run cls os p ops m1) (\<lambda>(bs', m2). Inr (bs @ bs', m2)))"

text \<open>What the socket has accepted followed by what is still queued.\<close>

definition in_flight ::
  "('w, 'ip) os \<Rightarrow> ('w \<Rightarrow> int \<Rightarrow> byte list) \<Rightarrow> 'ip ClientBase \<Rightarrow> 'w \<Rightarrow> byte list"
where
  "in_flight os sent c w =
     sent w (socket c) @ concat (map (pending_bytes (mem os w)) (writeQueue c))"

section \<open>Every step keeps the stream\<close>

definition wire_ok ::
  "('w, 'ip) os \<Rightarrow> ('w \<Rightarrow> int \<Rightarrow> byte list) \<Rightarrow> ('w \<Rightarrow> int \<Rightarrow> bool) \<Rightarrow> bool"
where
  "wire_ok os sent stuck \<longleftrightarrow> platform_ok os \<and> wire_law os sent \<and> sticky_law os stuck"

lemma wire_okD:
  assumes "wire_ok os sent stuck"
  shows "platform_ok os" "stream_law os sent" "sticky_law os stuck"
    "write_sound os \<and> stream_law os sent \<and> sticky_law os stuck"
    "select_w os fd w = (r, w') \<Longrightarrow> sent w' fd = sent w fd \<and> mem os w' = mem os w"
  using assms platform_okD(1) by (auto simp: wire_ok_def wire_law_def)

text \<open>The state a step starts from and ends in: up with the stream so far, or down for good.\<close>

definition stream_state ::
  "('w, 'ip) os \<Rightarrow> ('w \<Rightarrow> int \<Rightarrow> byte list) \<Rightarrow> ptr \<Rightarrow> int \<Rightarrow> byte list \<Rightarrow> ('w, 'ip) machine \<Rightarrow> bool"
where
  "stream_state os sent p fd bs m \<longleftrightarrow> machine_inv os {} m \<and>
     (\<exists>c. heap m p = Some c \<and>
        (connected c \<and> socket c = fd \<and> in_flight os sent c (world m) = bs \<or>
         conn_state c = DISCONNECTING \<and> \<not> isOpen c))"

lemma stream_state_put:
  assumes "machine_inv os {} m" and "heap m p \<noteq> None" and "client_inv os c"
    and "connected c \<and> socket c = fd \<and> in_flight os sent c w = bs \<or>
      conn_state c = DISCONNECTING \<and> \<not> isOpen c"
  shows "stream_state os sent p fd bs (put_client p c w m)"
  using machine_inv_put [OF assms(1-3), of w] assms(4)
  by (auto simp: stream_state_def put_client_def)

lemma add_sends_nothing:
  assumes "wire_ok os sent stuck" and "add os data sz flags c w = Inr (n, c1, w1)"
  shows "sent w1 fd = sent w fd \<and> mem os w1 = mem os w"
  using assms(2) stream_law_now [OF wire_okD(2) [OF assms(1)]]
  by (auto simp: add_def add_prepare_def Let_def bind_res_Inr_iff split: prod.splits option.splits if_splits)

lemma add_streams:
  assumes "wire_ok os sent stuck" and "client_inv os c"
    and "add os data sz flags c w = Inr (n, c1, w1)"
  shows "in_flight os sent c1 w1 = in_flight os sent c w @ read_mem (mem os w1) data n \<and>
    conn_state c1 = conn_state c \<and> socket c1 = socket c"
proof -
  note same = add_sends_nothing [OF assms(1,3)]
  from add_closed_form [OF assms(2), of data sz flags w] assms(3) show ?thesis
    by (auto simp: in_flight_def same read_mem_def split: if_splits)
qed

lemma pass_streams:
  assumes "wire_ok os sent stuck" and "\<forall>b \<in> set (writeQueue c). buf_ok b"
    and "process_locked os c w = Inr (a, c1, w1)"
  shows "in_flight os sent c1 w1 = in_flight os sent c w \<and> socket c1 = socket c \<and>
    conn_state c1 = conn_state c"
proof -
  from assms(3) obtain q s where
    p: "processWriteQueue os (socket c) (writeQueue c) (writeSpaceRemaining c) w = Some (a, q, s, w1)"
    and c1: "c1 = c\<lparr>writeQueue := q, writeSpaceRemaining := s\<rparr>"
    by (cases "processWriteQueue os (socket c) (writeQueue c) (writeSpaceRemaining c) w")
      (auto simp: process_locked_def)
  from wqf.pass_fifo [OF wire_okD(4) [OF assms(1)] assms(2) p [unfolded processWriteQueue_def]]
  show ?thesis by (simp add: in_flight_def c1)
qed

lemma unlock_streams [simp]:
  "in_flight os sent (unlock_write c) w = in_flight os sent c w"
  "in_flight os sent (c\<lparr>writeMutex := b\<rparr>) w = in_flight os sent c w"
  by (simp_all add: in_flight_def unlock_write_def)

lemma send_streams:
  assumes "wire_ok os sent stuck" and "client_inv os c" and "send os c w = Inr (a, c1, w1)"
  shows "in_flight os sent c1 w1 = in_flight os sent c w \<and> socket c1 = socket c \<and>
    conn_state c1 = conn_state c"
proof (cases "connected c")
  case False
  with assms(3) show ?thesis by (simp add: send_def)
next
  case True
  let ?c = "c\<lparr>writeMutex := True\<rparr>"
  obtain r w2 where s: "select_w os (socket c) w = (r, w2)" by fastforce
  from wire_okD(5) [OF assms(1) s] have same: "in_flight os sent c w2 = in_flight os sent c w"
    by (simp add: in_flight_def)
  have un: "\<not> writeMutex c" by (rule client_inv_unlocked [OF assms(2)])
  show ?thesis
  proof (cases "0 < r \<and> writeQueue c \<noteq> []")
    case False
    with True assms(3) s un have "(c1 = c \<or> c1 = unlock_write ?c) \<and> w1 = w2"
      by (cases "0 < r") (auto simp: send_def lock_write_def)
    with same show ?thesis by (auto simp: unlock_write_def in_flight_def)
  next
    case busy: True
    with True assms(3) s un obtain c2 where p: "process_locked os ?c w2 = Inr (a, c2, w1)"
      and c1: "c1 = unlock_write c2"
      by (auto simp: send_def lock_write_def bind_res_Inr_iff)
    have "\<forall>b \<in> set (writeQueue ?c). buf_ok b" using assms(2) by (simp add: client_inv_defs)
    from pass_streams [OF assms(1) this p] same show ?thesis
      by (simp add: c1) (simp add: unlock_write_def)
  qed
qed

lemma finished_pending: "concat (map (pending_bytes m) (dropWhile finished q)) =
  concat (map (pending_bytes m) q)"
  by (induction q) (auto simp: finished_def pending_bytes_def)

lemma writeable_streams:
  assumes "wire_ok os sent stuck" and "machine_inv os {} m" and "heap m p = Some c"
    and "connected c"
  shows "\<exists>a m1 c1. sockIsWriteable os quiet p m = Inr (a, m1) \<and> heap m1 p = Some c1 \<and>
    (connected c1 \<and> socket c1 = socket c \<and>
       in_flight os sent c1 (world m1) = in_flight os sent c (world m) \<or>
     conn_state c1 = DISCONNECTING \<and> \<not> isOpen c1)"
proof -
  have inv: "client_inv os c" using machine_inv_client [OF assms(2,3)] by simp
  have un: "\<not> writeMutex c" by (rule client_inv_unlocked [OF inv])
  have conn: "conn_state c = CONNECTED" using assms(4) by (simp add: connected_def)
  let ?c = "c\<lparr>writeMutex := True\<rparr>"
  show ?thesis
  proof (cases "writeQueue c = []")
    case True
    have "unlock_write ?c = c" using un by (simp add: unlock_write_def)
    with True assms(3,4) un conn have "sockIsWriteable os quiet p m = Inr (False, m)"
      by (simp add: sockIsWriteable_def writeable_section_def get_client_def lock_write_def put_same)
    with assms(3,4) show ?thesis by blast
  next
    case False
    have sp: "space_inv os ?c" using inv by (simp add: client_inv_defs)
    from process_locked_ok [OF platform_okD(1) [OF wire_okD(1) [OF assms(1)]] sp, of "world m"]
    obtain a c2 w2 where p: "process_locked os ?c (world m) = Inr (a, c2, w2)" by auto
    have "\<forall>b \<in> set (writeQueue ?c). buf_ok b" using sp by (simp add: space_inv_def)
    from pass_streams [OF assms(1) this p]
    have c2: "in_flight os sent c2 w2 = in_flight os sent c (world m)" "socket c2 = socket c"
      "conn_state c2 = CONNECTED" using conn by simp_all
    let ?m = "put_client p c2 w2 m"
    have m: "heap ?m p = Some c2" "world ?m = w2" by (simp_all add: put_client_def)
    have step: "sockIsWriteable os quiet p m =
        bind_res (cleanupWriteQueue os quiet p ?m) (\<lambda>m1. Inr (a, m1))"
      using assms(3) conn un False p
      by (simp add: sockIsWriteable_def writeable_section_def get_client_def lock_write_def)
    show ?thesis
    proof (cases "\<exists>b bs. dropWhile finished (writeQueue c2) = b # bs \<and> hasError b")
      case True
      then obtain b bs where "dropWhile finished (writeQueue c2) = b # bs" "hasError b" by blast
      from cleanup_quiet_error [OF m(1) this, of os] step show ?thesis by fastforce
    next
      case False
      then have "\<forall>b bs. dropWhile finished (writeQueue c2) = b # bs \<longrightarrow> \<not> hasError b"
        by blast
      from cleanup_quiet [OF m(1) this, of os] obtain m1 c1 where
        "cleanupWriteQueue os quiet p ?m = Inr m1" "heap m1 p = Some c1"
        "writeQueue c1 = dropWhile finished (writeQueue c2)" "conn_state c1 = conn_state c2"
        "socket c1 = socket c2" "world m1 = w2"
        using m(2) by metis
      with step c2 show ?thesis
        by (auto simp: in_flight_def finished_pending connected_def)
    qed
  qed
qed

text \<open>A client that is down stays down.\<close>

lemma down_writeable:
  assumes "badfd_law os" and "machine_inv os {} m" and "heap m p = Some c"
    and "conn_state c = DISCONNECTING" and "\<not> isOpen c"
  shows "\<exists>a m1 c1. sockIsWriteable os quiet p m = Inr (a, m1) \<and> heap m1 p = Some c1 \<and>
    conn_state c1 = DISCONNECTING \<and> \<not> isOpen c1"
proof -
  obtain result errno v w1 where g: "getsockopt_error os (socket c) (world m) = ((result, errno, v), w1)"
    by (metis surj_pair)
  have "\<not> writeMutex c" using machine_inv_client [OF assms(2,3)] client_inv_unlocked by blast
  moreover from assms(5) g have "result < 0"
    using badfd_lawD [OF assms(1)] by (simp add: isOpen_def)
  ultimately show ?thesis
    using assms(3,4) g error_at_quiet [of "m\<lparr>world := w1\<rparr>" p c os errno]
    by (auto simp: sockIsWriteable_def get_client_def Let_def put_client_def closed_client_def isOpen_def)
qed

lemma stream_step_ok:
  assumes "wire_ok os sent stuck" and "stream_state os sent p fd bs m"
  shows "\<exists>new m1. stream_step Is_Client os p op m = Inr (new, m1) \<and> stream_state os sent p fd (bs @ new) m1"
proof -
  note P = wire_okD(1) [OF assms(1)]
  from assms(2) obtain c where m: "machine_inv os {} m" and c: "heap m p = Some c"
    and st: "connected c \<and> socket c = fd \<and> in_flight os sent c (world m) = bs \<or>
      conn_state c = DISCONNECTING \<and> \<not> isOpen c"
    by (auto simp: stream_state_def)
  have inv: "client_inv os c" using machine_inv_client [OF m c] by simp
  have live: "heap m p \<noteq> None" using c by simp
  show ?thesis
  proof (cases op)
    case (Put data sz flags)
    from add_keeps [OF inv, of data sz flags "world m"] obtain n c1 w1 where
      a: "add os data sz flags c (world m) = Inr (n, c1, w1)" and i: "client_inv os c1"
      by (auto dest: holds_total)
    from add_streams [OF assms(1) inv a] st
    have "connected c1 \<and> socket c1 = fd \<and>
        in_flight os sent c1 w1 = bs @ read_mem (mem os w1) data n \<or>
        conn_state c1 = DISCONNECTING \<and> \<not> isOpen c1"
      by (auto simp: connected_def isOpen_def)
    from stream_state_put [OF m live i this] show ?thesis
      using Put c a by (simp add: get_client_def)
  next
    case Push
    from send_keeps [OF platform_okD(1) [OF P] inv, of "world m"] obtain a c1 w1 where
      a: "send os c (world m) = Inr (a, c1, w1)" and i: "client_inv os c1"
      by (auto dest: holds_total)
    from send_streams [OF assms(1) inv a] st
    have "connected c1 \<and> socket c1 = fd \<and> in_flight os sent c1 w1 = bs \<or>
        conn_state c1 = DISCONNECTING \<and> \<not> isOpen c1"
      by (auto simp: connected_def isOpen_def)
    from stream_state_put [OF m live i this] show ?thesis
      using Push c a by (simp add: get_client_def)
  next
    case Writeable
    have "\<exists>a m1 c1. sockIsWriteable os quiet p m = Inr (a, m1) \<and> heap m1 p = Some c1 \<and>
      (connected c1 \<and> socket c1 = fd \<and> in_flight os sent c1 (world m1) = bs \<or>
       conn_state c1 = DISCONNECTING \<and> \<not> isOpen c1)"
      using st writeable_streams [OF assms(1) m c] down_writeable [OF platform_okD(3) [OF P] m c]
      by blast
    then obtain a m1 c1 where w: "sockIsWriteable os quiet p m = Inr (a, m1)" "heap m1 p = Some c1"
      "connected c1 \<and> socket c1 = fd \<and> in_flight os sent c1 (world m1) = bs \<or>
       conn_state c1 = DISCONNECTING \<and> \<not> isOpen c1"
      by blast
    have "safe os app_faults {p} {} m" using m by (simp add: safe_any)
    from any_app.sockIsWriteable_ok [OF P this, of p quiet] w(1) have "machine_inv os {} m1"
      by (simp add: safe_any)
    with w Writeable show ?thesis by (auto simp: stream_state_def)
  qed
qed

lemma stream_run_ok:
  assumes "wire_ok os sent stuck"
  shows "stream_state os sent p fd bs m \<Longrightarrow>
    \<exists>new m1. stream_run Is_Client os p ops m = Inr (new, m1) \<and> stream_state os sent p fd (bs @ new) m1"
proof (induction ops arbitrary: bs m)
  case (Cons op ops)
  from stream_step_ok [OF assms Cons.prems, of op] obtain new m1 where
    s: "stream_step Is_Client os p op m = Inr (new, m1)" "stream_state os sent p fd (bs @ new) m1" by blast
  from Cons.IH [OF s(2)] s(1) show ?case by auto
qed simp


lemma sample_wire_law: "wire_law (sample_os steady) outs"
  using sample_stream_law [of steady] by (simp add: wire_law_def) (simp add: sample_os_def)


section \<open>An \<open>SslClient\<close> built without TLS\<close>

definition ssl_state ::
  "('w, 'ip) os \<Rightarrow> ('w \<Rightarrow> int \<Rightarrow> byte list) \<Rightarrow> ptr \<Rightarrow> int \<Rightarrow> byte list \<Rightarrow> nat \<Rightarrow>
     ('w, 'ip) machine \<Rightarrow> bool"
where
  "ssl_state os sent p fd out room m \<longleftrightarrow> machine_inv os {} m \<and>
     (\<exists>c. heap m p = Some c \<and> connected c \<and> socket c = fd \<and> sent (world m) fd = out \<and>
        unat (writeSpaceRemaining c) = room \<and> (\<forall>b \<in> set (writeQueue c). \<not> hasError b))"

lemma ssl_state_put:
  assumes "machine_inv os {} m" and "heap m p \<noteq> None" and "client_inv os c" and "connected c"
    and "socket c = fd" and "sent w fd = out" and "unat (writeSpaceRemaining c) = room"
    and "\<forall>b \<in> set (writeQueue c). \<not> hasError b"
  shows "ssl_state os sent p fd out room (put_client p c w m)"
  using machine_inv_put [OF assms(1-3), of w] assms(4-8)
  by (auto simp: ssl_state_def put_client_def)

lemma add_no_error:
  assumes "client_inv os c" and "add os data sz flags c w = Inr (n, c1, w1)"
    and "\<forall>b \<in> set (writeQueue c). \<not> hasError b"
  shows "\<forall>b \<in> set (writeQueue c1). \<not> hasError b"
  using assms(2,3)
  by (auto simp: add_def add_prepare_def add_commit_def Let_def bind_res_Inr_iff hasError_def
      lock_write_def unlock_write_def split: prod.splits option.splits if_splits)

lemma ssl_send:
  assumes "wire_ok os sent stuck" and "client_inv os c" 
  shows "\<exists>w1. send_of Is_SslClient os c w = Inr (False, c, w1) \<and>
    sent w1 (socket c) = sent w (socket c)"
proof -
  have un: "\<not> writeMutex c" "c\<lparr>writeMutex := False\<rparr> = c"
    using client_inv_unlocked [OF assms(2)] by simp_all
  obtain r w1 where s: "select_w os (socket c) w = (r, w1)" by fastforce
  from wire_okD(5) [OF assms(1) s] s un show ?thesis
    by (auto simp: send_of_def lock_write_def unlock_write_def ssl_processWriteQueue_def)
qed

lemma ssl_writeable:
  assumes "client_inv os c" and "heap m p = Some c" and "connected c"
    and "\<forall>b \<in> set (writeQueue c). \<not> hasError b"
  shows "\<exists>m1 c1. sockIsWriteable_of Is_SslClient os quiet p m = Inr (False, m1) \<and>
    heap m1 p = Some c1 \<and> connected c1 \<and> socket c1 = socket c \<and> world m1 = world m \<and>
    writeQueue c1 = dropWhile finished (writeQueue c)"
proof -
  have un: "\<not> writeMutex c" "c\<lparr>writeMutex := False\<rparr> = c"
    using client_inv_unlocked [OF assms(1)] by simp_all
  have conn: "conn_state c = CONNECTED" using assms(3) by (simp add: connected_def)
  let ?c = "c\<lparr>writeMutex := True\<rparr>" let ?m = "put_client p ?c (world m) m"
  show ?thesis
  proof (cases "writeQueue c = []")
    case True
    then have "sockIsWriteable_of Is_SslClient os quiet p m = Inr (False, m)"
      using assms(2) un conn by (simp add: sockIsWriteable_of_def writeable_section_of_def
          get_client_def lock_write_def unlock_write_def put_same)
    with assms(2,3) True show ?thesis by simp
  next
    case False
    have h: "heap ?m p = Some ?c" by (simp add: put_client_def)
    have "\<forall>b bs. dropWhile finished (writeQueue ?c) = b # bs \<longrightarrow> \<not> hasError b"
      using assms(4) set_dropWhileD [of _ finished "writeQueue c"] by fastforce
    from cleanup_quiet [OF h this, of os] obtain m1 c1 where
      "cleanupWriteQueue os quiet p ?m = Inr m1" "heap m1 p = Some c1"
      "writeQueue c1 = dropWhile finished (writeQueue c)" "conn_state c1 = conn_state c"
      "socket c1 = socket c" "world m1 = world m"
      by (auto simp: put_client_def)
    with False assms(2) un conn show ?thesis
      by (auto simp: sockIsWriteable_of_def writeable_section_of_def get_client_def lock_write_def
          ssl_processWriteQueue_def connected_def)
  qed
qed

text \<open>A step takes no more bytes than there is room for, and the room is gone afterwards.\<close>

lemma ssl_step_ok:
  assumes "wire_ok os sent stuck" and "ssl_state os sent p fd out room m"
  shows "\<exists>new m1. stream_step Is_SslClient os p op m = Inr (new, m1) \<and> length new \<le> room \<and>
    ssl_state os sent p fd out (room - length new) m1"
proof -
  from assms(2) obtain c where m: "machine_inv os {} m" and c: "heap m p = Some c"
    and up: "connected c" "socket c = fd" "sent (world m) fd = out"
      "unat (writeSpaceRemaining c) = room" "\<forall>b \<in> set (writeQueue c). \<not> hasError b"
    by (auto simp: ssl_state_def)
  have inv: "client_inv os c" using machine_inv_client [OF m c] by simp
  have live: "heap m p \<noteq> None" using c by simp
  show ?thesis
  proof (cases op)
    case (Put data sz flags)
    from add_keeps [OF inv, of data sz flags "world m"] obtain n c1 w1 where
      a: "add os data sz flags c (world m) = Inr (n, c1, w1)" and i: "client_inv os c1"
      by (auto dest: holds_total)
    from add_streams [OF assms(1) inv a] up(1,2)
    have same: "connected c1" "socket c1 = fd" by (auto simp: connected_def)
    have out: "sent w1 fd = out"
      using add_sends_nothing [OF assms(1) a] up(3) by simp
    from add_closed_form [OF inv, of data sz flags "world m"] a
    have room: "unat n \<le> room" "unat (writeSpaceRemaining c1) = room - unat n"
      using up(4) by (auto split: if_splits simp: unat_sub word_le_nat_alt)
    from ssl_state_put [where sent = sent, OF m live i same out room(2) add_no_error [OF inv a up(5)]] room(1)
    show ?thesis using Put c a by (simp add: get_client_def read_mem_def)
  next
    case Push
    from ssl_send [OF assms(1) inv, of "world m"] obtain w1 where
      a: "send_of Is_SslClient os c (world m) = Inr (False, c, w1)" and "sent w1 fd = out"
      using up(2,3) by auto
    from ssl_state_put [where sent = sent, OF m live inv up(1,2) this(2) up(4,5)] show ?thesis
      using Push c a by (simp add: get_client_def)
  next
    case Writeable
    from ssl_writeable [OF inv c up(1,5)] obtain m1 c1 where
      w: "sockIsWriteable_of Is_SslClient os quiet p m = Inr (False, m1)" and
      c1: "heap m1 p = Some c1" "connected c1" "socket c1 = fd" "world m1 = world m"
        "writeQueue c1 = dropWhile finished (writeQueue c)"
      using up(2) by auto
    have "writeable_section_of Is_SslClient os quiet p False m = Inr (False, m1)"
      using w c up(1) by (simp add: sockIsWriteable_of_def get_client_def connected_def)
    with ssl_pass.section_keeps [OF TrueI wire_okD(1) [OF assms(1)] m, of quiet p False]
    have m1: "machine_inv os {} m1" by simp
    have "unat (writeSpaceRemaining c1) = room"
      using machine_inv_client [OF m1 c1(1)] inv c1(5) up(4)
      by (simp add: client_inv_defs queue_bytes_dropWhile)
    with m1 c1 up show ?thesis
      using Writeable w by (auto simp: ssl_state_def dest: set_dropWhileD)
  qed
qed

lemma ssl_run_ok:
  assumes "wire_ok os sent stuck"
  shows "ssl_state os sent p fd out room m \<Longrightarrow>
    \<exists>new m1. stream_run Is_SslClient os p ops m = Inr (new, m1) \<and> length new \<le> room \<and>
      ssl_state os sent p fd out (room - length new) m1"
proof (induction ops arbitrary: room m)
  case (Cons op ops)
  from ssl_step_ok [OF assms Cons.prems, of op] obtain new m1 where
    s: "stream_step Is_SslClient os p op m = Inr (new, m1)" "length new \<le> room"
      "ssl_state os sent p fd out (room - length new) m1" by blast
  from Cons.IH [OF s(3)] s(1,2) show ?case by fastforce
qed simp



end
