(* ===== verification/Conversation.thy ===== *)
theory Conversation
  imports StreamProperties
begin

text \<open>
  What the application is told about one connection, end to end: the callbacks come in the order
  a small automaton accepts, and the data they carry is what the socket handed out.
\<close>

section \<open>The order of the callbacks\<close>

text \<open>
  While the connection is live, data, reports of sent data, timeouts and polls, in any order and
  number; then at most one error; then the end; then nothing.
\<close>

datatype conv_phase = Live | Failed | Over

fun next_phase :: "conv_phase \<Rightarrow> cb_event \<Rightarrow> conv_phase option" where
  "next_phase Live (EvRecv bs) = Some Live"
| "next_phase Live (EvSent n d) = Some Live"
| "next_phase Live (EvTimeout d) = Some Live"
| "next_phase Live EvPoll = Some Live"
| "next_phase Live (EvError e) = Some Failed"
| "next_phase Live EvDisconnect = Some Over"
| "next_phase Failed EvDisconnect = Some Over"
| "next_phase ph ev = None"

fun follow :: "conv_phase \<Rightarrow> cb_event list \<Rightarrow> conv_phase option" where
  "follow ph [] = Some ph"
| "follow ph (e # es) = Option.bind (next_phase ph e) (\<lambda>ph1. follow ph1 es)"

lemma follow_append:
  "follow ph (es @ fs) = Option.bind (follow ph es) (\<lambda>ph1. follow ph1 fs)"
  by (induction es arbitrary: ph) (auto split: bind_splits)

lemma follow_sent: "follow Live (map sent_event bs) = Some Live"
  by (induction bs) (simp_all add: sent_event_def)

fun payload :: "cb_event \<Rightarrow> byte list" where
  "payload (EvRecv bs) = bs"
| "payload e = []"

lemma payload_sent [simp]: "concat (map (payload \<circ> sent_event) bs) = []"
  by (induction bs) (simp_all add: sent_event_def)

section \<open>What happens to a connection\<close>

text \<open>
  The application adds, sends and closes; the worker finds the socket writeable or readable
  (which it only looks at while there is one), polls, and ends a round.
\<close>

datatype conv_op = Adds ptr size_t ClientApiFlags | Sends | Closes
  | Writeables | Readables | Polls | RoundEnds

fun conv_step ::
  "('w, 'ip) os \<Rightarrow> ptr \<Rightarrow> conv_op \<Rightarrow> ('w, 'ip) machine \<Rightarrow> ('w, 'ip) machine res"
where
  "conv_step os p (Adds data sz flags) m =
     bind_res (get_client p m) (\<lambda>c.
     bind_res (add os data sz flags c (world m)) (\<lambda>(n, c1, w1). Inr (put_client p c1 w1 m)))"
| "conv_step os p Sends m =
     bind_res (get_client p m) (\<lambda>c.
     bind_res (send os c (world m)) (\<lambda>(a, c1, w1). Inr (put_client p c1 w1 m)))"
| "conv_step os p Closes m =
     bind_res (get_client p m) (\<lambda>c.
     bind_res (close_client os c (world m)) (\<lambda>(c1, w1). Inr (put_client p c1 w1 m)))"
| "conv_step os p Writeables m =
     bind_res (get_client p m) (\<lambda>c.
       if isOpen c then bind_res (sockIsWriteable os quiet p m) (\<lambda>(a, m1). Inr m1) else Inr m)"
| "conv_step os p Readables m =
     bind_res (get_client p m) (\<lambda>c. if isOpen c then sockIsReadable os quiet p m else Inr m)"
| "conv_step os p Polls m = sockPoll os quiet p m"
| "conv_step os p RoundEnds m = processingDone os quiet p m"

fun conv_run ::
  "('w, 'ip) os \<Rightarrow> ptr \<Rightarrow> conv_op list \<Rightarrow> ('w, 'ip) machine \<Rightarrow> ('w, 'ip) machine res"
where
  "conv_run os p [] m = Inr m"
| "conv_run os p (op # ops) m = bind_res (conv_step os p op m) (conv_run os p ops)"

section \<open>What the socket hands out\<close>

text \<open>
  \<open>recvd w fd\<close> is the byte stream read from the socket so far: reading appends what it returns,
  no other call reads.
\<close>

definition recv_law :: "('w, 'ip) os \<Rightarrow> ('w \<Rightarrow> int \<Rightarrow> byte list) \<Rightarrow> bool" where
  "recv_law os recvd \<longleftrightarrow>
     (\<forall>fd n w r e bs w'. lwip_read os fd n w = ((r, e, bs), w') \<longrightarrow>
        recvd w' fd = recvd w fd @ (if 0 < r then take (nat r) bs else [])) \<and>
     (\<forall>fd bs w. recvd (snd (lwip_write os fd bs w)) = recvd w) \<and>
     (\<forall>w. recvd (snd (steady_now os w)) = recvd w) \<and>
     (\<forall>fd w. recvd (snd (select_w os fd w)) = recvd w) \<and>
     (\<forall>fd w. recvd (snd (select_r os fd w)) = recvd w) \<and>
     (\<forall>fd w. recvd (sys_close os fd w) = recvd w)"

lemma recv_lawD:
  assumes "recv_law os recvd"
  shows "lwip_read os fd n w = ((r, e, bs), w') \<Longrightarrow>
      recvd w' fd = recvd w fd @ (if 0 < r then take (nat r) bs else [])"
    and "lwip_write os fd bs w = (re, w') \<Longrightarrow> recvd w' = recvd w"
    and "steady_now os w = (t, w') \<Longrightarrow> recvd w' = recvd w"
    and "select_w os fd w = (n', w') \<Longrightarrow> recvd w' = recvd w"
    and "select_r os fd w = (n', w') \<Longrightarrow> recvd w' = recvd w"
    and "recvd (sys_close os fd w) = recvd w"
  using assms unfolding recv_law_def by (metis snd_conv)+

lemma write_buffer_recvd:
  assumes "write_sound os" and "recv_law os recvd" and "buf_ok b" and "\<not> isFullyWritten b"
    and "write_buffer os b fd w = Some (n, b', w')"
  shows "recvd w' = recvd w"
proof -
  have "\<exists>x. write_loop os fd b 0 w = Some x \<and> (\<lambda>(n, b', w'). recvd w' = recvd w) x"
    by (rule write_loop_rule [where I = "\<lambda>tot c v. recvd v = recvd w",
          OF assms(1,4) buf_ok_unfinished [OF assms(3)]])
      (auto simp: recv_lawD(2) [OF assms(2)] recv_lawD(3) [OF assms(2)])
  with assms(5) show ?thesis by (auto simp: write_buffer_def)
qed

lemma process_recvd:
  assumes "write_sound os" and "recv_law os recvd" and "\<forall>b \<in> set q. buf_ok b"
    and "process_queue hasError isFullyWritten (\<lambda>b. write_buffer os b fd) act q s w =
      Some (a, q', s', w')"
  shows "recvd w' = recvd w"
  using assms(3,4)
proof (induction q arbitrary: act s w a q' s' w')
  case (Cons b q)
  show ?case
  proof (cases "hasError b \<or> isFullyWritten b")
    case True
    with Cons show ?thesis by (auto split: if_splits option.splits)
  next
    case False
    with Cons.prems(2) obtain n b1 w1 a2 q2 s2 where w: "write_buffer os b fd w = Some (n, b1, w1)"
      and q: "process_queue hasError isFullyWritten (\<lambda>b. write_buffer os b fd) (act \<or> 0 < n) q (s + n) w1 =
        Some (a2, q2, s2, w')"
      by (auto split: option.splits)
    from False Cons.prems(1) have "recvd w1 = recvd w"
      using write_buffer_recvd [OF assms(1,2) _ _ w] by simp
    with Cons.IH [OF _ q] Cons.prems(1) show ?thesis by simp
  qed
qed simp

lemma process_locked_recvd:
  assumes "write_sound os" and "recv_law os recvd" and "space_inv os c"
    and "process_locked os c w = Inr (a, c1, w1)"
  shows "recvd w1 = recvd w"
proof -
  from assms(4) obtain q s where
    "processWriteQueue os (socket c) (writeQueue c) (writeSpaceRemaining c) w = Some (a, q, s, w1)"
    by (cases "processWriteQueue os (socket c) (writeQueue c) (writeSpaceRemaining c) w")
      (auto simp: process_locked_def)
  with assms(1-3) show ?thesis
    by (auto simp: processWriteQueue_def space_inv_def intro: process_recvd)
qed

section \<open>Every step keeps to the order\<close>

text \<open>What happened between two states: callbacks that go on from one phase to another.\<close>

definition said ::
  "('w \<Rightarrow> int \<Rightarrow> byte list) \<Rightarrow> ptr \<Rightarrow> int \<Rightarrow> conv_phase \<Rightarrow> ('w, 'ip) machine \<Rightarrow>
     conv_phase \<Rightarrow> ('w, 'ip) machine \<Rightarrow> bool"
where
  "said recvd p fd ph m ph1 m1 \<longleftrightarrow> (\<exists>evs. trace m1 = trace m @ map (Pair p) evs \<and>
     follow ph evs = Some ph1 \<and>
     recvd (world m1) fd = recvd (world m) fd @ concat (map payload evs))"

lemma saidI:
  assumes "trace m1 = trace m @ map (Pair p) evs" and "follow ph evs = Some ph1"
    and "recvd (world m1) fd = recvd (world m) fd @ concat (map payload evs)"
  shows "said recvd p fd ph m ph1 m1"
  unfolding said_def using assms by blast

lemma said_nothing:
  "trace m1 = trace m \<Longrightarrow> recvd (world m1) = recvd (world m) \<Longrightarrow> said recvd p fd ph m ph m1"
  by (rule saidI [where evs = "[]"]) simp_all

lemma said_trans:
  assumes "said recvd p fd ph m ph1 m1" and "said recvd p fd ph1 m1 ph2 m2"
  shows "said recvd p fd ph m ph2 m2"
proof -
  from assms obtain es fs where
    "trace m1 = trace m @ map (Pair p) es" "follow ph es = Some ph1"
    "recvd (world m1) fd = recvd (world m) fd @ concat (map payload es)"
    "trace m2 = trace m1 @ map (Pair p) fs" "follow ph1 fs = Some ph2"
    "recvd (world m2) fd = recvd (world m1) fd @ concat (map payload fs)"
    unfolding said_def by blast
  then show ?thesis by (intro saidI [where evs = "es @ fs"]) (simp_all add: follow_append)
qed

text \<open>The client in each phase. A live one may have been closed since, by the application.\<close>

fun client_in :: "int \<Rightarrow> conv_phase \<Rightarrow> 'ip ClientBase \<Rightarrow> bool" where
  "client_in fd Live c \<longleftrightarrow> connected c \<and> socket c = fd \<or> conn_state c = DISCONNECTING \<and> \<not> isOpen c"
| "client_in fd Failed c \<longleftrightarrow> conn_state c = DISCONNECTING \<and> \<not> isOpen c"
| "client_in fd Over c \<longleftrightarrow> conn_state c = DISCONNECTED \<and> \<not> isOpen c"

definition conv_at :: "ptr \<Rightarrow> int \<Rightarrow> conv_phase \<Rightarrow> ('w, 'ip) machine \<Rightarrow> bool" where
  "conv_at p fd ph m \<longleftrightarrow>
     (\<exists>c. heap m p = Some c \<and> callbacks c = all_handlers \<and> \<not> writeMutex c \<and> client_in fd ph c)"

lemma conv_atI:
  "heap m p = Some c \<Longrightarrow> callbacks c = all_handlers \<Longrightarrow> \<not> writeMutex c \<Longrightarrow>
    client_in fd ph c \<Longrightarrow> conv_at p fd ph m"
  unfolding conv_at_def by blast

text \<open>Results of a handler or call on a connection.\<close>

definition goes ::
  "('w \<Rightarrow> int \<Rightarrow> byte list) \<Rightarrow> ptr \<Rightarrow> int \<Rightarrow> conv_phase \<Rightarrow> ('w, 'ip) machine \<Rightarrow> ('w, 'ip) machine res \<Rightarrow> bool"
where
  "goes recvd p fd ph m r \<longleftrightarrow>
     (\<exists>m1 ph1. r = Inr m1 \<and> said recvd p fd ph m ph1 m1 \<and> conv_at p fd ph1 m1)"

lemma goesI:
  "r = Inr m1 \<Longrightarrow> said recvd p fd ph m ph1 m1 \<Longrightarrow> conv_at p fd ph1 m1 \<Longrightarrow> goes recvd p fd ph m r"
  unfolding goes_def by blast

lemma error_goes:
  assumes "recv_law os recvd" and "heap m p = Some c" and "\<not> writeMutex c"
    and "callbacks c = all_handlers"
  shows "goes recvd p fd Live m (error_at os quiet p code m)"
  by (rule goesI [OF error_at_quiet [OF assms(2,3)], of _ _ _ _ _ Failed],
      rule saidI [where evs = "[EvError code]"])
    (use assms(3) in \<open>auto intro!: conv_atI simp: assms(4) recv_lawD(6) [OF assms(1)] put_client_def closed_client_def isOpen_def\<close>)

lemma close_goes:
  assumes "recv_law os recvd" and "heap m p = Some c" and "\<not> writeMutex c"
    and "callbacks c = all_handlers"
  shows "goes recvd p fd Live m (close_at os p m)"
  by (rule goesI [OF close_at_eq [OF assms(2,3)] said_nothing])
    (use assms(3) in \<open>auto intro!: conv_atI simp: assms(4) recv_lawD(6) [OF assms(1)] put_client_def closed_client_def isOpen_def\<close>)

text \<open>The queue's cleanup, from a client that is connected, with the mutex held.\<close>

lemma cleanup_goes:
  assumes "recv_law os recvd" and "heap m p = Some c" and "callbacks c = all_handlers"
    and "connected c" and "socket c = fd"
  shows "goes recvd p fd Live m (cleanupWriteQueue os quiet p m)"
proof -
  obtain e stats rx rest where s: "cleanup_scan (writeQueue c) (rx_last_packet c) = (e, stats, rx, rest)"
    by (metis surj_pair)
  show ?thesis
  proof (cases e)
    case None
    let ?c = "unlock_write (c\<lparr>rx_last_packet := rx, writeQueue := rest\<rparr>)"
    let ?m = "put_client p ?c (world m) m" and ?done = "takeWhile finished (writeQueue c)"
    have h: "heap ?m p = Some ?c" by (simp add: put_client_def)
    have "stats = map stats_of ?done" using cleanup_scan_split [OF s] None by simp
    then have eq: "cleanupWriteQueue os quiet p m = notify_sent os quiet p (map stats_of ?done) ?m"
      using assms(2) None by (simp add: cleanupWriteQueue_def get_client_def s)
    show ?thesis unfolding eq notify_sent_quiet [OF h]
      by (rule goesI [OF refl saidI [where evs = "map sent_event ?done"] conv_atI [where c = ?c]])
        (use assms in \<open>auto simp: put_client_def unlock_write_def follow_sent connected_def sent_event_def
          intro!: arg_cong [of _ _ concat]\<close>)
  next
    case (Some code)
    let ?c = "unlock_write (c\<lparr>rx_last_packet := rx\<rparr>)"
    let ?m = "put_client p ?c (world m) m"
    have "cleanupWriteQueue os quiet p m = error_at os quiet p code ?m"
      using assms(2) Some by (simp add: cleanupWriteQueue_def get_client_def s)
    moreover have "goes recvd p fd Live ?m (error_at os quiet p code ?m)"
      using assms(1,3) by (intro error_goes [where c = ?c]) (simp_all add: put_client_def unlock_write_def)
    ultimately show ?thesis by (simp add: goes_def said_def put_client_def)
  qed
qed

lemma goes_from:
  "said recvd p fd ph m ph1 m1 \<Longrightarrow> goes recvd p fd ph1 m1 r \<Longrightarrow> goes recvd p fd ph m r"
  unfolding goes_def by (blast intro: said_trans)

lemma goes_bind:
  assumes "goes recvd p fd ph m r"
    and "\<And>m1 ph1. r = Inr m1 \<Longrightarrow> conv_at p fd ph1 m1 \<Longrightarrow> goes recvd p fd ph1 m1 (f m1)"
  shows "goes recvd p fd ph m (bind_res r f)"
proof -
  from assms(1) obtain m1 ph1 where r: "r = Inr m1" "said recvd p fd ph m ph1 m1" "conv_at p fd ph1 m1"
    unfolding goes_def by blast
  from goes_from [OF r(2) assms(2) [OF r(1,3)]] r(1) show ?thesis by simp
qed

lemma goes_stay: "conv_at p fd ph m \<Longrightarrow> goes recvd p fd ph m (Inr m)"
  by (rule goesI [OF refl said_nothing]) simp_all

lemma writeable_goes:
  assumes "write_sound os" and "recv_law os recvd" and "client_inv os c"
    and c: "heap m p = Some c" "callbacks c = all_handlers" "connected c" "socket c = fd"
  shows "goes recvd p fd Live m (bind_res (sockIsWriteable os quiet p m) (\<lambda>(a, m1). Inr m1))"
proof -
  have un: "\<not> writeMutex c" by (rule client_inv_unlocked [OF assms(3)])
  have conn: "conn_state c = CONNECTED" using c(3) by (simp add: connected_def)
  have at: "conv_at p fd Live m" using c un by (intro conv_atI) auto
  let ?c = "c\<lparr>writeMutex := True\<rparr>"
  show ?thesis
  proof (cases "writeQueue c = []")
    case True
    have "unlock_write ?c = c" using un by (simp add: unlock_write_def)
    with True c(1) un conn have "sockIsWriteable os quiet p m = Inr (False, m)"
      by (simp add: sockIsWriteable_def writeable_section_def get_client_def lock_write_def put_same)
    with goes_stay [OF at] show ?thesis by simp
  next
    case False
    have sp: "space_inv os ?c" using assms(3) by (simp add: client_inv_defs)
    from process_locked_ok [OF assms(1) sp, of "world m"]
    obtain a q s w2 where pr: "process_locked os ?c (world m) = Inr (a, ?c\<lparr>writeQueue := q, writeSpaceRemaining := s\<rparr>, w2)"
      by auto
    let ?c2 = "?c\<lparr>writeQueue := q, writeSpaceRemaining := s\<rparr>" and ?m = "put_client p (?c\<lparr>writeQueue := q, writeSpaceRemaining := s\<rparr>) w2 m"
    have "sockIsWriteable os quiet p m = bind_res (cleanupWriteQueue os quiet p ?m) (\<lambda>m1. Inr (a, m1))"
      using c(1) conn un False pr
      by (simp add: sockIsWriteable_def writeable_section_def get_client_def lock_write_def)
    then have eq: "bind_res (sockIsWriteable os quiet p m) (\<lambda>(a, m1). Inr m1) = cleanupWriteQueue os quiet p ?m"
      by (cases "cleanupWriteQueue os quiet p ?m") simp_all
    have "said recvd p fd Live m Live ?m"
      by (rule said_nothing) (simp_all add: put_client_def process_locked_recvd [OF assms(1,2) sp pr])
    moreover have "goes recvd p fd Live ?m (cleanupWriteQueue os quiet p ?m)"
      using c by (intro cleanup_goes [OF assms(2), where c = ?c2]) (simp_all add: put_client_def connected_def)
    ultimately show ?thesis unfolding eq by (rule goes_from)
  qed
qed

lemma readable_goes:
  assumes "recv_law os recvd" and "\<not> writeMutex c"
    and c: "heap m p = Some c" "callbacks c = all_handlers" "connected c" "socket c = fd"
  shows "goes recvd p fd Live m (sockIsReadable os quiet p m)"
proof -
  obtain r e bs w1 where rd: "lwip_read os fd (TCP_MSS os) (world m) = ((r, e, bs), w1)" by (metis surj_pair)
  note read = recv_lawD(1) [OF assms(1) rd]
  show ?thesis
  proof (cases "0 < r")
    case True
    obtain t w2 where now: "steady_now os w1 = (t, w2)" by fastforce
    let ?c = "c\<lparr>rx_last_packet := t\<rparr>"
    let ?m = "put_client p ?c w2 m"
    have h: "heap ?m p = Some ?c" by (simp add: put_client_def)
    have "told ?c p (EvRecv (take (nat r) bs)) = [(p, EvRecv (take (nat r) bs))]"
      using c(2) by (intro told_all) simp_all
    then have "sockIsReadable os quiet p m =
        Inr (?m\<lparr>trace := trace ?m @ [(p, EvRecv (take (nat r) bs))]\<rparr>)"
      using c rd now True invoke_quiet [of ?m p ?c os "EvRecv (take (nat r) bs)", OF h]
      by (simp add: sockIsReadable_def get_client_def)
    then show ?thesis
      by (rule goesI [OF _ saidI [where evs = "[EvRecv (take (nat r) bs)]"] conv_atI [where c = ?c]])
        (use c assms(2) read True recv_lawD(3) [OF assms(1) now] in
          \<open>auto simp: put_client_def connected_def\<close>)
  next
    case False
    let ?m = "m\<lparr>world := w1\<rparr>"
    have "recvd w1 fd = recvd (world m) fd" using read False by simp
    then have same: "said recvd p fd Live m Live ?m" by (intro saidI [where evs = "[]"]) simp_all
    have h: "heap ?m p = Some c" using c(1) by simp
    have "conv_at p fd Live ?m" using c assms(2) by (intro conv_atI [where c = c]) auto
    then show ?thesis
      using goes_from [OF same close_goes [OF assms(1) h assms(2) c(2), of fd]]
        goes_from [OF same error_goes [OF assms(1) h assms(2) c(2), of fd e]]
        goes_from [OF same goes_stay] False c rd
      by (simp add: sockIsReadable_def get_client_def)
  qed
qed

lemma rx_timeout_recvd:
  assumes "recv_law os recvd" and "checkRxTimeout os c w = (expired, c1, w1)"
  shows "recvd w1 = recvd w \<and> (\<exists>t. c1 = c\<lparr>rx_last_packet := t\<rparr>)"
proof -
  have "\<exists>t. c = c\<lparr>rx_last_packet := t\<rparr>" by (rule exI [of _ "rx_last_packet c"]) simp
  with assms(2) show ?thesis
    by (auto simp: checkRxTimeout_def Let_def recv_lawD(3,5) [OF assms(1)]
        split: option.splits prod.splits if_splits)
qed

lemma poll_idle_goes:
  assumes "recv_law os recvd" and "\<not> writeMutex c"
    and c: "heap m p = Some c" "callbacks c = all_handlers" "connected c" "socket c = fd"
  shows "goes recvd p fd Live m (poll_idle os quiet p m)"
proof -
  obtain expired c1 w1 where rx: "checkRxTimeout os c (world m) = (expired, c1, w1)" by (metis surj_pair)
  from rx_timeout_recvd [OF assms(1) rx] obtain t where
    same: "recvd w1 = recvd (world m)" and c1: "c1 = c\<lparr>rx_last_packet := t\<rparr>" by blast
  let ?m = "put_client p c1 w1 m"
  have from1: "said recvd p fd Live m Live ?m"
    by (rule said_nothing) (simp_all add: put_client_def same)
  have h: "heap ?m p = Some c1" by (simp add: put_client_def)
  have at: "callbacks c1 = all_handlers" "\<not> writeMutex c1" "client_in fd Live c1"
    using c assms(2) by (auto simp: c1 connected_def)
  have eq: "poll_idle os quiet p m =
      (if expired then close_at os p ?m else Inr (?m\<lparr>trace := trace ?m @ [(p, EvPoll)]\<rparr>))"
    using c(1) rx told_all [OF at(1), of EvPoll p] invoke_quiet [of ?m p c1 os EvPoll, OF h]
    by (simp add: poll_idle_def get_client_def)
  show ?thesis
  proof (cases expired)
    case True
    with goes_from [OF from1 close_goes [OF assms(1) h at(2,1)]] show ?thesis by (simp add: eq)
  next
    case False
    have "goes recvd p fd Live ?m (Inr (?m\<lparr>trace := trace ?m @ [(p, EvPoll)]\<rparr>))"
      by (rule goesI [OF refl saidI [where evs = "[EvPoll]"] conv_atI [where c = c1]])
        (use h at in auto)
    with goes_from [OF from1] False show ?thesis by (simp add: eq)
  qed
qed

lemma poll_timeouts_goes:
  assumes "recv_law os recvd" and "conv_at p fd ph m"
  shows "goes recvd p fd ph m (poll_timeouts os quiet p m)"
proof -
  from assms(2) obtain c where c: "heap m p = Some c" "callbacks c = all_handlers" "\<not> writeMutex c"
    and ph: "client_in fd ph c" by (auto simp: conv_at_def)
  show ?thesis
  proof (cases "connected c")
    case False
    with c(1) goes_stay [OF assms(2)] show ?thesis by (simp add: poll_timeouts_def get_client_def)
  next
    case True
    with ph have live: "ph = Live" "socket c = fd" by (cases ph; auto simp: connected_def)+
    obtain now w1 where now: "steady_now os (world m) = (now, w1)" by fastforce
    show ?thesis
    proof (cases "ack_expired c now")
      case fires: True
      let ?c = "c\<lparr>ack_timeout_signaled := True\<rparr>"
      from ack_fires [OF c(1,3) now fires] obtain d where
        "checkAckTimeout os quiet p m = Inr (True, (put_client p ?c w1 m)\<lparr>trace := trace m @ told c p (EvTimeout d)\<rparr>)"
        (is "_ = Inr (True, ?m)") by blast
      moreover have "told c p (EvTimeout d) = [(p, EvTimeout d)]" using c(2) by (intro told_all) simp_all
      ultimately have "poll_timeouts os quiet p m = Inr ((put_client p ?c w1 m)\<lparr>trace := trace m @ [(p, EvTimeout d)]\<rparr>)"
        using c(1) True by (simp add: poll_timeouts_def get_client_def)
      then show ?thesis
        by (rule goesI [OF _ saidI [where evs = "[EvTimeout d]"] conv_atI [where c = ?c]])
          (use c live True recv_lawD(3) [OF assms(1) now] in \<open>auto simp: put_client_def connected_def\<close>)
    next
      case silent: False
      from ack_silent [OF c(1,3) now silent] obtain w' where
        a: "checkAckTimeout os quiet p m = Inr (False, m\<lparr>world := w'\<rparr>)" by blast
      have w': "recvd w' = recvd (world m)"
        using a c(1,3) recv_lawD(3) [OF assms(1)]
        by (auto simp: checkAckTimeout_def get_client_def lock_write_def put_client_def Let_def
              bind_res_Inr_iff
            split: option.splits list.splits prod.splits if_splits dest!: arg_cong [where f = world])
      have "poll_timeouts os quiet p m = poll_idle os quiet p (m\<lparr>world := w'\<rparr>)"
        using c(1) True a by (simp add: poll_timeouts_def get_client_def)
      moreover have "said recvd p fd Live m Live (m\<lparr>world := w'\<rparr>)"
        by (rule said_nothing) (simp_all add: w')
      moreover have "goes recvd p fd Live (m\<lparr>world := w'\<rparr>) (poll_idle os quiet p (m\<lparr>world := w'\<rparr>))"
        using c True live by (intro poll_idle_goes [OF assms(1)]) simp_all
      ultimately show ?thesis using live(1) goes_from by auto
    qed
  qed
qed

lemma poll_goes:
  assumes "recv_law os recvd" and "conv_at p fd ph m"
  shows "goes recvd p fd ph m (sockPoll os quiet p m)"
proof -
  from assms(2) obtain c where c: "heap m p = Some c" "callbacks c = all_handlers" "\<not> writeMutex c"
    and ph: "client_in fd ph c" by (auto simp: conv_at_def)
  show ?thesis
  proof (cases "connected c")
    case False
    with c(1) goes_stay [OF assms(2)] show ?thesis by (simp add: sockPoll_def get_client_def)
  next
    case True
    with ph have live: "ph = Live" "socket c = fd" by (cases ph; auto simp: connected_def)+
    let ?c = "c\<lparr>writeMutex := True\<rparr>"
    let ?m = "put_client p ?c (world m) m"
    have "sockPoll os quiet p m =
        bind_res (cleanupWriteQueue os quiet p ?m) (poll_timeouts os quiet p)"
      using c True by (simp add: sockPoll_def get_client_def lock_write_def)
    moreover have "said recvd p fd Live m Live ?m" by (rule said_nothing) (simp_all add: put_client_def)
    moreover have "goes recvd p fd Live ?m (cleanupWriteQueue os quiet p ?m)"
      using c True live by (intro cleanup_goes [OF assms(1), where c = ?c]) (simp_all add: put_client_def connected_def)
    then have "goes recvd p fd Live ?m (bind_res (cleanupWriteQueue os quiet p ?m) (poll_timeouts os quiet p))"
      by (rule goes_bind) (rule poll_timeouts_goes [OF assms(1)])
    ultimately show ?thesis using live(1) goes_from by auto
  qed
qed

lemma done_goes:
  assumes "conv_at p fd ph m"
  shows "goes recvd p fd ph m (processingDone os quiet p m)"
proof -
  from assms obtain c where c: "heap m p = Some c" "callbacks c = all_handlers" "\<not> writeMutex c"
    and ph: "client_in fd ph c" by (auto simp: conv_at_def)
  have told: "told c p EvDisconnect = [(p, EvDisconnect)]" using c(2) by (intro told_all) simp_all
  note eq = processingDone_quiet [OF c(1), of os]
  show ?thesis
  proof (cases "conn_state c = DISCONNECTING")
    case False
    then have "processingDone os quiet p m = Inr m" using c(1) by (simp add: processingDone_def get_client_def)
    with goes_stay [OF assms] show ?thesis by simp
  next
    case True
    let ?c = "c\<lparr>conn_state := DISCONNECTED\<rparr>"
    have "ph \<noteq> Over" "\<not> isOpen c" using ph True by (cases ph; auto simp: connected_def)+
    show ?thesis
      by (rule goesI [OF eq saidI [where evs = "[EvDisconnect]" and ?ph1.0 = Over] conv_atI [where c = ?c]])
        (use c True told \<open>ph \<noteq> Over\<close> \<open>\<not> isOpen c\<close> in
          \<open>cases ph; auto simp: farewell_def settle_def isOpen_def\<close>)+
  qed
qed

section \<open>Every sequence of steps\<close>

lemma conv_step_inv:
  assumes "platform_ok os" and "machine_inv os {} m" and "heap m p = Some c"
    and "conv_step os p op m = Inr m1"
  shows "machine_inv os {} m1"
proof -
  have safe: "safe os app_faults {p} {} m" using assms(2) by (simp add: safe_any)
  have inv: "client_inv os c" using machine_inv_client [OF assms(2,3)] by simp
  have put: "machine_inv os {} (put_client p c1 w m)" if "client_inv os c1" for c1 w
    using machine_inv_put [OF assms(2) _ that] assms(3) by simp
  have call: "machine_inv os {} m1" if "keeps os r" "bind_res r (\<lambda>(x, c1, w1). Inr (put_client p c1 w1 m)) = Inr m1"
    for r :: "('c \<times> 'b ClientBase \<times> 'a) res"
    using that put by (cases r) auto
  show ?thesis
  proof (cases op)
    case (Adds data sz flags)
    with assms(3,4) call [OF add_keeps [OF inv, of data sz flags "world m"]] show ?thesis
      by (simp add: get_client_def)
  next
    case Sends
    with assms(3,4) call [OF send_keeps [OF platform_okD(1) [OF assms(1)] inv, of "world m"]] show ?thesis
      by (simp add: get_client_def)
  next
    case Closes
    with assms(3,4) put holds_total [OF close_client_keeps [OF inv, of "world m"]] show ?thesis
      by (auto simp: get_client_def)
  next
    case Writeables
    with assms(3,4) any_app.sockIsWriteable_ok [OF assms(1) safe, of p quiet] assms(2) show ?thesis
      by (auto simp: get_client_def safe_any bind_res_Inr_iff split: if_splits)
  next
    case Readables
    with assms(3,4) any_app.sockIsReadable_ok [OF assms(1) safe, of p quiet] assms(2) show ?thesis
      by (auto simp: get_client_def safe_any split: if_splits)
  next
    case Polls
    with assms(4) any_app.sockPoll_ok [OF assms(1) safe, of p quiet] show ?thesis
      by (simp add: safe_any)
  next
    case RoundEnds
    with assms(4) any_app.processingDone_ok [OF assms(1) safe, of p quiet] show ?thesis
      by (simp add: safe_any)
  qed
qed

lemma add_recvd:
  assumes "recv_law os recvd" and "client_inv os c" and "add os data sz flags c w = Inr (n, c1, w1)"
  shows "recvd w1 = recvd w" and "callbacks c1 = callbacks c" and "client_in fd ph c \<Longrightarrow> client_in fd ph c1"
proof -
  show "recvd w1 = recvd w"
    using assms(3) recv_lawD(3) [OF assms(1)]
    by (auto simp: add_def add_prepare_def Let_def bind_res_Inr_iff split: prod.splits option.splits if_splits)
  from add_closed_form [OF assms(2), of data sz flags w] assms(3)
  show "callbacks c1 = callbacks c" and "client_in fd ph c \<Longrightarrow> client_in fd ph c1"
    by (cases ph; auto simp: connected_def isOpen_def split: if_splits)+
qed

lemma send_recvd:
  assumes "write_sound os" and "recv_law os recvd" and "client_inv os c" and "send os c w = Inr (a, c1, w1)"
  shows "recvd w1 = recvd w" and "callbacks c1 = callbacks c" and "client_in fd ph c \<Longrightarrow> client_in fd ph c1"
proof -
  have sp: "space_inv os (c\<lparr>writeMutex := True\<rparr>)" using assms(3) by (simp add: client_inv_defs)
  show "recvd w1 = recvd w"
    using assms(4) recv_lawD(4) [OF assms(2)] process_locked_recvd [OF assms(1,2) sp]
    by (auto simp: send_def lock_write_def Let_def bind_res_Inr_iff split: prod.splits if_splits)
  show "callbacks c1 = callbacks c" and "client_in fd ph c \<Longrightarrow> client_in fd ph c1"
    using assms(4)
    by (cases rule: send_cases [OF assms(1,3), of w]; cases ph; auto simp: connected_def isOpen_def)+
qed

lemma conv_step_goes:
  assumes "platform_ok os" and "recv_law os recvd" and "machine_inv os {} m" and "conv_at p fd ph m"
  shows "goes recvd p fd ph m (conv_step os p op m)"
proof -
  note snd = platform_okD(1) [OF assms(1)]
  from assms(4) obtain c where c: "heap m p = Some c" "callbacks c = all_handlers" "\<not> writeMutex c"
    and ph: "client_in fd ph c" by (auto simp: conv_at_def)
  have inv: "client_inv os c" using machine_inv_client [OF assms(3) c(1)] by simp
  have down: "\<not> isOpen c \<or> ph = Live \<and> connected c \<and> socket c = fd" using ph by (cases ph) auto
  have call: "goes recvd p fd ph m (Inr (put_client p c1 w1 m))"
    if "recvd w1 = recvd (world m)" "callbacks c1 = callbacks c" "client_in fd ph c \<Longrightarrow> client_in fd ph c1"
      "\<not> writeMutex c1" for c1 w1
    by (rule goesI [OF refl said_nothing conv_atI [where c = c1]])
      (use that c ph in \<open>simp_all add: put_client_def\<close>)
  show ?thesis
  proof (cases op)
    case (Adds data sz flags)
    from add_keeps [OF inv, of data sz flags "world m"] obtain n c1 w1 where
      a: "add os data sz flags c (world m) = Inr (n, c1, w1)" "client_inv os c1" by (auto dest: holds_total)
    from call [OF add_recvd [OF assms(2) inv a(1)] client_inv_unlocked [OF a(2)]] Adds c(1) a(1)
    show ?thesis by (simp add: get_client_def)
  next
    case Sends
    from send_keeps [OF snd inv, of "world m"] obtain a c1 w1 where
      a: "send os c (world m) = Inr (a, c1, w1)" "client_inv os c1" by (auto dest: holds_total)
    from call [OF send_recvd [OF snd assms(2) inv a(1)] client_inv_unlocked [OF a(2)]] Sends c(1) a(1)
    show ?thesis by (simp add: get_client_def)
  next
    case Closes
    show ?thesis
    proof (cases "isOpen c")
      case True
      have "goes recvd p fd Live m (close_at os p m)" by (rule close_goes [OF assms(2) c(1,3,2)])
      with True down Closes c(1) show ?thesis
        by (simp add: get_client_def close_client_def close_at_def)
    next
      case False
      with call [of "world m" c] c Closes show ?thesis
        by (simp add: get_client_def close_client_def)
    qed
  next
    case Writeables
    with down c(1) writeable_goes [OF snd assms(2) inv c(1,2)] goes_stay [OF assms(4)] show ?thesis
      by (auto simp: get_client_def)
  next
    case Readables
    with down c(1) readable_goes [OF assms(2) c(3,1,2)] goes_stay [OF assms(4)] show ?thesis
      by (auto simp: get_client_def)
  next
    case Polls
    with poll_goes [OF assms(2,4)] show ?thesis by simp
  next
    case RoundEnds
    with done_goes [OF assms(4)] show ?thesis by simp
  qed
qed

lemma conv_run_goes:
  assumes "platform_ok os" and "recv_law os recvd"
  shows "machine_inv os {} m \<Longrightarrow> conv_at p fd ph m \<Longrightarrow> goes recvd p fd ph m (conv_run os p ops m)"
proof (induction ops arbitrary: ph m)
  case Nil
  then show ?case by (simp add: goes_stay)
next
  case (Cons op ops)
  from Cons.prems(2) obtain c where c: "heap m p = Some c" by (auto simp: conv_at_def)
  show ?case unfolding conv_run.simps
    by (rule goes_bind [OF conv_step_goes [OF assms Cons.prems]])
      (rule Cons.IH [OF conv_step_inv [OF assms(1) Cons.prems(1) c]])
qed


text \<open>A platform whose socket hands out one byte at a time, then the end of the stream.\<close>

definition sample_in_os :: "(sample_world, u32) os" where
  "sample_in_os = (sample_os True)
     \<lparr>lwip_write := (\<lambda>fd bs w. ((-1, 11), w)),
      lwip_read := (\<lambda>fd n w.
        case script w of
          [] \<Rightarrow> ((-1, 11, []), w)
        | k # ks \<Rightarrow>
            if k = 0 then ((0, 0, []), w\<lparr>script := ks\<rparr>)
            else ((1, 0, [of_nat k]),
              w\<lparr>script := ks, outs := (outs w)(fd := outs w fd @ [of_nat k])\<rparr>))\<rparr>"

lemma sample_in_laws: "platform_ok sample_in_os" "recv_law sample_in_os outs"
proof -
  show "platform_ok sample_in_os"
    using sample_platform_ok [of True]
    unfolding platform_ok_def write_sound_def new_law_def badfd_law_def
    by (simp add: sample_in_os_def) blast
  show "recv_law sample_in_os outs"
    by (auto simp: recv_law_def sample_in_os_def sample_os_def split: list.splits if_splits)
qed


end
