(* ===== verification/WriteDevice.thy ===== *)
theory WriteDevice
  imports WriteQueue Sample
begin

text \<open>
  A pass over the write queue on a socket with a send buffer: while there is room the socket
  takes as much of what it is offered as fits. On such a socket the pass, entry by entry and
  write by write, does what one write of all queued bytes would do.
\<close>

section \<open>A socket with room for some bytes\<close>

text \<open>
  \<open>room w fd\<close> is the free space in the socket's send buffer: a write takes what fits, and on a
  full buffer fails with \<open>EAGAIN\<close> or \<open>EWOULDBLOCK\<close>. The code never writes an empty buffer.
\<close>

definition room_law :: "('w, 'ip) os \<Rightarrow> ('w \<Rightarrow> int \<Rightarrow> nat) \<Rightarrow> bool" where
  "room_law os room \<longleftrightarrow>
     (\<forall>fd bs w r e w'. lwip_write os fd bs w = ((r, e), w') \<longrightarrow>
        (if room w fd = 0 then r < 0 \<and> (e = EAGAIN os \<or> e = EWOULDBLOCK os) \<and> room w' fd = 0
         else r = int (min (room w fd) (length bs)) \<and> room w' fd = room w fd - nat r)) \<and>
     (\<forall>fd w t w'. steady_now os w = (t, w') \<longrightarrow> room w' fd = room w fd)"

lemma room_law_full:
  "room_law os room \<Longrightarrow> lwip_write os fd bs w = ((r, e), w') \<Longrightarrow> room w fd = 0 \<Longrightarrow>
    r < 0 \<and> (e = EAGAIN os \<or> e = EWOULDBLOCK os) \<and> room w' fd = 0"
  unfolding room_law_def by meson

lemma room_law_takes:
  "room_law os room \<Longrightarrow> lwip_write os fd bs w = ((r, e), w') \<Longrightarrow> 0 < room w fd \<Longrightarrow>
    r = int (min (room w fd) (length bs)) \<and> room w' fd = room w fd - nat r"
  unfolding room_law_def by (metis less_numeral_extra(3))

lemma room_law_now: "room_law os room \<Longrightarrow> steady_now os w = (t, w') \<Longrightarrow> room w' fd = room w fd"
  unfolding room_law_def by blast

lemma room_law_fails:
  "room_law os room \<Longrightarrow> lwip_write os fd bs w = ((r, e), w') \<Longrightarrow> r < 0 \<longleftrightarrow> room w fd = 0"
  by (cases "room w fd = 0") (auto dest: room_law_full room_law_takes)

lemma room_law_sound: "room_law os room \<Longrightarrow> write_sound os"
  unfolding write_sound_def
proof (intro allI impI)
  fix fd bs w r e w'
  assume "room_law os room" and "lwip_write os fd bs w = ((r, e), w')" and "bs \<noteq> []" and "0 \<le> r"
  then show "0 < r \<and> r \<le> int (length bs)"
    using room_law_full [of os room fd bs w r e w'] room_law_takes [of os room fd bs w r e w']
    by (cases "room w fd = 0") auto
qed

lemma room_law_sticky: "room_law os room \<Longrightarrow> sticky_law os (\<lambda>w fd. room w fd = 0)"
  unfolding sticky_law_def
  by (meson room_law_fails room_law_full)

section \<open>One entry\<close>

text \<open>The bytes an entry had when it was queued: written and still held.\<close>

definition total_bytes :: "WriteQueueBuffer \<Rightarrow> nat" where
  "total_bytes b = unat (amountWritten (asCommonView b)) + remaining b"

lemma total_bytes_advance: "accepts b r \<Longrightarrow> total_bytes (advance r b) = total_bytes b"
  using advance_amount [of b r] advance_remaining [of b r]
  by (auto simp: total_bytes_def accepts_def nat_le_iff)

lemma total_bytes_finish:
  "accepts b r \<Longrightarrow> nat r = remaining b \<Longrightarrow> total_bytes (finish_at t (advance r b)) = total_bytes b"
  using advance_amount [of b r] by (simp add: total_bytes_def)

lemma write_buffer_room:
  assumes "room_law os room" and "buf_ok b" and "\<not> isFullyWritten b"
  shows "\<exists>n b' w'. write_buffer os b fd w = Some (n, b', w') \<and>
    unat n = min (room w fd) (remaining b) \<and> room w' fd = room w fd - unat n \<and>
    hasError b' = hasError b \<and> total_bytes b' = total_bytes b"
proof -
  let ?I = "\<lambda>tot b1 w1. unat tot + remaining b1 = remaining b \<and>
      room w1 fd + unat tot = room w fd \<and> hasError b1 = hasError b \<and>
      total_bytes b1 = total_bytes b"
  let ?Q = "\<lambda>(n, b', w'). unat n = min (room w fd) (remaining b) \<and>
      room w' fd = room w fd - unat n \<and> hasError b' = hasError b \<and>
      total_bytes b' = total_bytes b"
  have add: "unat (tot + word_of_int r :: size_t) = unat tot + nat r"
    if "?I tot b1 w1" and "accepts b1 r" for tot b1 w1 r
    using unat_of_int_remaining [OF _ remaining_bound that(2), of tot] that(1)
    by (metis remaining_bound unat_of_int_remaining that(2))
  have takes: "int (min (room w1 fd) (remaining b1)) = r \<and> room w2 fd + nat r = room w1 fd"
    if "lwip_write os fd (pending_bytes (mem os w1) b1) w1 = ((r, e), w2)" and "accepts b1 r"
      and "data_fits b1" for b1 w1 r e w2
  proof -
    have "0 < room w1 fd"
      using room_law_full [OF assms(1) that(1)] that(2) by (cases "room w1 fd") (auto simp: accepts_def)
    from room_law_takes [OF assms(1) that(1) this] that(3) show ?thesis
      by (auto simp: length_pending)
  qed
  have "\<exists>x. write_loop os fd b 0 w = Some x \<and> ?Q x"
  proof (rule write_loop_rule [where I = ?I, OF room_law_sound [OF assms(1)] assms(3)
        buf_ok_unfinished [OF assms(2)]], goal_cases)
    case 1
    then show ?case by simp
  next
    case (2 tot b1 w1 r e w2)
    from add [OF 2(1,3)] takes [OF 2(4,3,2)] 2(1,3,5) show ?case
      by (auto simp: advance_remaining total_bytes_advance)
  next
    case (3 tot b1 w1 r e w2 t w3)
    from add [OF 3(1,3)] takes [OF 3(4,3,2)] 3(1,3,5) room_law_now [OF assms(1) 3(6), of fd]
    show ?case by (auto simp: total_bytes_finish)
  next
    case (4 tot b1 w1 r e w2)
    then have "room w1 fd = 0" using room_law_fails [OF assms(1)] by blast
    from room_law_full [OF assms(1) 4(4) this] \<open>room w1 fd = 0\<close> 4(1) show ?case by auto
  qed
  then show ?thesis unfolding write_buffer_def by auto
qed

section \<open>The whole queue\<close>

text \<open>
  A socket that takes what fits, as an interface: \<open>room\<close> is its free space, \<open>tot\<close> what an
  entry keeps through writes.
\<close>

locale greedy_buffer_util = fifo_buffer_util err full wr ok rem sound sent pend stuck
  for err :: "'b \<Rightarrow> bool" and full :: "'b \<Rightarrow> bool"
    and wr :: "'b \<Rightarrow> 'w \<Rightarrow> (size_t \<times> 'b \<times> 'w) option"
    and ok :: "'b \<Rightarrow> bool" and rem :: "'b \<Rightarrow> nat" and sound :: bool
    and sent :: "'w \<Rightarrow> byte list" and pend :: "'w \<Rightarrow> 'b \<Rightarrow> byte list" and stuck :: "'w \<Rightarrow> bool" +
  fixes room :: "'w \<Rightarrow> nat" and tot :: "'b \<Rightarrow> nat"
  assumes wr_room: "sound \<Longrightarrow> ok b \<Longrightarrow> \<not> full b \<Longrightarrow> wr b w = Some (n, b', w') \<Longrightarrow>
      unat n = min (room w) (rem b) \<and> room w' = room w - unat n \<and> err b' = err b \<and> tot b' = tot b"
    and pend_length: "ok b \<Longrightarrow> length (pend w b) = rem b"
begin

lemma pending_length: "\<forall>b \<in> set q. ok b \<Longrightarrow> length (concat (map (pend w) q)) = sum_list (map rem q)"
  by (induction q) (auto simp: pend_length)

lemma full_rem: "ok b \<Longrightarrow> full b \<Longrightarrow> rem b = 0"
  using pend_length [of b] full_pend [of b] by fastforce

lemma pass_room:
  assumes "sound" and "\<forall>b \<in> set q. ok b" and "\<forall>b \<in> set q. \<not> err b"
    and "process_queue err full wr act q space w = Some (a, q', s, w')"
  shows "sum_list (map rem q') = sum_list (map rem q) - room w \<and>
    room w' = room w - sum_list (map rem q) \<and> map tot q' = map tot q \<and> (\<forall>b \<in> set q'. \<not> err b)"
  using assms(2-4)
proof (induction q arbitrary: act space w a q' s w')
  case Nil
  then show ?case by simp
next
  case (Cons b q)
  then have b: "ok b" "\<not> err b" by auto
  show ?case
  proof (cases "full b")
    case True
    with Cons.prems b obtain q1 where "q' = b # q1"
      and "process_queue err full wr act q space w = Some (a, q1, s, w')"
      by (auto split: option.splits)
    with Cons.IH [of act space w a q1 s w'] Cons.prems full_rem [OF b(1) True] show ?thesis by simp
  next
    case False
    with Cons.prems b obtain n b' w1 q1 where w: "wr b w = Some (n, b', w1)"
      and p: "process_queue err full wr (act \<or> 0 < n) q (space + n) w1 = Some (a, q1, s, w')"
      and q': "q' = b' # q1"
      by (auto split: option.splits)
    from wr_counts [OF assms(1) b(1) False, of w] w have "unat n + rem b' = rem b" by auto
    with wr_room [OF assms(1) b(1) False w] Cons.IH [OF _ _ p] Cons.prems b(2) q'
    show ?thesis by (auto simp: min_def split: if_splits)
  qed
qed

lemma pass_is_write:
  assumes "sound" and "\<forall>b \<in> set q. ok b" and "\<forall>b \<in> set q. \<not> err b"
    and "process_queue err full wr act q space w = Some (a, q', s, w')"
    and "\<forall>b \<in> set q'. ok b"
  shows "sent w' = sent w @ take (room w) (concat (map (pend w) q)) \<and>
    concat (map (pend w') q') = drop (room w) (concat (map (pend w) q))"
proof -
  let ?P = "concat (map (pend w) q)"
  note fifo = pass_fifo [OF assms(1,2,4)]
  have len: "length (concat (map (pend w') q')) = length ?P - room w"
    using pass_room [OF assms(1-4)] pending_length [OF assms(2)] pending_length [OF assms(5)] by simp
  from fifo have eq: "sent w' @ concat (map (pend w') q') = sent w @ ?P" by simp
  also have "\<dots> = (sent w @ take (room w) ?P) @ drop (room w) ?P" by simp
  finally have "sent w' @ concat (map (pend w') q') =
      (sent w @ take (room w) ?P) @ drop (room w) ?P" .
  moreover have "length (concat (map (pend w') q')) = length (drop (room w) ?P)"
    using len by simp
  ultimately show ?thesis using append_eq_append_conv by blast
qed

end

interpretation wqg: greedy_buffer_util hasError isFullyWritten "\<lambda>b. write_buffer os b fd" buf_ok
  remaining "stream_law os sent \<and> room_law os room"
  "\<lambda>w. sent w fd" "\<lambda>w. pending_bytes (mem os w)" "\<lambda>w. room w fd = 0" "\<lambda>w. room w fd" total_bytes
  for os :: "('w, 'ip) os" and fd :: int and sent :: "'w \<Rightarrow> int \<Rightarrow> byte list"
    and room :: "'w \<Rightarrow> int \<Rightarrow> nat"
proof (unfold_locales, goal_cases)
  case (1 b w)
  then show ?case using wqb.wr_counts [of os b] room_law_sound [of os room] by blast
next
  case (2 b w n b' w')
  then show ?case
    using wqf.wr_stream [of os sent "\<lambda>w fd. room w fd = 0" b fd w n b' w']
      room_law_sound [of os room] room_law_sticky [of os room] by blast
next
  case (3 b w)
  then show ?case by (simp add: pending_bytes_def)
next
  case (4 b w n b' w')
  then show ?case using write_buffer_room [of os room b fd w] by auto
next
  case (5 b w)
  then show ?case by (simp add: length_pending buf_ok_def)
qed

section \<open>A pass is one write\<close>

text \<open>The reference: one write of all the bytes to a socket with that much room.\<close>

definition one_write :: "nat \<Rightarrow> byte list \<Rightarrow> byte list \<times> byte list" where
  "one_write n bs = (take n bs, drop n bs)"


text \<open>A concrete socket of this kind: the head of the script is the room that is left.\<close>

definition tank_write :: "int \<Rightarrow> byte list \<Rightarrow> sample_world \<Rightarrow> (int \<times> int) \<times> sample_world" where
  "tank_write fd bs w =
     (case script w of
        [] \<Rightarrow> ((-1, 11), w)
      | k # ks \<Rightarrow>
          (if k = 0 then ((-1, 11), w)
           else let n = min k (length bs)
                in ((int n, 0),
                    w\<lparr>script := (k - n) # ks, outs := (outs w)(fd := outs w fd @ take n bs)\<rparr>)))"

definition tank_os :: "(sample_world, u32) os" where
  "tank_os = (sample_os True)\<lparr>lwip_write := tank_write\<rparr>"

definition tank_room :: "sample_world \<Rightarrow> int \<Rightarrow> nat" where
  "tank_room w fd = (case script w of [] \<Rightarrow> 0 | k # ks \<Rightarrow> k)"

lemma tank_stream_law: "stream_law tank_os outs"
  by (auto simp: stream_law_def tank_os_def sample_os_def tank_write_def Let_def
      split: list.splits if_splits)

lemma tank_room_law: "room_law tank_os tank_room"
  unfolding room_law_def
  by (auto simp: tank_os_def sample_os_def tank_write_def tank_room_def Let_def
      split: list.splits if_splits)

lemma tank_new_law: "new_law tank_os" "badfd_law tank_os"
  by (auto simp: new_law_def badfd_law_def tank_os_def sample_os_def split: if_splits)

definition plain_buffer :: "byte list \<Rightarrow> WriteQueueBuffer" where
  "plain_buffer bs =
     OwnedWriteQueueBuffer \<lparr>amountWritten = 0, queuedAt = 0, writtenAt = 0, errorCode = 0\<rparr> bs"

lemma plain_buffer_simps [simp]:
  "bs \<noteq> [] \<Longrightarrow> length bs < 2 ^ 32 \<Longrightarrow> buf_ok (plain_buffer bs)"
  "\<not> hasError (plain_buffer bs)"
  by (auto simp: buf_ok_def plain_buffer_def isFullyWritten_def hasError_def word_le_nat_alt
      unsigned_of_nat take_bit_nat_eq_self)


end
