(* ===== verification/Liveness.thy ===== *)
theory Liveness
  imports StreamProperties WriteDevice
begin

text \<open>
  Progress: what an application queued on a connection does leave, and is reported, when the
  network keeps taking data. The network acts between two write events of the worker.
\<close>

section \<open>Write events with a network in between\<close>

text \<open>
  Each element of the list is what the network does before the next write event (what \<open>select\<close>
  waited for): bytes leave the socket's buffer, the stream accepted so far and the
  application's memory stay as they are.
\<close>

fun drain_run ::
  "('w, 'ip) os \<Rightarrow> ptr \<Rightarrow> ('w \<Rightarrow> 'w) list \<Rightarrow> ('w, 'ip) machine \<Rightarrow> ('w, 'ip) machine res"
where
  "drain_run os p [] m = Inr m"
| "drain_run os p (e # es) m =
     bind_res (sockIsWriteable os quiet p (m\<lparr>world := e (world m)\<rparr>)) (\<lambda>(activity, m1).
       drain_run os p es m1)"

definition frees_room ::
  "('w, 'ip) os \<Rightarrow> ('w \<Rightarrow> int \<Rightarrow> byte list) \<Rightarrow> ('w \<Rightarrow> int \<Rightarrow> nat) \<Rightarrow> int \<Rightarrow> ('w \<Rightarrow> 'w) \<Rightarrow> bool"
where
  "frees_room os sent room fd e \<longleftrightarrow>
     (\<forall>w. sent (e w) fd = sent w fd \<and> mem os (e w) = mem os w \<and> 0 < room (e w) fd)"

text \<open>
  From \<open>c\<close> in \<open>m\<close> to \<open>c1\<close> in \<open>m1\<close>: the connection is up, the stream is kept, and the entries
  \<open>gone\<close> have left the front of the queue, written to the end and reported in order.
\<close>

definition drained_to ::
  "('w, 'ip) os \<Rightarrow> ('w \<Rightarrow> int \<Rightarrow> byte list) \<Rightarrow> ptr \<Rightarrow> 'ip ClientBase \<Rightarrow> ('w, 'ip) machine \<Rightarrow>
     WriteQueueBuffer list \<Rightarrow> 'ip ClientBase \<Rightarrow> ('w, 'ip) machine \<Rightarrow> bool"
where
  "drained_to os sent p c m gone c1 m1 \<longleftrightarrow>
     heap m1 p = Some c1 \<and> client_inv os c1 \<and> connected c1 \<and> socket c1 = socket c \<and>
     callbacks c1 = callbacks c \<and> (\<forall>b \<in> set (writeQueue c1). \<not> hasError b) \<and>
     in_flight os sent c1 (world m1) = in_flight os sent c (world m) \<and>
     map total_bytes (gone @ writeQueue c1) = map total_bytes (writeQueue c) \<and>
     (\<forall>b \<in> set gone. isFullyWritten b) \<and>
     trace m1 = trace m @ concat (map (\<lambda>b. told c p (sent_event b)) gone)"

lemma drained_refl:
  "heap m p = Some c \<Longrightarrow> client_inv os c \<Longrightarrow> connected c \<Longrightarrow>
    \<forall>b \<in> set (writeQueue c). \<not> hasError b \<Longrightarrow> drained_to os sent p c m [] c m"
  by (simp add: drained_to_def)

lemma drained_trans:
  assumes "drained_to os sent p c m gone1 c1 m1" and "drained_to os sent p c1 m1 gone2 c2 m2"
  shows "drained_to os sent p c m (gone1 @ gone2) c2 m2"
proof -
  have "told c1 p = told c p"
    using assms(1) by (intro ext told_callbacks) (simp add: drained_to_def)
  with assms show ?thesis by (auto simp: drained_to_def)
qed

lemma drained_env:
  assumes "frees_room os sent room (socket c) e" and "drained_to os sent p c (m\<lparr>world := e (world m)\<rparr>) gone c1 m1"
  shows "drained_to os sent p c m gone c1 m1"
  using assms by (auto simp: drained_to_def frees_room_def in_flight_def)

section \<open>One write event\<close>

lemma remaining_zero: "remaining b = 0 \<Longrightarrow> isFullyWritten b"
  using remaining_pos [of b] by auto

lemma all_written: "\<forall>b \<in> set q. \<not> hasError b \<Longrightarrow> queue_bytes q = 0 \<Longrightarrow> dropWhile finished q = []"
  by (induction q) (auto simp: finished_def remaining_zero)

lemma drain_step:
  assumes "stream_law os sent" and "room_law os room"
    and "heap m p = Some c" and "client_inv os c" and "connected c"
    and "\<forall>b \<in> set (writeQueue c). \<not> hasError b" and "0 < room (world m) (socket c)"
  shows "\<exists>a m1 c1 gone. sockIsWriteable os quiet p m = Inr (a, m1) \<and>
    drained_to os sent p c m gone c1 m1 \<and>
    queue_bytes (writeQueue c1) \<le> queue_bytes (writeQueue c) - 1 \<and>
    (queue_bytes (writeQueue c1) = 0 \<longrightarrow> writeQueue c1 = [])"
proof -
  have un: "\<not> writeMutex c" by (rule client_inv_unlocked [OF assms(4)])
  have conn: "conn_state c = CONNECTED" using assms(5) by (simp add: connected_def)
  let ?c = "c\<lparr>writeMutex := True\<rparr>"
  show ?thesis
  proof (cases "writeQueue c = []")
    case True
    with assms(3) un conn have "sockIsWriteable os quiet p m = Inr (False, m)"
      by (simp add: sockIsWriteable_def writeable_section_def get_client_def lock_write_def
          unlock_write_def put_same)
    with True drained_refl [OF assms(3-6)] show ?thesis by (fastforce simp: queue_bytes_def)
  next
    case False
    have sp: "space_inv os ?c" using assms(4) by (simp add: client_inv_defs)
    from process_locked_ok [OF room_law_sound [OF assms(2)] sp, of "world m"] obtain a q s w2 where
      p: "process_locked os ?c (world m) = Inr (a, ?c\<lparr>writeQueue := q, writeSpaceRemaining := s\<rparr>, w2)"
      and inv: "space_inv os (?c\<lparr>writeQueue := q, writeSpaceRemaining := s\<rparr>)"
      by auto
    let ?c2 = "?c\<lparr>writeQueue := q, writeSpaceRemaining := s\<rparr>"
    from p have pass: "process_queue hasError isFullyWritten (\<lambda>b. write_buffer os b (socket c)) False
        (writeQueue c) (writeSpaceRemaining c) (world m) = Some (a, q, s, w2)"
      by (auto simp: process_locked_def processWriteQueue_def of_option_def split: option.splits
          dest: arg_cong [of _ _ writeQueue] arg_cong [of _ _ writeSpaceRemaining])
    have sound: "stream_law os sent \<and> room_law os room" using assms(1,2) by simp
    have ok: "\<forall>b \<in> set (writeQueue c). buf_ok b" using sp by (simp add: space_inv_def)
    note room = wqg.pass_room [OF sound ok assms(6) pass]
    note fifo = wqg.pass_fifo [OF sound ok pass]
    let ?rest = "dropWhile finished q" let ?gone = "takeWhile finished q"
    have noerr: "\<forall>b \<in> set ?rest. \<not> hasError b" using room by (auto dest: set_dropWhileD)
    let ?m = "put_client p ?c2 w2 m"
    have "heap ?m p = Some ?c2" by (simp add: put_client_def)
    from cleanup_quiet_eq [OF this, of os] noerr obtain rx where
      clean: "cleanupWriteQueue os quiet p ?m = Inr ((put_client p (unlock_write
          (?c2\<lparr>rx_last_packet := rx, writeQueue := ?rest\<rparr>)) (world ?m) ?m)
        \<lparr>trace := trace ?m @ concat (map (\<lambda>b. told ?c2 p (sent_event b)) ?gone)\<rparr>)"
      by (fastforce simp: put_client_def)
    let ?c1 = "unlock_write (?c2\<lparr>rx_last_packet := rx, writeQueue := ?rest\<rparr>)"
    let ?m1 = "(put_client p ?c1 w2 m)\<lparr>trace := trace m @
      concat (map (\<lambda>b. told c p (sent_event b)) ?gone)\<rparr>"
    have "told ?c2 p = told c p" by (intro ext told_callbacks) simp
    then have step: "sockIsWriteable os quiet p m = Inr (a, ?m1)"
      using assms(3) conn un False p clean
      by (simp add: sockIsWriteable_def writeable_section_def get_client_def lock_write_def put_client_def)
    have open_c: "isOpen c" using assms(4) conn by (simp add: client_inv_defs)
    have "client_inv os ?c1"
      using inv conn open_c
      by (auto simp: client_inv_defs unlock_write_def isOpen_def queue_bytes_dropWhile
          dest: set_dropWhileD)
    moreover have "map total_bytes (?gone @ ?rest) = map total_bytes (writeQueue c)"
      using room by (simp only: takeWhile_dropWhile_id)
    moreover have "\<forall>b \<in> set ?gone. isFullyWritten b"
      by (auto simp: finished_def dest: set_takeWhileD)
    moreover have "in_flight os sent ?c1 w2 = in_flight os sent c (world m)"
      using fifo by (simp add: in_flight_def unlock_write_def finished_pending)
    ultimately have "drained_to os sent p c m ?gone ?c1 ?m1"
      using noerr assms(5)
      by (simp add: drained_to_def put_client_def unlock_write_def connected_def)
    moreover have "queue_bytes ?rest \<le> queue_bytes (writeQueue c) - 1"
      using room assms(7) by (simp add: queue_bytes_dropWhile) (simp add: queue_bytes_def)
    moreover have "queue_bytes ?rest = 0 \<longrightarrow> ?rest = []"
      using all_written [of q] room by (simp add: queue_bytes_dropWhile)
    moreover have "writeQueue ?c1 = ?rest" by (simp add: unlock_write_def)
    ultimately show ?thesis using step by metis
  qed
qed

lemma drain_run_ok:
  assumes "stream_law os sent" and "room_law os room"
  shows "heap m p = Some c \<Longrightarrow> client_inv os c \<Longrightarrow> connected c \<Longrightarrow>
    \<forall>b \<in> set (writeQueue c). \<not> hasError b \<Longrightarrow>
    \<forall>e \<in> set es. frees_room os sent room (socket c) e \<Longrightarrow>
    \<exists>m1 c1 gone. drain_run os p es m = Inr m1 \<and> drained_to os sent p c m gone c1 m1 \<and>
      queue_bytes (writeQueue c1) \<le> queue_bytes (writeQueue c) - length es \<and>
      (es \<noteq> [] \<longrightarrow> queue_bytes (writeQueue c1) = 0 \<longrightarrow> writeQueue c1 = [])"
proof (induction es arbitrary: m c)
  case Nil
  then show ?case using drained_refl by fastforce
next
  case (Cons e es)
  let ?m = "m\<lparr>world := e (world m)\<rparr>"
  have e: "frees_room os sent room (socket c) e" using Cons.prems by simp
  then have "0 < room (world ?m) (socket c)" by (simp add: frees_room_def)
  with drain_step [OF assms, of ?m p c] Cons.prems obtain a m1 c1 gone where
    step: "sockIsWriteable os quiet p ?m = Inr (a, m1)"
    and d: "drained_to os sent p c ?m gone c1 m1"
    and q: "queue_bytes (writeQueue c1) \<le> queue_bytes (writeQueue c) - 1"
      "queue_bytes (writeQueue c1) = 0 \<longrightarrow> writeQueue c1 = []"
    by auto
  from d have c1: "heap m1 p = Some c1" "client_inv os c1" "connected c1"
    "\<forall>b \<in> set (writeQueue c1). \<not> hasError b" "socket c1 = socket c"
    by (simp_all add: drained_to_def)
  have "\<forall>e \<in> set es. frees_room os sent room (socket c1) e" using Cons.prems c1(5) by simp
  from Cons.IH [OF c1(1-4) this] obtain m2 c2 gone2 where
    run: "drain_run os p es m1 = Inr m2" and d2: "drained_to os sent p c1 m1 gone2 c2 m2"
    and q2: "queue_bytes (writeQueue c2) \<le> queue_bytes (writeQueue c1) - length es"
      "es \<noteq> [] \<longrightarrow> queue_bytes (writeQueue c2) = 0 \<longrightarrow> writeQueue c2 = []"
    by (elim exE conjE) (rule that)
  have "drained_to os sent p c m (gone @ gone2) c2 m2"
    by (rule drained_trans [OF drained_env [OF e d] d2])
  moreover have "writeQueue c2 = []" if "queue_bytes (writeQueue c2) = 0"
    using q2(2) that q(2) run d2 c1(1) by (cases "es = []") (auto simp: drained_to_def)
  ultimately show ?case using step run q(1) q2(1) by fastforce
qed

section \<open>Everything is sent and reported\<close>

lemma sent_event_written:
  "isFullyWritten b \<Longrightarrow> sent_event b = EvSent (of_nat (total_bytes b)) (ws_delay (stats_of b))"
  by (simp add: sent_event_def stats_of_def total_bytes_def remaining_def Let_def)

lemma reports:
  "\<forall>b \<in> set gone. isFullyWritten b \<Longrightarrow> map total_bytes gone = map total_bytes q \<Longrightarrow>
    \<exists>ds. length ds = length q \<and> concat (map (\<lambda>b. told c p (sent_event b)) gone) =
      concat (map2 (\<lambda>b d. told c p (EvSent (of_nat (total_bytes b)) d)) q ds)"
proof (induction gone arbitrary: q)
  case (Cons b gone)
  then obtain b' q' where q: "q = b' # q'" "total_bytes b = total_bytes b'"
    "map total_bytes gone = map total_bytes q'" by auto
  from Cons.IH [OF _ q(3)] Cons.prems(1) obtain ds where "length ds = length q'"
    "concat (map (\<lambda>b. told c p (sent_event b)) gone) =
      concat (map2 (\<lambda>b d. told c p (EvSent (of_nat (total_bytes b)) d)) q' ds)" by auto
  then show ?case
    using Cons.prems(1) q
    by (intro exI [of _ "ws_delay (stats_of b) # ds"]) (simp add: sent_event_written)
qed simp


text \<open>A network that takes one byte between two events.\<close>

definition free_one :: "sample_world \<Rightarrow> sample_world" where
  "free_one w = w\<lparr>script := [1]\<rparr>"


end
