(* ===== verification/Worker.thy ===== *)
theory Worker
  imports System
begin

text \<open>
  The worker task in small steps: the loop of \<open>updateConnectionStates\<close> with a program counter,
  so that other threads may run between any two of its visits to connections. The manager
  mutex is free exactly between the steps here: each step that collects connections holds it
  from beginning to end, and the visits run without it. One uninterrupted turn of the loop is
  \<open>update_round\<close>.
\<close>

section \<open>The worker's steps\<close>

datatype phase = Writing | Reading | Accepting | Resolving | Polling | Finishing

text \<open>
  Where the worker is: about to go through the clients or the servers for \<open>select\<close>, about to
  call \<open>select\<close>, about to collect the connections of a phase, or visiting them. The two lists
  are the descriptors \<open>select\<close> reported readable and writeable.
\<close>

datatype worker_pc =
    GatherClients
  | GatherServers fd_sets
  | Selecting fd_sets
  | Collecting phase "int list" "int list"
  | Visiting phase "int list" "int list" "ptr list"

fun collect ::
  "('w, 'ip) os \<Rightarrow> phase \<Rightarrow> int list \<Rightarrow> int list \<Rightarrow> ('w, 'ip) machine \<Rightarrow>
     (ptr list \<times> ('w, 'ip) machine) res"
where
  "collect os Writing rs ws m = collect_clients (\<lambda>c. getSocket c \<in> set ws) m"
| "collect os Reading rs ws m = collect_clients (\<lambda>c. getSocket c \<in> set rs) m"
| "collect os Accepting rs ws m = collect_servers (\<lambda>s. getSocket s \<in> set rs) m"
| "collect os Resolving rs ws m = collect_clients isDnsFinished m"
| "collect os Polling rs ws m = iterateClients (collect_idle os) [] m"
| "collect os Finishing rs ws m = collect_clients (\<lambda>c. True) m"

fun visit ::
  "('w, 'ip) os \<Rightarrow> ('w, 'ip) usercode \<Rightarrow> phase \<Rightarrow> ptr \<Rightarrow> ('w, 'ip) machine \<Rightarrow> ('w, 'ip) machine res"
where
  "visit os U Writing = visit_writeable (sockIsWriteable os U) (touch_client os)"
| "visit os U Reading = visit_then (touch_client os) (sockIsReadable os U)"
| "visit os U Accepting = visit_then (touch_server os) (server_readable os U)"
| "visit os U Resolving = visit_then clear_dns (sockDelayedConnect os U)"
| "visit os U Polling = sockPoll os U"
| "visit os U Finishing = processingDone os U"

fun next_pc :: "phase \<Rightarrow> int list \<Rightarrow> int list \<Rightarrow> worker_pc" where
  "next_pc Writing rs ws = Collecting Reading rs ws"
| "next_pc Reading rs ws = Collecting Accepting rs ws"
| "next_pc Accepting rs ws = Collecting Resolving rs ws"
| "next_pc Resolving rs ws = Collecting Polling rs ws"
| "next_pc Polling rs ws = Collecting Finishing rs ws"
| "next_pc Finishing rs ws = GatherClients"

fun worker_step ::
  "('w, 'ip) os \<Rightarrow> ('w, 'ip) usercode \<Rightarrow> worker_pc \<times> ('w, 'ip) machine \<Rightarrow>
     (worker_pc \<times> ('w, 'ip) machine) res"
where
  "worker_step os U (GatherClients, m) =
     bind_res (iterateClients gather_client (0, [], []) m) (\<lambda>(a, m1). Inr (GatherServers a, m1))"
| "worker_step os U (GatherServers a, m) =
     bind_res (iterateServers (gather_server os) a m) (\<lambda>(a1, m1). Inr (Selecting a1, m1))"
| "worker_step os U (Selecting (max_sock, rs, ws), m) =
     (let ((success, rs1, ws1), w1) = select_all os max_sock rs ws (world m)
      in Inr (Collecting (if 0 < success then Writing else Resolving) rs1 ws1, m\<lparr>world := w1\<rparr>))"
| "worker_step os U (Collecting ph rs ws, m) =
     bind_res (collect os ph rs ws m) (\<lambda>(ps, m1). Inr (Visiting ph rs ws ps, m1))"
| "worker_step os U (Visiting ph rs ws [], m) = Inr (next_pc ph rs ws, m)"
| "worker_step os U (Visiting ph rs ws (p # ps), m) =
     bind_res (visit os U ph p m) (\<lambda>m1. Inr (Visiting ph rs ws ps, m1))"

fun worker_run ::
  "nat \<Rightarrow> ('w, 'ip) os \<Rightarrow> ('w, 'ip) usercode \<Rightarrow> worker_pc \<times> ('w, 'ip) machine \<Rightarrow>
     (worker_pc \<times> ('w, 'ip) machine) res"
where
  "worker_run 0 os U s = Inr s"
| "worker_run (Suc n) os U s = bind_res (worker_step os U s) (worker_run n os U)"

section \<open>One turn of the loop\<close>

definition leads ::
  "('w, 'ip) os \<Rightarrow> ('w, 'ip) usercode \<Rightarrow> worker_pc \<times> ('w, 'ip) machine \<Rightarrow>
     (worker_pc \<times> ('w, 'ip) machine) res \<Rightarrow> bool"
where
  "leads os U s r \<longleftrightarrow> (\<exists>n > 0. worker_run n os U s = r)"

lemma bind_assoc: "bind_res (bind_res r f) g = bind_res r (\<lambda>x. bind_res (f x) g)"
  by (cases r) simp_all

lemma bind_Inr: "bind_res r Inr = r"
  by (cases r) simp_all

lemma worker_run_add:
  "worker_run (i + j) os U = (\<lambda>s. bind_res (worker_run i os U s) (worker_run j os U))"
  by (induction i) (rule ext, simp add: bind_assoc)+

lemma leads_step: "leads os U s (worker_step os U s)"
  unfolding leads_def by (rule exI [of _ "Suc 0"]) (cases "worker_step os U s"; simp)

lemma leads_bind:
  assumes "leads os U s r" and "\<And>x. r = Inr x \<Longrightarrow> leads os U x (f x)"
  shows "leads os U s (bind_res r f)"
proof (cases r)
  case (Inl e)
  with assms(1) show ?thesis by simp
next
  case (Inr x)
  from assms(1) Inr obtain i where i: "0 < i" "worker_run i os U s = Inr x" by (auto simp: leads_def)
  from assms(2) [OF Inr] obtain j where "worker_run j os U x = f x" by (auto simp: leads_def)
  with i have "worker_run (i + j) os U s = f x" "0 < i + j" by (simp_all add: worker_run_add)
  with Inr show ?thesis unfolding leads_def by (metis bind_res.simps(2))
qed

text \<open>A step that computes a machine, then whatever follows from it.\<close>

lemma leads_then:
  assumes "leads os U s (bind_res r (\<lambda>x. Inr (g x)))" and "\<And>x. leads os U (g x) (f x)"
  shows "leads os U s (bind_res r f)"
proof -
  have "bind_res (bind_res r (\<lambda>x. Inr (g x))) (\<lambda>y. bind_res r f) = bind_res r f"
    by (cases r) simp_all
  moreover have "leads os U s (bind_res (bind_res r (\<lambda>x. Inr (g x))) (\<lambda>y. bind_res r f))"
  proof (rule leads_bind [OF assms(1)])
    fix y assume "bind_res r (\<lambda>x. Inr (g x)) = Inr y"
    then obtain x where "r = Inr x" "y = g x" by (auto simp: bind_res_Inr_iff)
    with assms(2) show "leads os U y (bind_res r f)" by simp
  qed
  ultimately show ?thesis by simp
qed

lemma visits_lead:
  "leads os U (Visiting ph rs ws ps, m)
     (bind_res (for_each (visit os U ph) ps m) (\<lambda>m1. Inr (next_pc ph rs ws, m1)))"
proof (induction ps arbitrary: m)
  case Nil
  show ?case using leads_step [of os U "(Visiting ph rs ws [], m)"] by simp
next
  case (Cons p ps)
  show ?case
    unfolding for_each.simps bind_assoc
    by (rule leads_then [where g = "\<lambda>m1. (Visiting ph rs ws ps, m1)"])
      (use leads_step [of os U "(Visiting ph rs ws (p # ps), m)"] Cons.IH in simp_all)
qed

definition run_phase ::
  "('w, 'ip) os \<Rightarrow> ('w, 'ip) usercode \<Rightarrow> phase \<Rightarrow> int list \<Rightarrow> int list \<Rightarrow> ('w, 'ip) machine \<Rightarrow>
     ('w, 'ip) machine res"
where
  "run_phase os U ph rs ws m =
     bind_res (collect os ph rs ws m) (\<lambda>(ps, m1). for_each (visit os U ph) ps m1)"

lemma run_phase_simps:
  "run_phase os U Writing rs ws = write_phase os U ws"
  "run_phase os U Reading rs ws = read_phase os U rs"
  "run_phase os U Accepting rs ws = accept_phase os U rs"
  "run_phase os U Resolving rs ws = dns_phase os U"
  "run_phase os U Polling rs ws = poll_phase os U"
  "run_phase os U Finishing rs ws = done_phase os U"
  by (simp_all add: fun_eq_iff run_phase_def write_phase_def read_phase_def accept_phase_def
      dns_phase_def poll_phase_def done_phase_def)

lemma phase_leads:
  "leads os U (Collecting ph rs ws, m)
     (bind_res (run_phase os U ph rs ws m) (\<lambda>m1. Inr (next_pc ph rs ws, m1)))"
  unfolding run_phase_def bind_assoc
proof (rule leads_then [where g = "\<lambda>(ps, m1). (Visiting ph rs ws ps, m1)"], goal_cases)
  case 1
  show ?case
    using leads_step [of os U "(Collecting ph rs ws, m)"] by (simp add: case_prod_unfold)
next
  case (2 x)
  show ?case by (cases x) (simp add: visits_lead)
qed

lemma phase_leads_then:
  assumes "\<And>m1. leads os U (next_pc ph rs ws, m1) (f m1)"
  shows "leads os U (Collecting ph rs ws, m) (bind_res (run_phase os U ph rs ws m) f)"
  by (rule leads_then [OF phase_leads assms])

lemma round_leads:
  "leads os U (GatherClients, m) (bind_res (update_round os U m) (\<lambda>m1. Inr (GatherClients, m1)))"
proof -
  let ?home = "\<lambda>m1. Inr (GatherClients, m1)"
  have late: "leads os U (Collecting Resolving rs ws, m2)
      (bind_res (dns_phase os U m2) (\<lambda>m3. bind_res (poll_phase os U m3) (\<lambda>m4.
         bind_res (done_phase os U m4) ?home)))" for rs ws m2
    unfolding run_phase_simps(4-6) [symmetric, where rs = rs and ws = ws]
    by (intro phase_leads_then) (simp add: phase_leads_then phase_leads [of os U Finishing, simplified])
  have sockets: "leads os U (Collecting Writing rs ws, m1)
      (bind_res (write_phase os U ws m1) (\<lambda>m2. bind_res (read_phase os U rs m2) (\<lambda>m3.
         bind_res (accept_phase os U rs m3) (\<lambda>m4. bind_res (dns_phase os U m4) (\<lambda>m5.
         bind_res (poll_phase os U m5) (\<lambda>m6. bind_res (done_phase os U m6) ?home))))))" for rs ws m1
    unfolding run_phase_simps(1-3) [symmetric, where rs = rs and ws = ws]
    by (intro phase_leads_then; simp; intro phase_leads_then; simp; intro phase_leads_then)
      (simp add: late)
  have selecting: "leads os U (Selecting (max_sock, rs, ws), m1)
      (let ((success, rs, ws), w1) = select_all os max_sock rs ws (world m1); m1 = m1\<lparr>world := w1\<rparr>
       in bind_res (if 0 < success then socket_phases os U rs ws m1 else Inr m1) (\<lambda>m2.
            bind_res (dns_phase os U m2) (\<lambda>m3. bind_res (poll_phase os U m3) (\<lambda>m4.
            bind_res (done_phase os U m4) ?home))))" for max_sock rs ws m1
  proof -
    obtain success rs1 ws1 w1 where s: "select_all os max_sock rs ws (world m1) = ((success, rs1, ws1), w1)"
      by (metis surj_pair)
    have step: "leads os U (Selecting (max_sock, rs, ws), m1)
        (Inr (Collecting (if 0 < success then Writing else Resolving) rs1 ws1, m1\<lparr>world := w1\<rparr>))"
      using leads_step [of os U "(Selecting (max_sock, rs, ws), m1)"] by (simp add: s)
    show ?thesis
      using leads_bind [OF step, of "\<lambda>x. bind_res (if 0 < success
            then socket_phases os U rs1 ws1 (m1\<lparr>world := w1\<rparr>) else Inr (m1\<lparr>world := w1\<rparr>)) (\<lambda>m2.
            bind_res (dns_phase os U m2) (\<lambda>m3. bind_res (poll_phase os U m3) (\<lambda>m4.
            bind_res (done_phase os U m4) ?home)))"]
        late sockets
      unfolding s Let_def prod.case by (simp add: socket_phases_def bind_assoc)
  qed
  show ?thesis
    unfolding update_round_def wait_activity_def gather_def bind_assoc
  proof (rule leads_then [where g = "\<lambda>(a, m1). (GatherServers a, m1)"], goal_cases)
    case 1
    show ?case using leads_step [of os U "(GatherClients, m)"] by (simp add: case_prod_unfold)
  next
    case (2 x)
    obtain a m1 where x: "x = (a, m1)" by fastforce
    show ?case
      unfolding x prod.case
    proof (rule leads_then [where g = "\<lambda>(a, m1). (Selecting a, m1)"], goal_cases)
      case 1
      show ?case using leads_step [of os U "(GatherServers a, m1)"] by (simp add: case_prod_unfold)
    next
      case (2 y)
      obtain max_sock rs ws m2 where y: "y = ((max_sock, rs, ws), m2)" by (metis surj_pair)
      show ?case using selecting [of max_sock rs ws m2]
        by (auto simp: y case_prod_unfold Let_def bind_assoc)
    qed
  qed
qed

end
