(* ===== verification/Interleaving.thy ===== *)
theory Interleaving
  imports Worker
begin

text \<open>
  The program with its threads interleaved inside a turn of the worker's loop: between any two
  steps of the worker (theory \<open>Worker\<close>) other threads may call the API, create and delete
  connections, and lwIP may deliver the result of a name resolution. What a thread may do is a
  parameter: anything, or what is safe while the worker is on its way through a list it has
  collected (\<open>careful\<close>).
\<close>

section \<open>The other threads\<close>

datatype 'ip thread_op =
    Act "'ip action"
  | NewServer "'ip option" u16
  | DeleteServer ptr
  | DnsFound ptr "'ip option"

fun run_thread ::
  "('w, 'ip) os \<Rightarrow> 'ip thread_op \<Rightarrow> ('w, 'ip) machine \<Rightarrow> ('w, 'ip) machine res"
where
  "run_thread os (Act a) m = run_action os a m"
| "run_thread os (NewServer addr port) m = bind_res (new_server os addr port m) (\<lambda>(p, m1). Inr m1)"
| "run_thread os (DeleteServer p) m = delete_server os p m"
| "run_thread os (DnsFound p ip) m = dns_found os p ip m"

text \<open>The connections the worker has collected and not visited yet.\<close>

fun pending_clients :: "worker_pc \<Rightarrow> ptr set" where
  "pending_clients (Visiting ph rs ws ps) = (if ph = Accepting then {} else set ps)"
| "pending_clients pc = {}"

fun pending_servers :: "worker_pc \<Rightarrow> ptr set" where
  "pending_servers (Visiting ph rs ws ps) = (if ph = Accepting then set ps else {})"
| "pending_servers pc = {}"

text \<open>
  A careful thread uses live objects only, and deletes none that the worker has still to visit.
\<close>

fun careful :: "worker_pc \<Rightarrow> ('w, 'ip) machine \<Rightarrow> 'ip thread_op \<Rightarrow> bool" where
  "careful pc m (Act (Delete p)) = (heap m p \<noteq> None \<and> p \<notin> pending_clients pc)"
| "careful pc m (Act a) = polite_action m a"
| "careful pc m (NewServer addr port) = True"
| "careful pc m (DeleteServer p) = (server_heap m p \<noteq> None \<and> p \<notin> pending_servers pc)"
| "careful pc m (DnsFound p ip) = (heap m p \<noteq> None)"

definition anything :: "worker_pc \<Rightarrow> ('w, 'ip) machine \<Rightarrow> 'ip thread_op \<Rightarrow> bool" where
  "anything pc m op = True"

section \<open>The system\<close>

inductive inter_step ::
  "(worker_pc \<Rightarrow> ('w, 'ip) machine \<Rightarrow> 'ip thread_op \<Rightarrow> bool) \<Rightarrow> ('w, 'ip) os \<Rightarrow> ('w, 'ip) usercode \<Rightarrow>
     worker_pc \<times> ('w, 'ip) machine \<Rightarrow> (worker_pc \<times> ('w, 'ip) machine) res \<Rightarrow> bool"
  for may :: "worker_pc \<Rightarrow> ('w, 'ip) machine \<Rightarrow> 'ip thread_op \<Rightarrow> bool"
    and os :: "('w, 'ip) os" and U :: "('w, 'ip) usercode"
where
  inter_worker: "inter_step may os U s (worker_step os U s)"
| inter_thread: "may pc m op \<Longrightarrow>
    inter_step may os U (pc, m) (bind_res (run_thread os op m) (\<lambda>m1. Inr (pc, m1)))"

inductive_cases inter_stepE: "inter_step may os U s r"

inductive inter_reachable ::
  "(worker_pc \<Rightarrow> ('w, 'ip) machine \<Rightarrow> 'ip thread_op \<Rightarrow> bool) \<Rightarrow> ('w, 'ip) os \<Rightarrow> ('w, 'ip) usercode \<Rightarrow>
     worker_pc \<times> ('w, 'ip) machine \<Rightarrow> bool"
  for may :: "worker_pc \<Rightarrow> ('w, 'ip) machine \<Rightarrow> 'ip thread_op \<Rightarrow> bool"
    and os :: "('w, 'ip) os" and U :: "('w, 'ip) usercode"
where
  inter_start: "inter_reachable may os U (GatherClients, start_machine w)"
| inter_next: "inter_reachable may os U s \<Longrightarrow> inter_step may os U s (Inr s1) \<Longrightarrow>
    inter_reachable may os U s1"

section \<open>The worker's steps keep the contract\<close>

text \<open>What holds between two steps: nothing the worker has still to visit is listed twice.\<close>

fun pc_distinct :: "worker_pc \<Rightarrow> bool" where
  "pc_distinct (Visiting ph rs ws ps) = distinct ps"
| "pc_distinct pc = True"

definition inter_inv ::
  "('w, 'ip) os \<Rightarrow> fault set \<Rightarrow> worker_pc \<times> ('w, 'ip) machine \<Rightarrow> bool"
where
  "inter_inv os faults s \<longleftrightarrow>
     pc_distinct (fst s) \<and> safe os faults (pending_clients (fst s)) (pending_servers (fst s)) (snd s)"

lemma pending_next [simp]:
  "pending_clients (next_pc ph rs ws) = {}" "pending_servers (next_pc ph rs ws) = {}"
  "pc_distinct (next_pc ph rs ws)"
  by (cases ph; simp)+

lemma iterate_pure:
  assumes "\<And>p a. p \<in> set ps \<Longrightarrow> \<exists>a1. f p a m = Inr (a1, m)"
  shows "\<exists>a1. iterate f ps a m = Inr (a1, m)"
  using assms
proof (induction ps arbitrary: a)
  case (Cons p ps)
  from Cons.prems [of p a] obtain a1 where "f p a m = Inr (a1, m)" by auto
  with Cons show ?case by simp
qed simp

lemma gather_clients_pure:
  assumes "machine_inv os {} m"
  shows "\<exists>a. iterateClients gather_client (0, [], []) m = Inr (a, m)"
proof -
  let ?m = "m\<lparr>managerMutex := True\<rparr>"
  have "\<exists>a1. iterate gather_client (clients m) (0, [], []) ?m = Inr (a1, ?m)"
    by (rule iterate_pure)
      (use registry_facts(2) [OF assms] in \<open>force simp: gather_client_def get_client_def Let_def\<close>)
  with registry_facts(1) [OF assms] show ?thesis
    by (auto simp: iterateClients_def lock_manager_def unlock_manager_def)
qed

lemma gather_servers_pure:
  assumes "machine_inv os {} m"
  shows "\<exists>a1. iterateServers (gather_server os) a m = Inr (a1, m)"
proof -
  let ?m = "m\<lparr>managerMutex := True\<rparr>"
  have "\<exists>a1. iterate (gather_server os) (servers m) a ?m = Inr (a1, ?m)"
    by (rule iterate_pure)
      (use registry_facts(3) [OF assms] in \<open>force simp: gather_server_def get_server_def Let_def\<close>)
  with registry_facts(1) [OF assms] show ?thesis
    by (auto simp: iterateServers_def lock_manager_def unlock_manager_def)
qed

context app_contract begin

lemma collect_keeps:
  assumes "machine_inv os {} m"
  shows "holds {} (\<lambda>(ps, m1). distinct ps \<and> safe os faults
      (if ph = Accepting then {} else set ps) (if ph = Accepting then set ps else {}) m1)
    (collect os ph rs ws m)"
proof (cases "ph = Polling")
  case True
  have "safe os faults (set ps) {} m1"
    if "machine_inv os {} m1" and "set ps \<subseteq> set (clients m1)" for ps m1
    using that registry_facts(2) [OF that(1)] by (auto simp: safe_def alive_def)
  with True holds_mono [OF collect_idle_holds [OF assms]] show ?thesis by fastforce
next
  case False
  then show ?thesis
    using managed_alive [OF assms] managed_alive [OF assms, of "\<lambda>_. True"]
    by (cases ph) (simp_all add: collect_clients_eq [OF assms] collect_servers_eq [OF assms])
qed

lemma visit_client_ok:
  assumes "ok" and "safe os faults S {} m" and "p \<in> S" and "ph \<noteq> Accepting"
  shows "holds faults (safe os faults (S - {p}) {}) (visit os U ph p m)"
proof -
  have m: "ok \<and> safe os faults S {} m" using assms(1,2) by simp
  have "holds faults (\<lambda>m. ok \<and> safe os faults (S - {p}) {} m) (visit os U ph p m)"
    using assms(4) client.visit_writeable_ok [OF m assms(3)]
      client.visit_then_ok [OF client.touch_ok client.readable_ok m assms(3)]
      client.visit_then_ok [OF client.dns_done_ok client.delayed_connect_ok m assms(3)]
      client.poll_ok [OF m assms(3)] client.processing_done_ok [OF m assms(3)]
    by (cases ph) simp_all
  then show ?thesis by (rule holds_mono) simp
qed

lemma visit_server_ok:
  assumes "ok" and "safe os faults {} T m" and "p \<in> T"
  shows "holds faults (safe os faults {} (T - {p})) (visit os U Accepting p m)"
proof -
  have m: "ok \<and> safe os faults {} T m" using assms(1,2) by simp
  have "holds faults (\<lambda>m. ok \<and> safe os faults {} (T - {p}) m)
      (visit_then (touch_server os) (server_readable os U) p m)"
    by (rule server.visit_then_ok [OF server.touch_ok server.accept_ok m assms(3)])
  then show ?thesis by (auto elim!: holds_mono)
qed

lemma worker_step_keeps:
  assumes "ok" and "inter_inv os faults s"
  shows "holds faults (inter_inv os faults) (worker_step os U s)"
proof -
  obtain pc m where s: "s = (pc, m)" by fastforce
  with assms(2) have inv: "machine_inv os {} m" by (simp add: inter_inv_def safe_def)
  then have idle: "safe os faults {} {} m1" if "machine_inv os {} m1" for m1
    using that by (simp add: safe_def alive_def)
  show ?thesis
  proof (cases pc)
    case GatherClients
    with gather_clients_pure [OF inv] idle [OF inv] show ?thesis by (auto simp: s inter_inv_def)
  next
    case (GatherServers a)
    with gather_servers_pure [OF inv, of a] idle [OF inv] show ?thesis by (auto simp: s inter_inv_def)
  next
    case (Selecting a)
    then show ?thesis
      using idle inv by (cases a) (auto simp: s inter_inv_def split: prod.splits)
  next
    case (Collecting ph rs ws)
    with holds_weaken [OF collect_keeps [OF inv, of ph rs ws], of faults] show ?thesis
      by (fastforce simp: s inter_inv_def)
  next
    case (Visiting ph rs ws ps)
    show ?thesis
    proof (cases ps)
      case Nil
      with Visiting idle [OF inv] show ?thesis by (simp add: s inter_inv_def)
    next
      case (Cons p qs)
      with assms(2) Visiting have d: "p \<notin> set qs" "distinct qs" by (simp_all add: s inter_inv_def)
      then have rest: "set (p # qs) - {p} = set qs" by auto
      show ?thesis
      proof (cases "ph = Accepting")
        case True
        with assms(2) Visiting Cons have "safe os faults {} (set (p # qs)) m"
          by (simp add: s inter_inv_def)
        from visit_server_ok [OF assms(1) this, of p] d True Visiting Cons show ?thesis
          unfolding rest by (auto simp: s inter_inv_def elim!: holds_mono)
      next
        case False
        with assms(2) Visiting Cons have "safe os faults (set (p # qs)) {} m"
          by (simp add: s inter_inv_def)
        from visit_client_ok [OF assms(1) this, of p ph] d False Visiting Cons show ?thesis
          unfolding rest by (auto simp: s inter_inv_def elim!: holds_mono)
      qed
    qed
  qed
qed

end

section \<open>The other threads keep it\<close>

lemma any_thread_keeps:
  assumes "platform_ok os" and "machine_inv os {} m"
  shows "holds app_faults (machine_inv os {}) (run_thread os op m)"
proof (cases op)
  case (Act a)
  then show ?thesis using run_action_holds [OF assms] by simp
next
  case (NewServer addr port)
  then show ?thesis
    using system_step_holds [OF assms step_new_server [of os undefined m addr port]] by simp
next
  case (DeleteServer p)
  then show ?thesis using delete_server_holds [OF assms(2), of p] by (auto elim: holds_weaken)
next
  case (DnsFound p ip)
  then show ?thesis using dns_found_holds [OF assms(2)] by simp
qed

lemma new_server_grows:
  assumes "new_law os" and "machine_inv os {} m"
  shows "holds polite_faults (\<lambda>(p, m1). machine_inv os {} m1 \<and> grows m m1) (new_server os addr port m)"
proof -
  have "holds {BadAlloc} (\<lambda>(p, m1). grows m m1) (new_server os addr port m)"
    using allocate_holds [OF assms]
    by (auto simp: new_server_def addServer_def lock_manager_def unlock_manager_def grows_def
        put_server_def registry_facts(1) [OF assms(2)] elim!: holds_mono split: prod.splits)
  from holds_conj [OF new_server_holds [OF assms, of addr port] this] show ?thesis
    by (rule holds_weaken) auto
qed

lemma delete_server_live:
  assumes "machine_inv os {} m" and "server_heap m p \<noteq> None"
  shows "holds {} (\<lambda>m1. machine_inv os {} m1 \<and> heap m1 = heap m \<and>
    server_heap m1 = (server_heap m)(p := None)) (delete_server os p m)"
proof -
  from assms(2) obtain s where s: "server_heap m p = Some s" by auto
  have "holds {} (\<lambda>m1. heap m1 = heap m \<and> server_heap m1 = (server_heap m)(p := None)) (delete_server os p m)"
    using registry_facts(1) [OF assms(1)] s
    by (auto simp: delete_server_def get_server_def removeServer_def lock_manager_def
        unlock_manager_def split: prod.splits)
  with delete_server_holds [OF assms(1), of p] show ?thesis
    by (cases "delete_server os p m") auto
qed

lemma careful_thread_keeps:
  assumes "platform_ok os" and "inter_inv os polite_faults (pc, m)" and "careful pc m op"
  shows "holds polite_faults (\<lambda>m1. inter_inv os polite_faults (pc, m1)) (run_thread os op m)"
proof -
  from assms(2) have inv: "machine_inv os {} m" and d: "pc_distinct pc"
    and alive: "alive polite_faults (pending_clients pc) (pending_servers pc) m"
    by (simp_all add: inter_inv_def safe_def)
  have grown: "inter_inv os polite_faults (pc, m1)" if "machine_inv os {} m1" and "grows m m1" for m1
    using safe_grows [OF alive that] d by (simp add: inter_inv_def)
  have act: ?thesis if "op = Act a" and "polite_action m a" for a
    using polite_action_holds [OF assms(1) inv that(2)] that(1) grown by (auto elim!: holds_mono)
  show ?thesis
  proof (cases op)
    case (Act a)
    show ?thesis
    proof (cases "\<exists>p. a = Delete p")
      case True
      with Act assms(3) obtain p where p: "op = Act (Delete p)" "heap m p \<noteq> None"
        "p \<notin> pending_clients pc" by auto
      from delete_client_live [OF inv p(2)] alive d p(3) show ?thesis
        by (auto simp: p(1) inter_inv_def safe_def alive_def elim!: holds_weaken)
    next
      case False
      with Act assms(3) have "polite_action m a" by (cases a) auto
      with Act act show ?thesis by blast
    qed
  next
    case (NewServer addr port)
    then show ?thesis
      using new_server_grows [OF platform_okD(2) [OF assms(1)] inv, of addr port] grown
      by (auto elim!: holds_mono simp: case_prod_unfold)
  next
    case (DeleteServer p)
    with delete_server_live [OF inv, of p] alive d assms(3) show ?thesis
      by (auto simp: inter_inv_def safe_def alive_def elim!: holds_weaken)
  next
    case (DnsFound p ip)
    with assms(3) obtain c where c: "heap m p = Some c" by auto
    have "holds {Hang, BadAlloc} (machine_inv os {}) (dns_found os p ip m)"
      using dns_found_holds [OF inv, of p ip] c by (auto simp: dns_found_def get_client_def)
    then show ?thesis
      using DnsFound c grown by (auto simp: dns_found_def get_client_def)
  qed
qed

section \<open>Every interleaving\<close>

lemma inter_any:
  assumes "platform_ok os" and "inter_reachable may os U s"
  shows "inter_inv os app_faults s"
  using assms(2)
proof (induction rule: inter_reachable.induct)
  case (inter_start w)
  show ?case using start_inv by (simp add: inter_inv_def safe_any)
next
  case (inter_next s s1)
  from inter_next.hyps(2) show ?case
  proof (rule inter_stepE)
    assume "Inr s1 = worker_step os U s"
    with any_app.worker_step_keeps [OF assms(1) inter_next.IH, of U] show ?thesis by (auto dest: sym)
  next
    fix pc m op
    assume s: "s = (pc, m)" and r: "Inr s1 = bind_res (run_thread os op m) (\<lambda>m1. Inr (pc, m1))"
    from inter_next.IH s have "machine_inv os {} m" by (simp add: inter_inv_def safe_def)
    from any_thread_keeps [OF assms(1) this, of op] r inter_next.IH s show ?thesis
      by (cases "run_thread os op m") (auto simp: inter_inv_def safe_any)
  qed
qed

lemma inter_any_step:
  assumes "platform_ok os" and "inter_inv os app_faults s" and "inter_step may os U s r"
  shows "r \<noteq> Inl Deadlock"
  using assms(3)
proof (rule inter_stepE)
  assume "r = worker_step os U s"
  with any_app.worker_step_keeps [OF assms(1,2), of U] show ?thesis by auto
next
  fix pc m op
  assume s: "s = (pc, m)" and r: "r = bind_res (run_thread os op m) (\<lambda>m1. Inr (pc, m1))"
  from assms(2) s have "machine_inv os {} m" by (simp add: inter_inv_def safe_def)
  from any_thread_keeps [OF assms(1) this, of op] r show ?thesis
    by (cases "run_thread os op m") auto
qed

lemma inter_careful_step:
  assumes "platform_ok os \<and> polite_app U" and "inter_inv os polite_faults s"
    and "inter_step careful os U s r"
  shows "holds polite_faults (inter_inv os polite_faults) r"
  using assms(3)
proof (rule inter_stepE)
  assume "r = worker_step os U s"
  with polite.worker_step_keeps [OF assms(1,2)] show ?thesis by simp
next
  fix pc m op
  assume s: "s = (pc, m)" and "careful pc m op"
    and r: "r = bind_res (run_thread os op m) (\<lambda>m1. Inr (pc, m1))"
  with careful_thread_keeps [of os pc m op] assms(1,2) show ?thesis by simp
qed

lemma inter_careful:
  assumes "platform_ok os \<and> polite_app U" and "inter_reachable careful os U s"
  shows "inter_inv os polite_faults s"
  using assms(2)
proof (induction rule: inter_reachable.induct)
  case (inter_start w)
  show ?case using start_inv by (simp add: inter_inv_def safe_def alive_def)
next
  case (inter_next s s1)
  from inter_careful_step [OF assms(1) inter_next.IH inter_next.hyps(2)] show ?case by simp
qed

end
