(* ===== verification/InterleavingProperties.thy ===== *)
theory InterleavingProperties
  imports Interleaving ManagerProperties
begin

text \<open>
  What holds when other threads run between any two steps of the worker, and what the small
  steps have to do with the rounds of theory \<open>Manager\<close>.
\<close>

section \<open>Small steps and rounds\<close>

text \<open>
  C13: the small steps are the loop: from the head of the loop, some number of uninterrupted
  steps of the worker ends exactly as one round does, in the same fault, or back at the head of
  the loop in the same state.
\<close>

theorem round_is_small_steps:
  "\<exists>n > 0. worker_run n os U (GatherClients, m) =
    (case update_round os U m of Inl e \<Rightarrow> Inl e | Inr m1 \<Rightarrow> Inr (GatherClients, m1))"
  using round_leads [of os U m] unfolding leads_def
  by (cases "update_round os U m") auto

section \<open>Runs of the sample platform\<close>

lemma worker_run_reachable:
  "inter_reachable may os U s \<Longrightarrow> worker_run n os U s = Inr s1 \<Longrightarrow> inter_reachable may os U s1"
proof (induction n arbitrary: s)
  case (Suc n)
  from Suc.prems(2) obtain s2 where s2: "worker_step os U s = Inr s2" "worker_run n os U s2 = Inr s1"
    by (auto simp: bind_res_Inr_iff)
  have "inter_step may os U s (Inr s2)" unfolding s2(1) [symmetric] by (rule inter_worker)
  from Suc.IH [OF inter_next [OF Suc.prems(1) this] s2(2)] show ?case .
qed simp

lemma thread_reachable:
  assumes "inter_reachable may os U (pc, m)" and "may pc m op" and "run_thread os op m = Inr m1"
  shows "inter_reachable may os U (pc, m1)"
proof -
  have "inter_step may os U (pc, m) (bind_res (run_thread os op m) (\<lambda>m1. Inr (pc, m1)))"
    by (rule inter_thread) (rule assms(2))
  with inter_next [OF assms(1)] assms(3) show ?thesis by simp
qed

lemma sample_inter:
  assumes "\<And>ops. may GatherClients (start_machine (sample_start [])) (Act (New ops))"
  shows "inter_reachable may (sample_os True) U (GatherClients, sample_machine hs)"
proof -
  let ?op = "Act (New (map (\<lambda>(t, h). SetHandler t (Some h) 0) hs @ [ConnectIp 7 80]))"
  show ?thesis
  proof (cases "run_thread (sample_os True) ?op (start_machine (sample_start []))")
    case (Inl e)
    then show ?thesis by (simp add: sample_machine_def inter_start)
  next
    case (Inr m)
    have "inter_reachable may (sample_os True) U (GatherClients, m)"
      by (rule thread_reachable [where may = may, OF inter_start assms Inr])
    with Inr show ?thesis by (simp add: sample_machine_def)
  qed
qed

text \<open>The worker on its way to the first visit of the phase that writes.\<close>

lemma sample_visiting:
  "\<exists>rs ws m. worker_run 4 (sample_os True) quiet (GatherClients, sample_machine []) =
      Inr (Visiting Writing rs ws [4096], m) \<and> heap m 4096 \<noteq> None"
proof -
  let ?r = "worker_run 4 (sample_os True) quiet (GatherClients, sample_machine [])"
  have "case ?r of Inl e \<Rightarrow> False | Inr (pc, m) \<Rightarrow>
      (case pc of Visiting ph rs ws ps \<Rightarrow> ph = Writing \<and> ps = [4096] | _ \<Rightarrow> False) \<and>
      (case heap m 4096 of None \<Rightarrow> False | Some c \<Rightarrow> True)" by code_simp
  then show ?thesis by (auto split: sum.splits worker_pc.splits option.splits)
qed

section \<open>Whatever the other threads do\<close>





section \<open>Careful threads\<close>

text \<open>
  Lifetimes across threads: if callbacks follow the rules of \<open>polite_app\<close>, and other threads
  use live objects only and never delete a connection the worker has collected and still has to
  visit, then under every interleaving everything the worker has still to visit is alive, and
  no step of any thread uses a deleted object or deadlocks: the only faults left are a string
  without a terminator and the exhaustion of memory.
\<close>

lemma careful_threads_safe:
  assumes "platform_ok os" and "polite_app U" and "inter_reachable careful os U (pc, m)"
  shows "(\<forall>p \<in> pending_clients pc. heap m p \<noteq> None) \<and>
    (\<forall>p \<in> pending_servers pc. server_heap m p \<noteq> None) \<and>
    (\<forall>e. inter_step careful os U (pc, m) (Inl e) \<longrightarrow> e = Hang \<or> e = BadAlloc)"
proof -
  have ok: "platform_ok os \<and> polite_app U" using assms(1,2) by simp
  have inv: "inter_inv os polite_faults (pc, m)" by (rule inter_careful [OF ok assms(3)])
  moreover have "e = Hang \<or> e = BadAlloc" if "inter_step careful os U (pc, m) (Inl e)" for e
    using inter_careful_step [OF ok inv that] by simp
  ultimately show ?thesis by (simp add: inter_inv_def safe_def alive_def)
qed

lemma quiet_polite: "polite_app quiet"
  by (simp add: polite_app_def quiet_def)

lemma careful_threads_safe_example:
  "\<exists>rs ws m. worker_run 4 (sample_os True) quiet (GatherClients, sample_machine []) =
      Inr (Visiting Writing rs ws [4096], m) \<and> heap m 4096 \<noteq> None \<and>
    worker_step (sample_os True) quiet (Visiting Writing rs ws [4096], m) \<noteq> Inl UseAfterFree"
proof -
  from sample_visiting obtain rs ws m where
    r: "worker_run 4 (sample_os True) quiet (GatherClients, sample_machine []) =
      Inr (Visiting Writing rs ws [4096], m)" by blast
  have "inter_reachable careful (sample_os True) quiet (Visiting Writing rs ws [4096], m)"
    by (rule worker_run_reachable [OF sample_inter r]) simp
  note safe = careful_threads_safe [OF sample_platform_ok quiet_polite this]
  have "worker_step (sample_os True) quiet (Visiting Writing rs ws [4096], m) \<noteq> Inl UseAfterFree"
  proof
    assume f: "worker_step (sample_os True) quiet (Visiting Writing rs ws [4096], m) = Inl UseAfterFree"
    have "inter_step careful (sample_os True) quiet (Visiting Writing rs ws [4096], m) (Inl UseAfterFree)"
      unfolding f [symmetric] by (rule inter_worker)
    with safe show False by blast
  qed
  with r safe show ?thesis by auto
qed

text \<open>
  C34: the rule on other threads is needed: deleting a live client from another thread, in the
  ordinary way, while the worker has collected it but not visited it yet, makes the worker use
  it after it is freed. The manager's mutex, which the destructor takes, does not help: the
  worker does not hold it during its visits.
\<close>

theorem foreign_delete_is_use_after_free:
  "\<exists>pc m m1. inter_reachable anything (sample_os True) quiet (pc, m) \<and> heap m 4096 \<noteq> None \<and>
    run_thread (sample_os True) (Act (Delete 4096)) m = Inr m1 \<and>
    worker_step (sample_os True) quiet (pc, m1) = Inl UseAfterFree"
proof -
  from sample_visiting obtain rs ws m where
    r: "worker_run 4 (sample_os True) quiet (GatherClients, sample_machine []) =
      Inr (Visiting Writing rs ws [4096], m)" and live: "heap m 4096 \<noteq> None" by blast
  have reach: "inter_reachable anything (sample_os True) quiet (Visiting Writing rs ws [4096], m)"
    by (rule worker_run_reachable [OF sample_inter r]) (simp add: anything_def)
  from inter_any [OF sample_platform_ok this] have "machine_inv (sample_os True) {} m"
    by (simp add: inter_inv_def safe_def)
  from holds_total [OF delete_client_live [OF this live]] obtain m1 where
    d: "delete_client (sample_os True) 4096 m = Inr m1" and "heap m1 4096 = None" by auto
  then have "worker_step (sample_os True) quiet (Visiting Writing rs ws [4096], m1) = Inl UseAfterFree"
    by (simp add: visit_writeable_def sockIsWriteable_def get_client_def)
  moreover have "run_thread (sample_os True) (Act (Delete 4096)) m = Inr m1" using d by simp
  ultimately show ?thesis using reach live by blast
qed

text \<open>
  C35: a name resolution outlives the client it is for: a client that waits for one reports itself
  freeable, its destructor does not cancel the resolution, and when lwIP's thread delivers the
  result it uses the deleted client.
\<close>

theorem delete_while_resolving_is_use_after_free:
  "\<exists>m c m1. inter_reachable anything (sample_os True) quiet (GatherClients, m) \<and>
    heap m 4096 = Some c \<and> conn_state c = WAITING_FOR_DNS \<and> freeable c \<and>
    run_thread (sample_os True) (Act (Delete 4096)) m = Inr m1 \<and>
    run_thread (sample_os True) (DnsFound 4096 ip) m1 = Inl UseAfterFree"
proof -
  let ?op = "Act (New [ConnectHost ''host'' 80])"
  let ?r = "run_thread (sample_os True) ?op (start_machine (sample_start []))"
  have "case ?r of Inl e \<Rightarrow> False | Inr m \<Rightarrow> (case heap m 4096 of None \<Rightarrow> False
      | Some c \<Rightarrow> conn_state c = WAITING_FOR_DNS \<and> freeable c)" by code_simp
  then obtain m c where r: "?r = Inr m" and c: "heap m 4096 = Some c" "conn_state c = WAITING_FOR_DNS"
    "freeable c" by (auto split: sum.splits option.splits)
  have reach: "inter_reachable anything (sample_os True) quiet (GatherClients, m)"
    by (rule thread_reachable [OF inter_start _ r]) (simp add: anything_def)
  from inter_any [OF sample_platform_ok this] have "machine_inv (sample_os True) {} m"
    by (simp add: inter_inv_def safe_def)
  from holds_total [OF delete_client_live [OF this, of 4096]] c(1) obtain m1 where
    d: "run_thread (sample_os True) (Act (Delete 4096)) m = Inr m1" and "heap m1 4096 = None" by auto
  then have "run_thread (sample_os True) (DnsFound 4096 ip) m1 = Inl UseAfterFree"
    by (simp add: dns_found_def get_client_def)
  with reach c d show ?thesis by blast
qed

end
