(* ===== verification/Isolation.thy ===== *)
theory Isolation
  imports InterleavingProperties
begin

text \<open>
  Connections do not interfere: a visit of the worker to one client leaves every other
  connection alone, as long as the handlers of the application only call the API of the client
  they are called for.
\<close>

definition own_app :: "('w, 'ip) usercode \<Rightarrow> bool" where
  "own_app U \<longleftrightarrow> (\<forall>h arg p ev m. \<forall>a \<in> set (U h arg p ev m). \<exists>op. a = Api p op)"

text \<open>Nothing but the client at \<open>p\<close> and the world changed, and only \<open>p\<close>'s callbacks ran.\<close>

definition heard :: "ptr \<Rightarrow> ('w, 'ip) machine \<Rightarrow> ('w, 'ip) machine \<Rightarrow> bool" where
  "heard p m m1 \<longleftrightarrow> (\<exists>evs. trace m1 = trace m @ map (Pair p) evs)"

definition only_at :: "ptr \<Rightarrow> ('w, 'ip) machine \<Rightarrow> ('w, 'ip) machine \<Rightarrow> bool" where
  "only_at p m m1 \<longleftrightarrow>
     (\<forall>q. q \<noteq> p \<longrightarrow> heap m1 q = heap m q) \<and> (heap m1 p = None \<longleftrightarrow> heap m p = None) \<and>
     server_heap m1 = server_heap m \<and> clients m1 = clients m \<and> servers m1 = servers m \<and>
     managerMutex m1 = managerMutex m \<and> heard p m m1"

abbreviation stays :: "ptr \<Rightarrow> ('w, 'ip) machine \<Rightarrow> ('w, 'ip) machine res \<Rightarrow> bool" where
  "stays p m r \<equiv> holds UNIV (only_at p m) r"

abbreviation stays2 :: "ptr \<Rightarrow> ('w, 'ip) machine \<Rightarrow> ('a \<times> ('w, 'ip) machine) res \<Rightarrow> bool" where
  "stays2 p m r \<equiv> holds UNIV (\<lambda>(a, m1). only_at p m m1) r"

lemma heard_refl [simp]: "heard p m m"
  unfolding heard_def by (rule exI [of _ "[]"]) simp

lemma heard_trans: "heard p m m1 \<Longrightarrow> heard p m1 m2 \<Longrightarrow> heard p m m2"
  unfolding heard_def by (metis append.assoc map_append)

lemma only_at_refl [simp]: "only_at p m m"
  by (simp add: only_at_def)

lemma only_at_trans: "only_at p m m1 \<Longrightarrow> only_at p m1 m2 \<Longrightarrow> only_at p m m2"
  using heard_trans [of p m m1 m2] by (auto simp: only_at_def)

lemma only_at_world [simp]: "only_at p m (m\<lparr>world := w\<rparr>)"
  by (simp add: only_at_def heard_def)

lemma only_at_put [simp]: "heap m p \<noteq> None \<Longrightarrow> only_at p m (put_client p c w m)"
  by (simp add: only_at_def heard_def put_client_def)

lemma only_at_told: "only_at p m (m\<lparr>trace := trace m @ [(p, ev)]\<rparr>)"
  by (auto simp: only_at_def heard_def intro: exI [of _ "[ev]"])

lemma stays_from: "only_at p m m1 \<Longrightarrow> stays p m1 r \<Longrightarrow> stays p m r"
  by (erule holds_mono) (rule only_at_trans)

lemma stays2_from: "only_at p m m1 \<Longrightarrow> stays2 p m1 r \<Longrightarrow> stays2 p m r"
  by (erule holds_mono) (auto intro: only_at_trans)

lemma holds_any: "(\<And>x. holds UNIV P (f x)) \<Longrightarrow> holds UNIV P (bind_res r f)"
  by (cases r) simp_all

lemma stays_get:
  assumes "\<And>c. heap m p = Some c \<Longrightarrow> holds UNIV P (f c)"
  shows "holds UNIV P (bind_res (get_client p m) f)"
  using assms by (cases "heap m p") (simp_all add: get_client_def)

lemma stays_bind: "stays p m r \<Longrightarrow> (\<And>m1. stays p m1 (f m1)) \<Longrightarrow> stays p m (bind_res r f)"
  unfolding holds_bind by (erule holds_mono) (rule stays_from)

lemma stays2_bind:
  "stays2 p m r \<Longrightarrow> (\<And>a m1. stays p m1 (f a m1)) \<Longrightarrow> stays p m (bind_res r (\<lambda>(a, m1). f a m1))"
  unfolding holds_bind by (erule holds_mono) (auto intro: stays_from)

lemma stays_bind2: "stays p m r \<Longrightarrow> (\<And>m1. stays2 p m1 (f m1)) \<Longrightarrow> stays2 p m (bind_res r f)"
  unfolding holds_bind by (erule holds_mono) (rule stays2_from)

lemma stays_flag: "stays p m r \<Longrightarrow> stays2 p m (bind_res r (\<lambda>m1. Inr (b, m1)))"
  by (rule stays_bind2) simp_all

text \<open>An operation that stays at \<open>p\<close>, called after the client or the world has been updated.\<close>

lemma stays_world: "(\<And>m. stays p m (g m)) \<Longrightarrow> stays p m (g (m\<lparr>world := w\<rparr>))"
  by (rule stays_from [OF only_at_world])

lemma stays_put:
  "(\<And>m. stays p m (g m)) \<Longrightarrow> heap m p \<noteq> None \<Longrightarrow> stays p m (g (put_client p c w m))"
  by (rule stays_from [OF only_at_put])

section \<open>Calls and callbacks\<close>

lemma call_api_stays: "stays p m (call_api os p op m)"
  unfolding call_api_def by (intro stays_get holds_any) (simp add: case_prod_unfold)

lemma own_actions_stay:
  "\<forall>a \<in> set as. \<exists>op. a = Api p op \<Longrightarrow> stays p m (run_actions os as m)"
proof (induction as arbitrary: m)
  case (Cons a as)
  then obtain op where a: "a = Api p op" by auto
  have "stays p m (bind_res (call_api os p op m) (run_actions os as))"
    by (rule stays_bind [OF call_api_stays]) (use Cons in simp)
  then show ?case by (simp only: a run_actions.simps run_action.simps)
qed simp

lemma invoke_stays:
  assumes "own_app U"
  shows "stays p m (invoke os U p ev m)"
  unfolding invoke_def
proof (rule stays_get)
  fix c
  have "stays p m (run_actions os (U h arg p ev m1) m1)" if "m1 = m\<lparr>trace := trace m @ [(p, ev)]\<rparr>"
    for h arg m1
    unfolding that
    by (rule stays_from [OF only_at_told own_actions_stay]) (use assms in \<open>auto simp: own_app_def\<close>)
  from this [OF refl] show "stays p m (case client_handler c ev of None \<Rightarrow> Inr m
      | Some (h, arg) \<Rightarrow> let m1 = m\<lparr>trace := trace m @ [(p, ev)]\<rparr>
          in run_actions os (U h arg p ev m1) m1)"
    by (simp add: Let_def split: option.split)
qed

section \<open>The handlers\<close>

lemma close_at_stays: "stays p m (close_at os p m)"
  unfolding close_at_def by (intro stays_get holds_any) (simp add: case_prod_unfold)

lemma error_at_stays: "own_app U \<Longrightarrow> stays p m (error_at os U p code m)"
  unfolding error_at_def by (intro stays_bind invoke_stays close_at_stays)

lemma notify_sent_stays: "own_app U \<Longrightarrow> stays p m (notify_sent os U p ss m)"
proof (induction ss arbitrary: m)
  case (Cons s ss)
  show ?case
    unfolding notify_sent.simps
    by (rule stays_bind [OF invoke_stays [OF Cons.prems] Cons.IH [OF Cons.prems]])
qed simp

lemma stays_updated:
  assumes "heap m p \<noteq> None"
  shows "own_app U \<Longrightarrow> stays p m (invoke os U p ev (put_client p c w m))"
    and "own_app U \<Longrightarrow> stays p m (error_at os U p code (put_client p c w m))"
    and "own_app U \<Longrightarrow> stays p m (notify_sent os U p q (put_client p c w m))"
    and "stays p m (close_at os p (put_client p c w m))"
    and "own_app U \<Longrightarrow> stays p m (error_at os U p code (m\<lparr>world := w\<rparr>))"
    and "stays p m (close_at os p (m\<lparr>world := w\<rparr>))"
  using assms
  by (simp_all add: stays_put [where g = "invoke os U p ev"] invoke_stays
      stays_put [where g = "error_at os U p code"] error_at_stays
      stays_put [where g = "notify_sent os U p q"] notify_sent_stays
      stays_put [where g = "close_at os p"] close_at_stays
      stays_world [where g = "error_at os U p code"] stays_world [where g = "close_at os p"])

lemma cleanup_stays:
  assumes "own_app U"
  shows "stays p m (cleanupWriteQueue os U p m)"
  unfolding cleanupWriteQueue_def
proof (rule stays_get)
  fix c assume c: "heap m p = Some c"
  obtain e q rx rest where s: "cleanup_scan (writeQueue c) (rx_last_packet c) = (e, q, rx, rest)"
    by (metis surj_pair)
  have "stays p m (error_at os U p code (put_client p c1 w m))"
    and "stays p m (notify_sent os U p q (put_client p c1 w m))" for code c1 w
    using c by (simp_all add: stays_updated assms)
  then show "stays p m (let (err, notifyQueue, rx, rest) = cleanup_scan (writeQueue c) (rx_last_packet c)
       in case err of
            Some code \<Rightarrow>
              error_at os U p code
                (put_client p (unlock_write (c\<lparr>rx_last_packet := rx\<rparr>)) (world m) m)
          | None \<Rightarrow>
              notify_sent os U p notifyQueue
                (put_client p
                  (unlock_write (c\<lparr>rx_last_packet := rx, writeQueue := rest\<rparr>)) (world m) m))"
    by (simp add: s split: option.split)
qed

lemma section_stays: "own_app U \<Longrightarrow> stays2 p m (writeable_section os U p act m)"
  unfolding writeable_section_def
proof (intro stays_get holds_any, goal_cases)
  case (1 c c1)
  have "stays2 p m (bind_res (cleanupWriteQueue os U p (put_client p c2 w2 m)) (\<lambda>m1. Inr (a, m1)))"
    for c2 w2 and a :: bool
    by (rule stays_flag [OF stays_put [where g = "cleanupWriteQueue os U p", OF cleanup_stays [OF 1(1)]]])
      (use 1(2) in simp)
  with 1(2) show ?case
    by (cases "process_locked os c1 (world m)") (auto simp del: holds_bind)
qed

lemma writeable_stays:
  assumes "own_app U"
  shows "stays2 p m (sockIsWriteable os U p m)"
  unfolding sockIsWriteable_def
proof (rule stays_get, goal_cases)
  case (1 c)
  obtain result errno err w1 where
    g: "getsockopt_error os (socket c) (world m) = ((result, errno, err), w1)" by (metis surj_pair)
  obtain now w2 where n: "steady_now os w1 = (now, w2)" by fastforce
  have "stays2 p m (bind_res (error_at os U p code (m\<lparr>world := w1\<rparr>)) (\<lambda>m2. Inr (False, m2)))" for code
    by (rule stays_flag [OF stays_updated(5)]) (simp_all add: 1 assms)
  moreover have "stays2 p m (bind_res (invoke os U p EvConnect (put_client p c1 w2 m))
      (writeable_section os U p True))" for c1
    by (rule stays_bind2 [OF stays_updated(1) section_stays]) (simp_all add: 1 assms)
  ultimately show ?case
    using section_stays [OF assms] by (simp add: g n Let_def del: holds_bind)
qed

lemma readable_stays:
  assumes "own_app U"
  shows "stays p m (sockIsReadable os U p m)"
  unfolding sockIsReadable_def
proof (rule stays_get, goal_cases)
  case (1 c)
  obtain result errno buf w1 where
    r: "lwip_read os (socket c) (TCP_MSS os) (world m) = ((result, errno, buf), w1)" by (metis surj_pair)
  obtain now w2 where n: "steady_now os w1 = (now, w2)" by fastforce
  have "stays p m (invoke os U p ev (put_client p c1 w2 m))" for ev c1
    by (rule stays_updated(1)) (simp_all add: 1 assms)
  moreover have "stays p m (close_at os p (m\<lparr>world := w1\<rparr>))"
    and "stays p m (error_at os U p errno (m\<lparr>world := w1\<rparr>))"
    by (simp_all add: stays_updated 1 assms)
  ultimately show ?case by (simp add: r n Let_def)
qed

lemma delayed_connect_stays: "own_app U \<Longrightarrow> stays p m (sockDelayedConnect os U p m)"
  unfolding sockDelayedConnect_def
  by (rule stays_get) (auto simp: Let_def error_at_stays split: prod.splits)

lemma ack_timeout_stays:
  assumes "own_app U"
  shows "stays2 p m (checkAckTimeout os U p m)"
  unfolding checkAckTimeout_def
proof (rule stays_get, goal_cases)
  case (1 c)
  obtain now w1 where n: "steady_now os (world m) = (now, w1)" by fastforce
  have "stays2 p m (bind_res (invoke os U p ev (put_client p c2 w1 m)) (\<lambda>m1. Inr (True, m1)))"
    for ev c2
    by (rule stays_flag [OF stays_updated(1)]) (simp_all add: 1 assms)
  with 1 show ?case
    by (auto simp: n Let_def simp del: holds_bind intro!: holds_any split: option.split list.split)
qed

lemma poll_idle_stays:
  assumes "own_app U"
  shows "stays p m (poll_idle os U p m)"
  unfolding poll_idle_def
proof (rule stays_get, goal_cases)
  case (1 c)
  have "stays p m (close_at os p (put_client p c1 w1 m))"
    and "stays p m (invoke os U p EvPoll (put_client p c1 w1 m))" for c1 w1
    by (simp_all add: stays_updated 1 assms)
  then show ?case by (simp add: Let_def split: prod.split)
qed

lemma poll_timeouts_stays:
  assumes "own_app U"
  shows "stays p m (poll_timeouts os U p m)"
  unfolding poll_timeouts_def
proof (rule stays_get, goal_cases)
  case (1 c)
  have "stays p m1 (if b then Inr m1 else poll_idle os U p m1)" for b m1
    by (simp add: poll_idle_stays assms)
  with stays2_bind [OF ack_timeout_stays [OF assms]] show ?case by (simp del: holds_bind)
qed

lemma poll_stays:
  assumes "own_app U"
  shows "stays p m (sockPoll os U p m)"
  unfolding sockPoll_def
proof (rule stays_get, goal_cases)
  case (1 c)
  have "stays p m (bind_res (cleanupWriteQueue os U p (put_client p c1 (world m) m)) (poll_timeouts os U p))"
    for c1
    by (rule stays_bind [OF stays_put [where g = "cleanupWriteQueue os U p", OF cleanup_stays [OF assms]]
          poll_timeouts_stays [OF assms]]) (use 1 in simp)
  then show ?case by (cases "lock_write c") (auto simp del: holds_bind)
qed

lemma done_stays:
  assumes "own_app U"
  shows "stays p m (processingDone os U p m)"
  unfolding processingDone_def
proof (rule stays_get, goal_cases)
  case (1 c)
  have "stays p m (invoke os U p EvDisconnect (put_client p c1 w m))" for c1 w
    by (rule stays_updated(1)) (simp_all add: 1 assms)
  then show ?case by simp
qed

lemma touch_stays: "stays p m (touch_client os p m)" "stays p m (clear_dns p m)"
proof -
  obtain now w1 where n: "steady_now os (world m) = (now, w1)" by fastforce
  show "stays p m (touch_client os p m)"
    unfolding touch_client_def n Let_def prod.case by (rule stays_get) simp
  show "stays p m (clear_dns p m)"
    unfolding clear_dns_def by (rule stays_get) simp
qed

lemma visit_stays:
  assumes "own_app U" and "ph \<noteq> Accepting"
  shows "stays p m (visit os U ph p m)"
proof -
  have "stays p m1 (if a then touch_client os p m1 else Inr m1)" for a m1
    by (simp add: touch_stays)
  then have "stays p m (bind_res (sockIsWriteable os U p m)
      (\<lambda>(a, m1). if a then touch_client os p m1 else Inr m1))"
    by (rule stays2_bind [OF writeable_stays [OF assms(1)]])
  moreover have "stays p m (bind_res (touch_client os p m) (sockIsReadable os U p))"
    by (rule stays_bind [OF touch_stays(1) readable_stays [OF assms(1)]])
  moreover have "stays p m (bind_res (clear_dns p m) (sockDelayedConnect os U p))"
    by (rule stays_bind [OF touch_stays(2) delayed_connect_stays [OF assms(1)]])
  ultimately show ?thesis
    using assms poll_stays [OF assms(1)] done_stays [OF assms(1)]
    by (cases ph) (simp_all add: visit_writeable_def visit_then_def del: holds_bind)
qed

section \<open>Whole phases\<close>

lemma visits_stay:
  assumes "own_app U" and "ph \<noteq> Accepting"
  shows "q \<notin> set ps \<Longrightarrow> for_each (visit os U ph) ps m = Inr m1 \<Longrightarrow>
    heap m1 q = heap m q \<and> server_heap m1 = server_heap m \<and> clients m1 = clients m \<and>
    servers m1 = servers m \<and>
    filter (\<lambda>e. fst e = q) (trace m1) = filter (\<lambda>e. fst e = q) (trace m)"
proof (induction ps arbitrary: m)
  case (Cons p ps)
  then obtain m2 where v: "visit os U ph p m = Inr m2" and f: "for_each (visit os U ph) ps m2 = Inr m1"
    by (auto simp: bind_res_Inr_iff)
  have "only_at p m m2" using visit_stays [OF assms, of p m os] v by simp
  then have "heap m2 q = heap m q" "server_heap m2 = server_heap m" "clients m2 = clients m"
    "servers m2 = servers m" "filter (\<lambda>e. fst e = q) (trace m2) = filter (\<lambda>e. fst e = q) (trace m)"
    using Cons.prems(1) by (auto simp: only_at_def heard_def filter_empty_conv)
  with Cons.IH [OF _ f] Cons.prems(1) show ?case by simp
qed simp

text \<open>
  C14: connections are isolated from each other: for an application whose handlers call the API
  of the client they are called for only, a phase of the worker leaves every client it does not
  visit exactly as it was, all servers and both registries too, and runs none of its callbacks;
  what happens to one connection cannot be seen from another.
\<close>

theorem phases_are_isolated:
  assumes "own_app U" and "ph \<noteq> Accepting"
    and "for_each (visit os U ph) ps m = Inr m1" and "q \<notin> set ps"
  shows "heap m1 q = heap m q \<and> server_heap m1 = server_heap m \<and> clients m1 = clients m \<and>
    servers m1 = servers m \<and>
    filter (\<lambda>e. fst e = q) (trace m1) = filter (\<lambda>e. fst e = q) (trace m)"
  by (rule visits_stay [OF assms(1,2,4,3)])

text \<open>An application that closes the client it is called for.\<close>

definition close_own :: "('w, 'ip) usercode" where
  "close_own h arg p ev m = [Api p Close]"

theorem phases_are_isolated_witness:
  "\<exists>m1. for_each (visit (sample_os True) close_own Polling) [4096]
      ((one_client (listening CONNECTED 50) [])\<lparr>heap := [4096 \<mapsto> listening CONNECTED 50,
        8192 \<mapsto> listening CONNECTED 51], clients := [4096, 8192]\<rparr>) = Inr m1 \<and>
    trace m1 = [(4096, EvPoll)] \<and> heap m1 8192 = Some (listening CONNECTED 51)"
proof -
  let ?m = "(one_client (listening CONNECTED 50) [])\<lparr>heap := [4096 \<mapsto> listening CONNECTED 50,
        8192 \<mapsto> listening CONNECTED 51], clients := [4096, 8192]\<rparr>"
  let ?r = "for_each (visit (sample_os True) close_own Polling) [4096] ?m"
  have "case ?r of Inl e \<Rightarrow> False | Inr m1 \<Rightarrow> trace m1 = [(4096, EvPoll)]" by code_simp
  then obtain m1 where r: "?r = Inr m1" and t: "trace m1 = [(4096, EvPoll)]"
    by (auto split: sum.splits)
  have "own_app close_own" by (simp add: own_app_def close_own_def)
  from phases_are_isolated [OF this _ r, of 8192] have "heap m1 8192 = heap ?m 8192" by simp
  with r t show ?thesis by simp
qed

end
