(* ===== verification/Startup.thy ===== *)
theory Startup
  imports InterleavingProperties
begin

text \<open>
  The program from its boot on: \<open>src/src/SocketConnection.tpp\<close>, the function-local static of
  \<open>SocketConnectionManager::instance\<close>, the manager's constructor, which creates the worker task
  and throws where that fails, and its destructor; and \<open>src/src/AsyncTCP.cpp\<close>, \<open>manage\<close> and
  \<open>unmanage\<close>, through which the constructors and destructors of connections reach the manager.
  The first connection ever constructed brings the manager and the worker into being; before
  that there is no worker, and the worker waits in its own call of \<open>instance\<close> until the
  constructor is done.
\<close>

section \<open>The platform's tasks\<close>

text \<open>
  \<open>reserve n\<close> says whether a vector found memory for \<open>n\<close> elements; \<open>xTaskCreateUniversal\<close>
  takes name, stack size, argument, priority, the handle variable's value and the core, and
  gives the result and the handle variable's new value.
\<close>

record 'w task_os =
  pdPASS :: int
  reserve :: "nat \<Rightarrow> 'w \<Rightarrow> bool \<times> 'w"
  xTaskCreateUniversal ::
    "string \<Rightarrow> u32 \<Rightarrow> ptr \<Rightarrow> u32 \<Rightarrow> ptr \<Rightarrow> int \<Rightarrow> 'w \<Rightarrow> (int \<times> ptr) \<times> 'w"
  vTaskDelete :: "ptr \<Rightarrow> 'w \<Rightarrow> 'w"

definition TASK_NAME :: string where "TASK_NAME = ''Async TCP Sock Worker''"
definition TASK_STACK_SIZE :: u32 where "TASK_STACK_SIZE = 16384"
definition TASK_PRIORITY :: u32 where "TASK_PRIORITY = 18"
definition TASK_CORE_AFFINITY :: int where "TASK_CORE_AFFINITY = -1"

section \<open>State\<close>

text \<open>
  \<open>manager\<close> is the static object: absent until its constructor has returned, then its member
  \<open>workerThread\<close>. Its lists and its mutex are those of \<open>state\<close>, which start empty and free.
  \<open>tasks\<close> counts the worker tasks the platform has created.
\<close>

record ('w, 'ip) program =
  manager :: "ptr option"
  tasks :: nat
  worker :: worker_pc
  state :: "('w, 'ip) machine"

definition boot :: "'w \<Rightarrow> ('w, 'ip) program" where
  "boot w = \<lparr>manager = None, tasks = 0, worker = GatherClients, state = start_machine w\<rparr>"

text \<open>
  An operation returns, throws \<open>std::runtime_error\<close> with its text, ends in a fault of the
  model of a machine, or ends the program in \<open>std::terminate\<close>.
\<close>

datatype ('s, 'a) outcome = Returned 'a 's | Thrown string 's | Failed fault | Terminated

fun bind_out ::
  "('s, 'a) outcome \<Rightarrow> ('a \<Rightarrow> 's \<Rightarrow> ('s, 'b) outcome) \<Rightarrow> ('s, 'b) outcome"
where
  "bind_out (Returned x s) f = f x s"
| "bind_out (Thrown what s) f = Thrown what s"
| "bind_out (Failed e) f = Failed e"
| "bind_out Terminated f = Terminated"

text \<open>A \<open>noexcept\<close> function that lets an exception out.\<close>

fun noexcept :: "('s, 'a) outcome \<Rightarrow> ('s, 'a) outcome" where
  "noexcept (Thrown what s) = Terminated"
| "noexcept r = r"

text \<open>A constructor whose body throws: the bases constructed so far are destroyed.\<close>

fun on_throw :: "('s, 'a) outcome \<Rightarrow> ('s \<Rightarrow> 's res) \<Rightarrow> ('s, 'a) outcome" where
  "on_throw (Thrown what s) f = (case f s of Inl e \<Rightarrow> Failed e | Inr s1 \<Rightarrow> Thrown what s1)"
| "on_throw r f = r"

definition on_machine ::
  "(('w, 'ip) machine \<Rightarrow> ('w, 'ip) machine res) \<Rightarrow> ('w, 'ip) program \<Rightarrow>
     (('w, 'ip) program, unit) outcome"
where
  "on_machine f P =
     (case f (state P) of Inl e \<Rightarrow> Failed e | Inr m \<Rightarrow> Returned () (P\<lparr>state := m\<rparr>))"

section \<open>The manager\<close>

text \<open>
  The constructor. (It names \<open>CONFIG_LWIP_MAX_SOCKETS\<close> without the test of \<open>hasFreeSocket\<close>, so
  where that macro is missing it does not compile.)
\<close>

definition SocketConnectionManager_new ::
  "'w task_os \<Rightarrow> nat \<Rightarrow> ('w, 'ip) program \<Rightarrow> (('w, 'ip) program, ptr) outcome"
where
  "SocketConnectionManager_new tos max_sockets P =
     (let (ok1, w1) = reserve tos max_sockets (world (state P))
      in if \<not> ok1 then Failed BadAlloc
      else
        let (ok2, w2) = reserve tos 2 w1
        in if \<not> ok2 then Failed BadAlloc
        else
          let ((result, workerThread), w3) =
                xTaskCreateUniversal tos TASK_NAME TASK_STACK_SIZE 0 TASK_PRIORITY 0
                  TASK_CORE_AFFINITY w2;
              P1 = P\<lparr>state := (state P)\<lparr>world := w3\<rparr>,
                     tasks := if result = pdPASS tos then tasks P + 1 else tasks P\<rparr>
          in if result \<noteq> pdPASS tos then Thrown ''Failed to create AsyncTCPSock task'' P1
             else Returned workerThread P1)"

definition SocketConnectionManager_delete ::
  "'w task_os \<Rightarrow> ptr \<Rightarrow> ('w, 'ip) program \<Rightarrow> ('w, 'ip) program"
where
  "SocketConnectionManager_delete tos workerThread P =
     (if workerThread \<noteq> 0 then
        P\<lparr>state := (state P)\<lparr>world := vTaskDelete tos workerThread (world (state P))\<rparr>,
          tasks := tasks P - 1\<rparr>
      else P)"

text \<open>
  \<open>instance()\<close>: the static is constructed by the first call. An exception leaves it not
  constructed, and the next call tries again.
\<close>

definition manager_instance ::
  "'w task_os \<Rightarrow> ('w, 'ip) os \<Rightarrow> ('w, 'ip) program \<Rightarrow> (('w, 'ip) program, unit) outcome"
where
  "manager_instance tos os P =
     (case manager P of
        Some h \<Rightarrow> Returned () P
      | None \<Rightarrow>
          bind_out
            (SocketConnectionManager_new tos
               (case CONFIG_LWIP_MAX_SOCKETS os of None \<Rightarrow> 0 | Some n \<Rightarrow> n) P)
            (\<lambda>h P1. Returned () (P1\<lparr>manager := Some h\<rparr>)))"

definition manage_client ::
  "'w task_os \<Rightarrow> ('w, 'ip) os \<Rightarrow> ptr \<Rightarrow> ('w, 'ip) program \<Rightarrow> (('w, 'ip) program, unit) outcome"
where
  "manage_client tos os p P =
     bind_out (manager_instance tos os P) (\<lambda>_. on_machine (addConnection p))"

definition manage_server ::
  "'w task_os \<Rightarrow> ('w, 'ip) os \<Rightarrow> ptr \<Rightarrow> ('w, 'ip) program \<Rightarrow> (('w, 'ip) program, unit) outcome"
where
  "manage_server tos os p P =
     bind_out (manager_instance tos os P) (\<lambda>_. on_machine (addServer p))"

definition unmanage_client ::
  "'w task_os \<Rightarrow> ('w, 'ip) os \<Rightarrow> ptr \<Rightarrow> ('w, 'ip) program \<Rightarrow> (('w, 'ip) program, unit) outcome"
where
  "unmanage_client tos os p P =
     bind_out (manager_instance tos os P) (\<lambda>_. on_machine (removeConnection p))"

definition unmanage_server ::
  "'w task_os \<Rightarrow> ('w, 'ip) os \<Rightarrow> ptr \<Rightarrow> ('w, 'ip) program \<Rightarrow> (('w, 'ip) program, unit) outcome"
where
  "unmanage_server tos os p P =
     bind_out (manager_instance tos os P) (\<lambda>_. on_machine (removeServer p))"

section \<open>Construction and deletion of connections\<close>

text \<open>
  \<open>new Client()\<close> and \<open>new Client(socket)\<close>. Where \<open>manage\<close> throws, \<open>~ClientBase\<close> closes the
  descriptor and the memory is given back.
\<close>

definition discard_client :: "('w, 'ip) os \<Rightarrow> ptr \<Rightarrow> ('w, 'ip) program \<Rightarrow> ('w, 'ip) program res" where
  "discard_client os p P =
     bind_res (get_client p (state P)) (\<lambda>c.
     bind_res (close_client os c (world (state P))) (\<lambda>(c1, w1).
       Inr (P\<lparr>state := (state P)\<lparr>heap := (heap (state P))(p := None), world := w1\<rparr>\<rparr>)))"

definition program_new_client ::
  "'w task_os \<Rightarrow> ('w, 'ip) os \<Rightarrow> int option \<Rightarrow> ('w, 'ip) program \<Rightarrow>
     (('w, 'ip) program, ptr) outcome"
where
  "program_new_client tos os fd P =
     (case allocate os (state P) of
        Inl e \<Rightarrow> Failed e
      | Inr (p, w1) \<Rightarrow>
          let (c, w2) = construct_client os fd w1;
              P1 = P\<lparr>state := put_client p c w2 (state P)\<rparr>
          in bind_out (on_throw (manage_client tos os p P1) (discard_client os p))
               (\<lambda>_ P2. Returned p P2))"

text \<open>A server's base has nothing to close.\<close>

definition discard_server :: "ptr \<Rightarrow> ('w, 'ip) program \<Rightarrow> ('w, 'ip) program res" where
  "discard_server p P =
     Inr (P\<lparr>state := (state P)\<lparr>server_heap := (server_heap (state P))(p := None)\<rparr>\<rparr>)"

definition program_new_server ::
  "'w task_os \<Rightarrow> ('w, 'ip) os \<Rightarrow> 'ip option \<Rightarrow> u16 \<Rightarrow> ('w, 'ip) program \<Rightarrow>
     (('w, 'ip) program, ptr) outcome"
where
  "program_new_server tos os addr port P =
     (case allocate os (state P) of
        Inl e \<Rightarrow> Failed e
      | Inr (p, w1) \<Rightarrow>
          let (s, w2) = Server_new os addr port w1;
              P1 = P\<lparr>state := put_server p s w2 (state P)\<rparr>
          in bind_out (on_throw (manage_server tos os p P1) (discard_server p))
               (\<lambda>_ P2. Returned p P2))"

text \<open>The destructors, which are \<open>noexcept\<close>.\<close>

definition program_delete_client ::
  "'w task_os \<Rightarrow> ('w, 'ip) os \<Rightarrow> ptr \<Rightarrow> ('w, 'ip) program \<Rightarrow> (('w, 'ip) program, unit) outcome"
where
  "program_delete_client tos os p P =
     (case get_client p (state P) of
        Inl e \<Rightarrow> Failed e
      | Inr c \<Rightarrow>
          bind_out (noexcept (unmanage_client tos os p P)) (\<lambda>_.
            on_machine (\<lambda>m. bind_res (close_client os c (world m)) (\<lambda>(c1, w1).
              Inr (m\<lparr>heap := (heap m)(p := None), world := w1\<rparr>)))))"

definition program_delete_server ::
  "'w task_os \<Rightarrow> ('w, 'ip) os \<Rightarrow> ptr \<Rightarrow> ('w, 'ip) program \<Rightarrow> (('w, 'ip) program, unit) outcome"
where
  "program_delete_server tos os p P =
     (case get_server p (state P) of
        Inl e \<Rightarrow> Failed e
      | Inr s \<Rightarrow>
          bind_out (noexcept (unmanage_server tos os p P)) (\<lambda>_.
            on_machine (\<lambda>m. let (s1, w1) = Server_end os s (world m)
              in Inr (m\<lparr>server_heap := (server_heap m)(p := None), world := w1\<rparr>))))"

section \<open>The program's steps\<close>

fun program_thread ::
  "'w task_os \<Rightarrow> ('w, 'ip) os \<Rightarrow> 'ip thread_op \<Rightarrow> ('w, 'ip) program \<Rightarrow>
     (('w, 'ip) program, unit) outcome"
where
  "program_thread tos os (Act (New ops)) P =
     bind_out (program_new_client tos os None P) (\<lambda>p. on_machine (call_apis os p ops))"
| "program_thread tos os (Act (Delete p)) P = program_delete_client tos os p P"
| "program_thread tos os (NewServer addr port) P =
     bind_out (program_new_server tos os addr port P) (\<lambda>p. Returned ())"
| "program_thread tos os (DeleteServer p) P = program_delete_server tos os p P"
| "program_thread tos os op P = on_machine (run_thread os op) P"

definition program_worker ::
  "('w, 'ip) os \<Rightarrow> ('w, 'ip) usercode \<Rightarrow> ('w, 'ip) program \<Rightarrow> (('w, 'ip) program, unit) outcome"
where
  "program_worker os U P =
     (case worker_step os U (worker P, state P) of
        Inl e \<Rightarrow> Failed e
      | Inr (pc1, m1) \<Rightarrow> Returned () (P\<lparr>worker := pc1, state := m1\<rparr>))"

inductive program_step ::
  "(worker_pc \<Rightarrow> ('w, 'ip) machine \<Rightarrow> 'ip thread_op \<Rightarrow> bool) \<Rightarrow> 'w task_os \<Rightarrow> ('w, 'ip) os \<Rightarrow>
     ('w, 'ip) usercode \<Rightarrow> ('w, 'ip) program \<Rightarrow> (('w, 'ip) program, unit) outcome \<Rightarrow> bool"
  for may :: "worker_pc \<Rightarrow> ('w, 'ip) machine \<Rightarrow> 'ip thread_op \<Rightarrow> bool"
    and tos :: "'w task_os" and os :: "('w, 'ip) os" and U :: "('w, 'ip) usercode"
where
  step_of_worker: "manager P \<noteq> None \<Longrightarrow> program_step may tos os U P (program_worker os U P)"
| step_of_thread: "may (worker P) (state P) op \<Longrightarrow>
    program_step may tos os U P (program_thread tos os op P)"

inductive_cases program_stepE: "program_step may tos os U P r"

text \<open>An exception of a constructor may be caught, and the program goes on.\<close>

inductive program_reachable ::
  "(worker_pc \<Rightarrow> ('w, 'ip) machine \<Rightarrow> 'ip thread_op \<Rightarrow> bool) \<Rightarrow> 'w task_os \<Rightarrow> ('w, 'ip) os \<Rightarrow>
     ('w, 'ip) usercode \<Rightarrow> ('w, 'ip) program \<Rightarrow> bool"
  for may :: "worker_pc \<Rightarrow> ('w, 'ip) machine \<Rightarrow> 'ip thread_op \<Rightarrow> bool"
    and tos :: "'w task_os" and os :: "('w, 'ip) os" and U :: "('w, 'ip) usercode"
where
  program_boot: "program_reachable may tos os U (boot w)"
| program_next: "program_reachable may tos os U P \<Longrightarrow> program_step may tos os U P (Returned x P1) \<Longrightarrow>
    program_reachable may tos os U P1"
| program_caught: "program_reachable may tos os U P \<Longrightarrow> program_step may tos os U P (Thrown what P1) \<Longrightarrow>
    program_reachable may tos os U P1"

end
