(* ===== verification/StartupProperties.thy ===== *)
theory StartupProperties
  imports Startup
begin

text \<open>
  What holds from the boot of the program on: the worker task is created once, with the first
  connection; a failure to create it is reported by that connection's constructor and leaves
  nothing behind; once it runs, the program is the system of theory \<open>Interleaving\<close>.
\<close>

section \<open>Once the manager exists\<close>

lemma instance_started: "manager P = Some h \<Longrightarrow> manager_instance tos os P = Returned () P"
  by (simp add: manager_instance_def)

lemma new_client_started:
  assumes "manager P = Some h"
  shows "program_new_client tos os fd P =
    (case new_client os fd (state P) of Inl e \<Rightarrow> Failed e
     | Inr (p, m) \<Rightarrow> Returned p (P\<lparr>state := m\<rparr>))"
  using assms
  by (auto simp: program_new_client_def new_client_def manage_client_def instance_started
      on_machine_def Let_def split: sum.splits prod.splits)

lemma new_server_started:
  assumes "manager P = Some h"
  shows "program_new_server tos os addr port P =
    (case new_server os addr port (state P) of Inl e \<Rightarrow> Failed e
     | Inr (p, m) \<Rightarrow> Returned p (P\<lparr>state := m\<rparr>))"
  using assms
  by (auto simp: program_new_server_def new_server_def manage_server_def instance_started
      on_machine_def Let_def split: sum.splits prod.splits)

lemma delete_client_started:
  "manager P = Some h \<Longrightarrow> program_delete_client tos os p P = on_machine (delete_client os p) P"
  by (auto simp: program_delete_client_def delete_client_def unmanage_client_def instance_started
      on_machine_def split: sum.splits prod.splits)

lemma delete_server_started:
  "manager P = Some h \<Longrightarrow> program_delete_server tos os p P = on_machine (delete_server os p) P"
  by (auto simp: program_delete_server_def delete_server_def unmanage_server_def instance_started
      on_machine_def Let_def split: sum.splits prod.splits)

lemma thread_started:
  assumes "manager P = Some h"
  shows "program_thread tos os op P = on_machine (run_thread os op) P"
proof -
  note started = new_client_started [OF assms] new_server_started [OF assms]
    delete_client_started [OF assms] delete_server_started [OF assms]
  have "program_thread tos os (Act a) P = on_machine (run_thread os (Act a)) P" for a
    by (cases a) (auto simp: started on_machine_def split: sum.splits)
  moreover have "program_thread tos os op P = on_machine (run_thread os op) P"
    if "\<And>a. op \<noteq> Act a"
    using that by (cases op) (auto simp: started on_machine_def split: sum.splits)
  ultimately show ?thesis by blast
qed

section \<open>The first connection\<close>

text \<open>The state with another world.\<close>

abbreviation in_world :: "('w, 'ip) program \<Rightarrow> 'w \<Rightarrow> ('w, 'ip) program" where
  "in_world P w \<equiv> P\<lparr>state := (state P)\<lparr>world := w\<rparr>\<rparr>"

lemma instance_no_memory:
  assumes "manager P = None"
    and "reserve tos (case CONFIG_LWIP_MAX_SOCKETS os of None \<Rightarrow> 0 | Some n \<Rightarrow> n) (world (state P)) = (ok1, w1)"
    and "reserve tos 2 w1 = (ok2, w2)" and "\<not> ok1 \<or> \<not> ok2"
  shows "manager_instance tos os P = Failed BadAlloc"
  using assms by (auto simp: manager_instance_def SocketConnectionManager_new_def)

lemma instance_creates:
  assumes "manager P = None"
    and "reserve tos (case CONFIG_LWIP_MAX_SOCKETS os of None \<Rightarrow> 0 | Some n \<Rightarrow> n) (world (state P)) = (True, w1)"
    and "reserve tos 2 w1 = (True, w2)"
    and "xTaskCreateUniversal tos TASK_NAME TASK_STACK_SIZE 0 TASK_PRIORITY 0 TASK_CORE_AFFINITY w2 =
      ((r, h), w3)"
  shows "manager_instance tos os P =
    (if r = pdPASS tos then Returned () ((in_world P w3)\<lparr>tasks := tasks P + 1, manager := Some h\<rparr>)
     else Thrown ''Failed to create AsyncTCPSock task'' (in_world P w3))"
  using assms by (simp add: manager_instance_def SocketConnectionManager_new_def)

lemma instance_first:
  assumes "manager P = None"
  obtains (no_memory) "manager_instance tos os P = Failed BadAlloc"
  | (thrown) w where
      "manager_instance tos os P = Thrown ''Failed to create AsyncTCPSock task'' (in_world P w)"
  | (created) w h where
      "manager_instance tos os P = Returned () ((in_world P w)\<lparr>tasks := tasks P + 1, manager := Some h\<rparr>)"
proof -
  obtain ok1 w1 where 1: "reserve tos (case CONFIG_LWIP_MAX_SOCKETS os of None \<Rightarrow> 0 | Some n \<Rightarrow> n)
      (world (state P)) = (ok1, w1)" by fastforce
  obtain ok2 w2 where 2: "reserve tos 2 w1 = (ok2, w2)" by fastforce
  obtain r h w3 where 3: "xTaskCreateUniversal tos TASK_NAME TASK_STACK_SIZE 0 TASK_PRIORITY 0
      TASK_CORE_AFFINITY w2 = ((r, h), w3)" by (metis surj_pair)
  show thesis
  proof (cases "ok1 \<and> ok2")
    case True
    with instance_creates [OF assms _ _ 3, of os w1] 1 2
    have "manager_instance tos os P =
      (if r = pdPASS tos then Returned () ((in_world P w3)\<lparr>tasks := tasks P + 1, manager := Some h\<rparr>)
       else Thrown ''Failed to create AsyncTCPSock task'' (in_world P w3))" by simp
    then show thesis using created [of h w3] thrown [of w3] by (cases "r = pdPASS tos") simp_all
  next
    case False
    with instance_no_memory [OF assms 1 2] no_memory show thesis by simp
  qed
qed

lemma close_unlocked:
  "\<not> writeMutex c \<Longrightarrow>
     \<exists>c1. close_client os c w = Inr (c1, if isOpen c then sys_close os (socket c) w else w)"
  by (simp add: close_client_def close_socket_eq)

lemma take_off_heap: "heap m p = None \<Longrightarrow> heap m = (heap m)(p := None)"
  by auto

lemma new_client_in_instance:
  assumes "allocate os (state P) = Inr (p, w1)" and "construct_client os fd w1 = (c, w2)"
    and "manager_instance tos os (P\<lparr>state := put_client p c w2 (state P)\<rparr>) = r"
  shows "program_new_client tos os fd P =
    bind_out (on_throw (bind_out r (\<lambda>_. on_machine (addConnection p))) (discard_client os p))
      (\<lambda>_ P2. Returned p P2)"
  using assms by (simp add: program_new_client_def manage_client_def)

lemma new_client_thrown:
  assumes "allocate os (state P) = Inr (p, w1)" and "construct_client os fd w1 = (c, w2)"
    and "heap (state P) p = None"
    and "manager_instance tos os (P\<lparr>state := put_client p c w2 (state P)\<rparr>) =
      Thrown what (in_world (P\<lparr>state := put_client p c w2 (state P)\<rparr>) w)"
  shows "program_new_client tos os fd P =
    Thrown what (in_world P (if isOpen c then sys_close os (socket c) w else w))"
proof -
  obtain c1 where c1: "close_client os c w = Inr (c1, if isOpen c then sys_close os (socket c) w else w)"
    using close_unlocked [OF client_inv_unlocked [OF construct_client_inv [OF assms(2)]], of os w]
    by (rule exE)
  show ?thesis
    unfolding new_client_in_instance [OF assms(1,2,4)]
    using take_off_heap [OF assms(3)] by (simp add: discard_client_def get_client_def put_client_def c1)
qed

lemma new_client_created:
  assumes "allocate os (state P) = Inr (p, w1)" and "construct_client os fd w1 = (c, w2)"
    and "machine_inv os {} (state P)" and "p \<noteq> 0"
    and "manager_instance tos os (P\<lparr>state := put_client p c w2 (state P)\<rparr>) =
      Returned () ((in_world (P\<lparr>state := put_client p c w2 (state P)\<rparr>) w)
        \<lparr>tasks := n, manager := Some h\<rparr>)"
  shows "program_new_client tos os fd P = Returned p
     (P\<lparr>manager := Some h, tasks := n,
        state := (put_client p c w (state P))\<lparr>clients := clients (state P) @ [p]\<rparr>\<rparr>)"
proof -
  have "\<not> managerMutex (state P)" using assms(3) by (simp add: machine_inv_def registry_inv_def)
  then show ?thesis
    unfolding new_client_in_instance [OF assms(1,2,5)]
    using assms(4) by (simp add: on_machine_def addConnection_eq put_client_def)
qed

lemma new_client_first:
  assumes "manager P = None" and "machine_inv os {} (state P)" and "p \<noteq> 0" and "heap (state P) p = None"
    and "allocate os (state P) = Inr (p, w1)" and "construct_client os fd w1 = (c, w2)"
  obtains (no_memory) "program_new_client tos os fd P = Failed BadAlloc"
  | (thrown) w where
      "program_new_client tos os fd P = Thrown ''Failed to create AsyncTCPSock task'' (in_world P w)"
  | (created) w h where
      "program_new_client tos os fd P = Returned p
         (P\<lparr>manager := Some h, tasks := tasks P + 1,
            state := (put_client p c w (state P))\<lparr>clients := clients (state P) @ [p]\<rparr>\<rparr>)"
proof -
  have none: "manager (P\<lparr>state := put_client p c w2 (state P)\<rparr>) = None" using assms(1) by simp
  show thesis
  proof (cases rule: instance_first [OF none, of tos os])
    case 1
    show thesis by (rule no_memory) (unfold new_client_in_instance [OF assms(5,6) 1], simp)
  next
    case (2 w)
    show thesis by (rule thrown) (rule new_client_thrown [OF assms(5,6,4) 2])
  next
    case (3 w h)
    show thesis
      by (rule created [where w = w and h = h])
        (use new_client_created [OF assms(5,6,2,3), where tos = tos and w = w and n = "tasks P + 1" and h = h] 3 in simp)
  qed
qed

lemma new_server_first:
  assumes "manager P = None" and "machine_inv os {} (state P)" and "p \<noteq> 0"
    and "server_heap (state P) p = None"
    and "allocate os (state P) = Inr (p, w1)" and "Server_new os addr port w1 = (s, w2)"
  obtains (no_memory) "program_new_server tos os addr port P = Failed BadAlloc"
  | (thrown) w where
      "program_new_server tos os addr port P =
         Thrown ''Failed to create AsyncTCPSock task'' (in_world P w)"
  | (created) w h where
      "program_new_server tos os addr port P = Returned p
         (P\<lparr>manager := Some h, tasks := tasks P + 1,
            state := (put_server p s w (state P))\<lparr>servers := servers (state P) @ [p]\<rparr>\<rparr>)"
proof -
  let ?P = "P\<lparr>state := put_server p s w2 (state P)\<rparr>"
  have un: "\<not> managerMutex (state P)" using assms(2) by (simp add: machine_inv_def registry_inv_def)
  have P: "manager ?P = None" using assms(1) by simp
  have off: "server_heap (state P) = (server_heap (state P))(p := None)" using assms(4) by auto
  have eq: "program_new_server tos os addr port P =
      bind_out (on_throw (bind_out (manager_instance tos os ?P) (\<lambda>_. on_machine (addServer p)))
        (discard_server p)) (\<lambda>_ P2. Returned p P2)"
    by (simp add: program_new_server_def assms(5,6) manage_server_def)
  show thesis
  proof (cases rule: instance_first [OF P, of tos os])
    case 1
    show thesis by (rule no_memory) (unfold eq 1(1), simp)
  next
    case (2 w)
    have "program_new_server tos os addr port P =
        Thrown ''Failed to create AsyncTCPSock task'' (in_world P w)"
      using off unfolding eq 2 by (simp add: discard_server_def put_server_def)
    then show thesis by (rule thrown)
  next
    case (3 w h)
    have "program_new_server tos os addr port P = Returned p
         (P\<lparr>manager := Some h, tasks := tasks P + 1,
            state := (put_server p s w (state P))\<lparr>servers := servers (state P) @ [p]\<rparr>\<rparr>)"
      using un assms(3) unfolding eq 3(1) by (simp add: on_machine_def addServer_eq put_server_def)
    then show thesis by (rule created)
  qed
qed

section \<open>The invariant of the program\<close>

text \<open>
  An outcome after which the program may go on in a state that satisfies \<open>Q\<close>, or one of the
  faults. \<open>std::terminate\<close> is never one.
\<close>

fun ends :: "fault set \<Rightarrow> ('s \<Rightarrow> bool) \<Rightarrow> ('s, 'a) outcome \<Rightarrow> bool" where
  "ends E Q (Returned x s) = Q s"
| "ends E Q (Thrown what s) = Q s"
| "ends E Q (Failed e) = (e \<in> E)"
| "ends E Q Terminated = False"

definition program_inv :: "('w, 'ip) os \<Rightarrow> fault set \<Rightarrow> ('w, 'ip) program \<Rightarrow> bool" where
  "program_inv os faults P \<longleftrightarrow>
     inter_inv os faults (worker P, state P) \<and>
     (case manager P of
        None \<Rightarrow> tasks P = 0 \<and> worker P = GatherClients \<and> (\<exists>w. state P = start_machine w)
      | Some h \<Rightarrow> tasks P = 1)"

text \<open>
  The contract of the other threads with the worker: whatever they do keeps the invariant of
  the interleaved system.
\<close>

locale threads_contract = app_contract os U faults ok
  for os :: "('w, 'ip) os" and U :: "('w, 'ip) usercode" and faults :: "fault set" and ok :: bool +
  fixes may :: "worker_pc \<Rightarrow> ('w, 'ip) machine \<Rightarrow> 'ip thread_op \<Rightarrow> bool"
  assumes thread_keeps: "ok \<Longrightarrow> inter_inv os faults (pc, m) \<Longrightarrow> may pc m op \<Longrightarrow>
      holds faults (\<lambda>m1. inter_inv os faults (pc, m1)) (run_thread os op m)"
    and platform: "ok \<Longrightarrow> platform_ok os"
    and expected: "polite_faults \<subseteq> faults"

interpretation any_threads: threads_contract os U app_faults "platform_ok os" anything
  for os :: "('w, 'ip) os" and U :: "('w, 'ip) usercode"
proof unfold_locales
  fix pc and m :: "('w, 'ip) machine" and op
  assume "platform_ok os" and inv: "inter_inv os app_faults (pc, m)"
  then show "holds app_faults (\<lambda>m1. inter_inv os app_faults (pc, m1)) (run_thread os op m)"
    using any_thread_keeps [of os m op]
    by (auto simp: inter_inv_def safe_any elim!: holds_mono)
qed auto

interpretation careful_threads: threads_contract os U polite_faults "platform_ok os \<and> polite_app U" careful
  for os :: "('w, 'ip) os" and U :: "('w, 'ip) usercode"
  by unfold_locales (auto intro: careful_thread_keeps)

text \<open>Before the first connection there is nothing to call, to delete or to resolve a name for.\<close>

lemma nothing_to_use:
  assumes "state P = start_machine w"
    and "\<And>ops. op \<noteq> Act (New ops)" and "\<And>addr port. op \<noteq> NewServer addr port"
  shows "program_thread tos os op P = Failed UseAfterFree"
    and "run_thread os op (state P) = Inl UseAfterFree"
proof -
  have none: "get_client p (state P) = Inl UseAfterFree" "get_server p (state P) = Inl UseAfterFree" for p
    by (simp_all add: assms(1) start_machine_def get_client_def get_server_def)
  note eqs = none on_machine_def call_api_def on_server_def dns_found_def program_delete_client_def
    program_delete_server_def delete_client_def delete_server_def
  show "program_thread tos os op P = Failed UseAfterFree"
  proof (cases op)
    case (Act a)
    then show ?thesis using assms(2) by (cases a) (auto simp: eqs)
  qed (use assms(3) in \<open>auto simp: eqs\<close>)
  show "run_thread os op (state P) = Inl UseAfterFree"
  proof (cases op)
    case (Act a)
    then show ?thesis using assms(2) by (cases a) (auto simp: eqs)
  qed (use assms(3) in \<open>auto simp: eqs\<close>)
qed

lemma allocate_start:
  assumes "new_law os" and "machine_inv os {} m"
  obtains (full) "allocate os m = Inl BadAlloc"
  | (got) p w where "allocate os m = Inr (p, w)" "p \<noteq> 0" "heap m p = None" "server_heap m p = None"
  using allocate_holds [OF assms] by (cases "allocate os m") auto

lemma start_inter_inv: "inter_inv os faults (GatherClients, m) = machine_inv os {} m"
  by (simp add: inter_inv_def safe_def alive_def)

lemma machine_inv_server_register:
  assumes "machine_inv os {} m" and "p \<noteq> 0" and "heap m p = None" and "server_heap m p = None"
  shows "machine_inv os {} ((put_server p s w m)\<lparr>servers := servers m @ [p]\<rparr>)"
  using assms by (auto simp: machine_inv_def registry_inv_def heap_inv_def put_server_def)

context threads_contract begin

lemma first_client_ends:
  assumes "ok" and "program_inv os faults P" and "manager P = None"
  shows "ends faults (program_inv os faults) (program_thread tos os (Act (New ops)) P)"
proof -
  from assms(2,3) obtain w where P: "tasks P = 0" "worker P = GatherClients" "state P = start_machine w"
    by (auto simp: program_inv_def)
  have inv: "machine_inv os {} (state P)" by (simp add: P(3) start_inv)
  have os: "platform_ok os" by (rule platform [OF assms(1)])
  show ?thesis
  proof (cases rule: allocate_start [OF platform_okD(2) [OF os] inv])
    case 1
    then show ?thesis using expected by (simp add: program_new_client_def)
  next
    case (2 p w1)
    obtain c w2 where c: "construct_client os None w1 = (c, w2)" by fastforce
    show ?thesis
    proof (cases rule: new_client_first [OF assms(3) inv 2(2,3,1) c, of tos])
      case 1
      then show ?thesis using expected by simp
    next
      case (2 w)
      have "start_machine w\<lparr>world := w'\<rparr> = start_machine w'" for w' by (simp add: start_machine_def)
      with 2 P inv assms(3) show ?thesis
        by (auto simp: program_inv_def start_inter_inv start_inv) (simp add: start_machine_def)+
    next
      case (3 w h)
      let ?m = "(put_client p c w (state P))\<lparr>clients := clients (state P) @ [p]\<rparr>"
      have m: "machine_inv os {} ?m"
        by (rule register_inv [OF inv 2(2,3,4) construct_client_inv [OF c]])
      have "holds polite_faults (machine_inv os {}) (call_apis os p ops ?m)"
        using call_apis_polite [OF platform_okD(1) [OF os], of ?m p ?m ops] m
        by (auto simp: put_client_def elim!: holds_mono)
      then show ?thesis
        using 3(1) P expected
        by (cases "call_apis os p ops ?m")
          (auto simp: on_machine_def program_inv_def start_inter_inv)
    qed
  qed
qed

lemma first_server_ends:
  assumes "ok" and "program_inv os faults P" and "manager P = None"
  shows "ends faults (program_inv os faults) (program_thread tos os (NewServer addr port) P)"
proof -
  from assms(2,3) obtain w where P: "tasks P = 0" "worker P = GatherClients" "state P = start_machine w"
    by (auto simp: program_inv_def)
  have inv: "machine_inv os {} (state P)" by (simp add: P(3) start_inv)
  show ?thesis
  proof (cases rule: allocate_start [OF platform_okD(2) [OF platform [OF assms(1)]] inv])
    case 1
    then show ?thesis using expected by (simp add: program_new_server_def)
  next
    case (2 p w1)
    obtain s w2 where s: "Server_new os addr port w1 = (s, w2)" by fastforce
    show ?thesis
    proof (cases rule: new_server_first [OF assms(3) inv 2(2,4,1) s, of tos])
      case 1
      then show ?thesis using expected by simp
    next
      case (2 w)
      with P inv assms(3) show ?thesis
        by (auto simp: program_inv_def start_inter_inv start_inv) (simp add: start_machine_def)+
    next
      case (3 w h)
      with P machine_inv_server_register [OF inv 2(2,3,4), of s w] show ?thesis
        by (simp add: program_inv_def start_inter_inv)
    qed
  qed
qed

lemma step_ends:
  assumes "ok" and "program_inv os faults P" and "program_step may tos os U P r"
  shows "ends faults (program_inv os faults) r"
  using assms(3)
proof (rule program_stepE)
  fix h assume "manager P = Some h" and r: "r = program_worker os U P"
  moreover have "holds faults (inter_inv os faults) (worker_step os U (worker P, state P))"
    using worker_step_keeps [OF assms(1)] assms(2) by (simp add: program_inv_def)
  ultimately show ?thesis
    using assms(2)
    by (cases "worker_step os U (worker P, state P)") (auto simp: program_worker_def program_inv_def)
next
  fix op
  assume m: "may (worker P) (state P) op" and r: "r = program_thread tos os op P"
  from assms(2) have "inter_inv os faults (worker P, state P)" by (simp add: program_inv_def)
  from thread_keeps [OF assms(1) this m]
  have kept: "holds faults (\<lambda>m1. inter_inv os faults (worker P, m1)) (run_thread os op (state P))" .
  show ?thesis
  proof (cases "manager P")
    case (Some h)
    with kept assms(2) show ?thesis
      by (cases "run_thread os op (state P)")
        (auto simp: r thread_started on_machine_def program_inv_def)
  next
    case None
    with assms(2) obtain w where w: "state P = start_machine w" by (auto simp: program_inv_def)
    consider (c) ops where "op = Act (New ops)" | (s) addr port where "op = NewServer addr port"
      | (other) "\<And>ops. op \<noteq> Act (New ops)" "\<And>addr port. op \<noteq> NewServer addr port" by blast
    then show ?thesis
    proof cases
      case c
      with first_client_ends [OF assms(1,2) None] show ?thesis by (simp only: r)
    next
      case s
      with first_server_ends [OF assms(1,2) None] show ?thesis by (simp only: r)
    next
      case other
      from kept nothing_to_use [OF w other] show ?thesis by (simp add: r)
    qed
  qed
qed

lemma reachable_program_inv:
  assumes "ok" and "program_reachable may tos os U P"
  shows "program_inv os faults P"
  using assms(2)
proof (induction rule: program_reachable.induct)
  case (program_boot w)
  show ?case by (auto simp: boot_def program_inv_def start_inter_inv start_inv)
next
  case (program_next P x P1)
  from step_ends [OF assms(1) program_next.IH program_next.hyps(2)] show ?case by simp
next
  case (program_caught P what P1)
  from step_ends [OF assms(1) program_caught.IH program_caught.hyps(2)] show ?case by simp
qed

end

section \<open>A platform that creates the task at the second attempt\<close>

text \<open>The sample platform's clock moves on with each construction.\<close>

definition sample_tasks :: "time_point \<Rightarrow> sample_world task_os" where
  "sample_tasks t =
     \<lparr>pdPASS = 1, reserve = (\<lambda>n w. (True, w)),
      xTaskCreateUniversal = (\<lambda>name stack arg prio handle core w.
        (if t \<le> clock w then (1, 77) else (-1, handle), w)),
      vTaskDelete = (\<lambda>h w. w)\<rparr>"

abbreviation sample_boot :: "(sample_world, u32) program" where
  "sample_boot \<equiv> boot (sample_start [])"

lemma retry_run:
  "\<exists>P1 P2. program_thread (sample_tasks 2000000) (sample_os True) (Act (New [])) sample_boot =
      Thrown ''Failed to create AsyncTCPSock task'' P1 \<and>
    worker P1 = GatherClients \<and>
    program_thread (sample_tasks 2000000) (sample_os True) (Act (New [])) P1 = Returned () P2 \<and>
    manager P2 = Some 77 \<and> worker P2 = GatherClients \<and> heap (state P2) 4096 \<noteq> None"
proof -
  let ?t = "program_thread (sample_tasks 2000000) (sample_os True) (Act (New []))"
  have "case ?t sample_boot of
      Thrown what P1 \<Rightarrow> what = ''Failed to create AsyncTCPSock task'' \<and>
        (case worker P1 of GatherClients \<Rightarrow> True | _ \<Rightarrow> False) \<and>
        (case ?t P1 of Returned x P2 \<Rightarrow>
            (case manager P2 of None \<Rightarrow> False | Some h \<Rightarrow> h = 77) \<and>
            (case worker P2 of GatherClients \<Rightarrow> True | _ \<Rightarrow> False) \<and>
            (case heap (state P2) 4096 of None \<Rightarrow> False | Some c \<Rightarrow> True)
         | Thrown what P2 \<Rightarrow> False | Failed e \<Rightarrow> False | Terminated \<Rightarrow> False)
    | Returned x P1 \<Rightarrow> False | Failed e \<Rightarrow> False | Terminated \<Rightarrow> False" by code_simp
  then show ?thesis by (auto split: outcome.splits option.splits worker_pc.splits)
qed

lemma retried_reachable:
  assumes "\<And>ops m. may GatherClients m (Act (New ops))"
  obtains P where "program_reachable may (sample_tasks 2000000) (sample_os True) U P"
    and "manager P = Some 77" and "worker P = GatherClients" and "heap (state P) 4096 \<noteq> None"
proof -
  let ?op = "Act (New []) :: u32 thread_op"
  from retry_run obtain P1 P2 where
    r: "program_thread (sample_tasks 2000000) (sample_os True) ?op sample_boot =
      Thrown ''Failed to create AsyncTCPSock task'' P1"
      "program_thread (sample_tasks 2000000) (sample_os True) ?op P1 = Returned () P2"
    and P1: "worker P1 = GatherClients"
    and P2: "manager P2 = Some 77" "worker P2 = GatherClients" "heap (state P2) 4096 \<noteq> None" by blast
  have "program_step may (sample_tasks 2000000) (sample_os True) U sample_boot
      (Thrown ''Failed to create AsyncTCPSock task'' P1)"
    and "program_step may (sample_tasks 2000000) (sample_os True) U P1 (Returned () P2)"
    unfolding r [symmetric]
    by (rule step_of_thread, simp only: P1 boot_def program.simps, rule assms)+
  from program_next [OF program_caught [OF program_boot this(1)] this(2)] P2 that show thesis by blast
qed

section \<open>From the boot on\<close>

text \<open>
  C3: in every state the program can reach from its boot, whatever its threads and callbacks do
  and however often the platform fails to create the task: the worker task has been created
  exactly once if the manager exists and never otherwise, and where a client or a server is
  alive, or listed in the manager, it has been created.
\<close>

theorem one_worker_task:
  assumes "platform_ok os" and "program_reachable anything tos os U P"
  shows "tasks P = (case manager P of None \<Rightarrow> 0 | Some h \<Rightarrow> 1) \<and>
    (\<forall>p. heap (state P) p \<noteq> None \<or> server_heap (state P) p \<noteq> None \<or>
       p \<in> set (clients (state P)) \<or> p \<in> set (servers (state P)) \<longrightarrow> tasks P = 1)"
  using any_threads.reachable_program_inv [OF assms]
  by (auto simp: program_inv_def start_machine_def split: option.splits)

theorem one_worker_task_witness:
  "\<exists>P. program_reachable anything (sample_tasks 2000000) (sample_os True) quiet P \<and>
    heap (state P) 4096 \<noteq> None \<and> tasks P = 1"
proof -
  obtain P where "program_reachable anything (sample_tasks 2000000) (sample_os True) quiet P"
    "heap (state P) 4096 \<noteq> None"
    by (rule retried_reachable [of anything quiet]) (auto simp: anything_def)
  with one_worker_task [OF sample_platform_ok this(1)] show ?thesis by blast
qed

text \<open>
  C2: from the boot on, with threads and callbacks that respect lifetimes, no step of the
  program uses a deleted object or deadlocks, and no destructor ends the program, although every
  destructor calls \<open>instance\<close>, which may throw: the only faults are a string without a
  terminator and the exhaustion of memory.
\<close>

theorem program_careful_safe:
  assumes "platform_ok os" and "polite_app U" and "program_reachable careful tos os U P"
    and "program_step careful tos os U P r"
  shows "r \<noteq> Terminated \<and> (\<forall>e. r = Failed e \<longrightarrow> e = Hang \<or> e = BadAlloc)"
proof -
  have ok: "platform_ok os \<and> polite_app U" using assms(1,2) by simp
  from careful_threads.step_ends [OF ok careful_threads.reachable_program_inv [OF ok assms(3)] assms(4)]
  show ?thesis by auto
qed

theorem program_careful_safe_witness:
  "\<exists>P. program_reachable careful (sample_tasks 2000000) (sample_os True) quiet P \<and>
    heap (state P) 4096 \<noteq> None \<and>
    program_thread (sample_tasks 2000000) (sample_os True) (Act (Delete 4096)) P \<noteq> Terminated"
proof -
  obtain P where P: "program_reachable careful (sample_tasks 2000000) (sample_os True) quiet P"
    "worker P = GatherClients" "heap (state P) 4096 \<noteq> None"
    by (rule retried_reachable [of careful quiet]) auto
  have "program_step careful (sample_tasks 2000000) (sample_os True) quiet P
      (program_thread (sample_tasks 2000000) (sample_os True) (Act (Delete 4096)) P)"
    by (rule step_of_thread) (simp add: P)
  from program_careful_safe [OF sample_platform_ok quiet_polite P(1) this] P show ?thesis by blast
qed

text \<open>
  C4: the first connection, where memory suffices: if the platform creates the task, the
  constructor returns, the manager exists and lists the new client; if not, the constructor
  throws, nothing is left of the client, its descriptor is closed, and the manager does not
  exist, so that the next constructor tries again.
\<close>

theorem first_connection_outcome:
  assumes "platform_ok os" and "program_reachable anything tos os U P" and "manager P = None"
    and "allocate os (state P) = Inr (p, w1)" and "construct_client os fd w1 = (c, w2)"
    and "reserve tos (case CONFIG_LWIP_MAX_SOCKETS os of None \<Rightarrow> 0 | Some n \<Rightarrow> n) w2 = (True, w3)"
    and "reserve tos 2 w3 = (True, w4)"
    and "xTaskCreateUniversal tos TASK_NAME TASK_STACK_SIZE 0 TASK_PRIORITY 0 TASK_CORE_AFFINITY w4 =
      ((result, h), w5)"
  shows "program_new_client tos os fd P =
    (if result = pdPASS tos then
       Returned p (P\<lparr>manager := Some h, tasks := 1,
         state := (put_client p c w5 (state P))\<lparr>clients := [p]\<rparr>\<rparr>)
     else
       Thrown ''Failed to create AsyncTCPSock task''
         (P\<lparr>state := (state P)\<lparr>world := if isOpen c then sys_close os (socket c) w5 else w5\<rparr>\<rparr>))"
proof -
  from any_threads.reachable_program_inv [OF assms(1,2)] assms(3)
  have P: "tasks P = 0" "clients (state P) = []" and inv: "machine_inv os {} (state P)"
    by (auto simp: program_inv_def start_machine_def inter_inv_def safe_def)
  from allocate_holds [OF platform_okD(2) [OF assms(1)] inv] assms(4)
  have p: "p \<noteq> 0" "heap (state P) p = None" by auto
  have "manager (P\<lparr>state := put_client p c w2 (state P)\<rparr>) = None" using assms(3) by simp
  from instance_creates [OF this _ assms(7,8), of os] assms(6)
  have i: "manager_instance tos os (P\<lparr>state := put_client p c w2 (state P)\<rparr>) =
    (if result = pdPASS tos
     then Returned () ((in_world (P\<lparr>state := put_client p c w2 (state P)\<rparr>) w5)\<lparr>tasks := tasks P + 1, manager := Some h\<rparr>)
     else Thrown ''Failed to create AsyncTCPSock task'' (in_world (P\<lparr>state := put_client p c w2 (state P)\<rparr>) w5))"
    by (simp add: put_client_def)
  show ?thesis
    using new_client_thrown [OF assms(4,5) p(2), of tos] new_client_created [OF assms(4,5) inv p(1), of tos] i P
    by (cases "result = pdPASS tos") simp_all
qed

theorem first_connection_outcome_witness:
  "\<exists>P1. program_new_client (sample_tasks 2000000) (sample_os True) None sample_boot =
      Thrown ''Failed to create AsyncTCPSock task'' P1 \<and>
    manager P1 = None \<and> tasks P1 = 0 \<and> heap (state P1) = (\<lambda>_. None) \<and> clients (state P1) = []"
proof -
  let ?os = "sample_os True" and ?w = "sample_start []"
  obtain c w where c: "construct_client ?os None ?w = (c, w)" by fastforce
  have "clock (snd (construct_client ?os None ?w)) = 1000000" by code_simp
  with c have w: "clock w = 1000000" by simp
  have a: "allocate ?os (state sample_boot) = Inr (4096, ?w)"
    by (simp add: allocate_def sample_os_def boot_def start_machine_def live_def)
  have "xTaskCreateUniversal (sample_tasks 2000000) TASK_NAME TASK_STACK_SIZE 0 TASK_PRIORITY 0
      TASK_CORE_AFFINITY w = ((-1, 0), w)" by (simp add: sample_tasks_def w)
  from first_connection_outcome [OF sample_platform_ok program_boot _ a c _ _ this]
  show ?thesis by (simp add: sample_tasks_def boot_def start_machine_def)
qed

end
