(* ===== verification/SystemProperties.thy ===== *)
theory SystemProperties
  imports ManagerProperties
begin

text \<open>
  What holds of the whole program on every run: no deadlock and a well-formed state whatever
  the application does, no use of a deleted connection for applications that respect the
  lifetime rules, and a run that shows the rules are needed.
\<close>

text \<open>
  In every state the program can reach, for every application: the manager's mutex and all
  write mutexes are free between steps, the two registries hold exactly the live objects, every
  client's accounting is right; and no further step, of the worker or of the application, ends
  in a deadlock.
\<close>

lemma reachable_safe:
  assumes "platform_ok os" and "reachable os U m"
  shows "\<not> managerMutex m \<and>
    distinct (clients m) \<and> (\<forall>p. p \<in> set (clients m) \<longleftrightarrow> heap m p \<noteq> None) \<and>
    distinct (servers m) \<and> (\<forall>p. p \<in> set (servers m) \<longleftrightarrow> server_heap m p \<noteq> None) \<and>
    (\<forall>p c. heap m p = Some c \<longrightarrow> \<not> writeMutex c \<and>
       unat (writeSpaceRemaining c) + queue_bytes (writeQueue c) = unat (TCP_SND_BUF os)) \<and>
    (\<forall>r. system_step os U m r \<longrightarrow> r \<noteq> Inl Deadlock)"
proof -
  have inv: "machine_inv os {} m" by (rule reachable_inv [OF assms(2,1)])
  have "r \<noteq> Inl Deadlock" if "system_step os U m r" for r
    using system_step_holds [OF assms(1) inv that] by auto
  moreover have "client_inv os c" if "heap m p = Some c" for p c
    using machine_inv_client [OF inv that] by simp
  ultimately show ?thesis
    using inv
    by (auto simp: machine_inv_def registry_inv_def client_inv_defs INITIAL_WRITE_SPACE_def)
qed

lemma reachable_safe_example:
  "\<not> managerMutex (sample_machine [(CONNECT, 1)]) \<and>
    update_round (sample_os True) quiet (sample_machine [(CONNECT, 1)]) \<noteq> Inl Deadlock"
  using reachable_safe [OF sample_platform_ok sample_machine_reachable, of "[(CONNECT, 1)]" quiet]
    step_round [of "sample_os True" quiet "sample_machine [(CONNECT, 1)]"]
  by blast

text \<open>
  For an application that uses live objects only, and deletes a client only in the last
  action of a \<open>DISCONNECT\<close>, \<open>POLL\<close>, \<open>RECV\<close> or \<open>TIMEOUT\<close> handler of that client, no number of
  rounds of the worker touches a deleted object: the only things that can go wrong are the
  application's own endless string and the exhaustion of memory.
\<close>

lemma polite_rounds_safe:
  assumes "platform_ok os" and "polite_app U" and "machine_inv os {} m"
  shows "case update_rounds n os U m of
      Inl e \<Rightarrow> e = Hang \<or> e = BadAlloc
    | Inr m' \<Rightarrow> machine_inv os {} m'"
proof -
  from assms(1,2) have "platform_ok os \<and> polite_app U" by simp
  from polite.update_rounds_keeps [OF this assms(3), of n] show ?thesis
    by (cases "update_rounds n os U m") auto
qed

definition delete_when_done :: "('w, 'ip) usercode" where
  "delete_when_done h arg p ev m = (if ev = EvDisconnect then [Delete p] else [])"

lemma delete_when_done_polite: "polite_app delete_when_done"
  by (auto simp: polite_app_def delete_when_done_def)

lemma polite_rounds_safe_example:
  "\<exists>m'. update_rounds 2 (sample_os True) delete_when_done
      (one_client (listening DISCONNECTING (-1)) []) = Inr m' \<and> clients m' = []"
proof -
  let ?r = "update_rounds 2 (sample_os True) delete_when_done
      (one_client (listening DISCONNECTING (-1)) [])"
  have "client_inv (sample_os True) (listening DISCONNECTING (-1))"
    by (simp add: client_inv_defs isOpen_def INITIAL_WRITE_SPACE_def sample_os_def)
  from polite_rounds_safe [OF sample_platform_ok delete_when_done_polite one_client_inv [OF this],
      of 2 "[]"]
  have "case ?r of Inl e \<Rightarrow> e = Hang \<or> e = BadAlloc | Inr m' \<Rightarrow> True"
    by (auto split: sum.splits)
  moreover have "case ?r of Inl e \<Rightarrow> False | Inr m' \<Rightarrow> clients m' = []" by code_simp
  ultimately show ?thesis by (auto split: sum.splits)
qed

definition delete_at_once :: "('w, 'ip) usercode" where
  "delete_at_once h arg p ev m = [Delete p]"

text \<open>
  The rules are needed: an application that deletes the client in its \<open>CONNECT\<close> handler makes
  the worker use the deleted client in the same round, on a perfectly ordinary connection.
\<close>

lemma delete_in_connect_is_use_after_free:
  "reachable (sample_os True) delete_at_once (sample_machine [(CONNECT, 1)]) \<and>
   update_round (sample_os True) delete_at_once (sample_machine [(CONNECT, 1)]) = Inl UseAfterFree"
proof -
  have "case update_round (sample_os True) delete_at_once (sample_machine [(CONNECT, 1)]) of
      Inl e \<Rightarrow> e = UseAfterFree | Inr m \<Rightarrow> False" by code_simp
  then have "update_round (sample_os True) delete_at_once (sample_machine [(CONNECT, 1)]) = Inl UseAfterFree"
    by (auto split: sum.splits)
  then show ?thesis by (simp add: sample_machine_reachable)
qed

end
