(* ===== verification/Client.thy ===== *)
theory Client
  imports ClientBase
begin

text \<open>
  \<open>src/src/Client.hpp\<close> and \<open>Client.cpp\<close>: what \<open>Client\<close> adds to \<open>ClientBase\<close> besides its
  registration (theory \<open>Machine\<close>) and the handler setters (theory \<open>Callbacks\<close>): the texts of
  the error codes, and the addresses of the two ends of a connection. The layout of lwIP's
  address structures and its error numbers are parameters.
\<close>

section \<open>Error texts\<close>

datatype err_t =
    E_OK | E_MEM | E_BUF | E_TIMEOUT | E_RTE | E_INPROGRESS | E_VAL | E_WOULDBLOCK | E_USE
  | E_ALREADY | E_ISCONN | E_CONN | E_IF | E_ABRT | E_RST | E_CLSD | E_ARG

text \<open>The labels of the \<open>switch\<close>, in its order; \<open>ERR_ISCONN\<close> is not among them.\<close>

definition err_texts :: "(err_t \<times> string) list" where
  "err_texts =
     [(E_OK, ''OK''), (E_MEM, ''Out of memory error''), (E_BUF, ''Buffer error''),
      (E_TIMEOUT, ''Timeout''), (E_RTE, ''Routing problem''),
      (E_INPROGRESS, ''Operation in progress''), (E_VAL, ''Illegal value''),
      (E_WOULDBLOCK, ''Operation would block''), (E_USE, ''Address in use''),
      (E_ALREADY, ''Already connected''), (E_CONN, ''Not connected''),
      (E_IF, ''Low-level netif error''), (E_ABRT, ''Connection aborted''),
      (E_RST, ''Connection reset''), (E_CLSD, ''Connection closed''),
      (E_ARG, ''Illegal argument'')]"

definition errorToString :: "(err_t \<Rightarrow> int) \<Rightarrow> int \<Rightarrow> string" where
  "errorToString code error =
     (case find (\<lambda>(e, s). code e = error) err_texts of
        Some (e, s) \<Rightarrow> s
      | None \<Rightarrow> if error = -55 then ''DNS failed'' else ''UNKNOWN'')"

section \<open>Addresses\<close>

text \<open>
  The structures are copied out of a byte array: \<open>sin_addr_of\<close> and \<open>sin_port_of\<close> read the
  fields of a \<open>sockaddr_in\<close>, the others those of a \<open>sockaddr_in6\<close>. \<open>getpeername\<close> and
  \<open>getsockname\<close> return a status, the filled array and the size they report.
\<close>

record ('w, 'ip) sockaddr_os =
  sizeof_in :: u32
  sizeof_in6 :: u32
  sizeof_storage :: u32
  sin_addr_of :: "byte list \<Rightarrow> u32"
  sin_port_of :: "byte list \<Rightarrow> u16"
  sin6_addr_of :: "byte list \<Rightarrow> byte list"
  sin6_port_of :: "byte list \<Rightarrow> u16"
  sin6_scope_id_of :: "byte list \<Rightarrow> u32"
  ntohs :: "u16 \<Rightarrow> u16"
  IPAddress_empty :: 'ip
  IPAddress_v4 :: "u32 \<Rightarrow> 'ip"
  IPAddress_v6 :: "byte list \<Rightarrow> u8 \<Rightarrow> 'ip"
  getpeername :: "int \<Rightarrow> byte list \<Rightarrow> u32 \<Rightarrow> 'w \<Rightarrow> (int \<times> byte list \<times> u32) \<times> 'w"
  getsockname :: "int \<Rightarrow> byte list \<Rightarrow> u32 \<Rightarrow> 'w \<Rightarrow> (int \<times> byte list \<times> u32) \<times> 'w"

text \<open>
  \<open>withSockAddr\<close>: the getter receives the array by reference and the size by value, so \<open>size\<close>
  is still the size of the array when it is compared.
\<close>

definition withSockAddr ::
  "('w, 'ip) sockaddr_os \<Rightarrow> (byte list \<Rightarrow> u32 \<Rightarrow> 'w \<Rightarrow> byte list \<times> 'w) \<Rightarrow>
     (byte list \<Rightarrow> 'r) \<Rightarrow> (byte list \<Rightarrow> 'r) \<Rightarrow> 'r \<Rightarrow> 'w \<Rightarrow> 'r \<times> 'w"
where
  "withSockAddr ns getter useIpv4 useIpv6 none w =
     (let sz = sizeof_storage ns;
          (addr, w1) = getter (replicate (unat sz) 0) sz w
      in if sz = sizeof_in ns then (useIpv4 (take (unat (sizeof_in ns)) addr), w1)
         else if sz = sizeof_in6 ns then (useIpv6 (take (unat (sizeof_in6 ns)) addr), w1)
         else (none, w1))"

text \<open>The lambdas \<open>[&](sockaddr* addr, socklen_t size) { getpeername(_socket, addr, &size); }\<close>.\<close>

definition peer_getter ::
  "('w, 'ip) sockaddr_os \<Rightarrow> int \<Rightarrow> byte list \<Rightarrow> u32 \<Rightarrow> 'w \<Rightarrow> byte list \<times> 'w"
where
  "peer_getter ns fd addr sz w =
     (let ((res, addr1, size1), w1) = getpeername ns fd addr sz w in (addr1, w1))"

definition sock_getter ::
  "('w, 'ip) sockaddr_os \<Rightarrow> int \<Rightarrow> byte list \<Rightarrow> u32 \<Rightarrow> 'w \<Rightarrow> byte list \<times> 'w"
where
  "sock_getter ns fd addr sz w =
     (let ((res, addr1, size1), w1) = getsockname ns fd addr sz w in (addr1, w1))"

definition ip_v4 :: "('w, 'ip) sockaddr_os \<Rightarrow> byte list \<Rightarrow> 'ip" where
  "ip_v4 ns s = IPAddress_v4 ns (sin_addr_of ns s)"

definition ip_v6 :: "('w, 'ip) sockaddr_os \<Rightarrow> byte list \<Rightarrow> 'ip" where
  "ip_v6 ns s = IPAddress_v6 ns (sin6_addr_of ns s) (ucast (sin6_scope_id_of ns s))"

definition remoteIP ::
  "('w, 'ip) sockaddr_os \<Rightarrow> 'ip ClientBase \<Rightarrow> 'w \<Rightarrow> 'ip \<times> 'w"
where
  "remoteIP ns c w =
     (if \<not> isOpen c then (IPAddress_empty ns, w)
      else withSockAddr ns (peer_getter ns (socket c)) (ip_v4 ns) (ip_v6 ns) (IPAddress_empty ns) w)"

definition remotePort ::
  "('w, 'ip) sockaddr_os \<Rightarrow> 'ip ClientBase \<Rightarrow> 'w \<Rightarrow> u16 \<times> 'w"
where
  "remotePort ns c w =
     (if \<not> isOpen c then (0, w)
      else withSockAddr ns (peer_getter ns (socket c)) (\<lambda>s. ntohs ns (sin_port_of ns s))
        (\<lambda>s. ntohs ns (sin6_port_of ns s)) 0 w)"

definition localIP ::
  "('w, 'ip) sockaddr_os \<Rightarrow> 'ip ClientBase \<Rightarrow> 'w \<Rightarrow> 'ip \<times> 'w"
where
  "localIP ns c w =
     (if \<not> isOpen c then (IPAddress_empty ns, w)
      else withSockAddr ns (sock_getter ns (socket c)) (ip_v4 ns) (ip_v6 ns) (IPAddress_empty ns) w)"

definition localPort ::
  "('w, 'ip) sockaddr_os \<Rightarrow> 'ip ClientBase \<Rightarrow> 'w \<Rightarrow> u16 \<times> 'w"
where
  "localPort ns c w =
     (if \<not> isOpen c then (0, w)
      else withSockAddr ns (sock_getter ns (socket c)) (\<lambda>s. ntohs ns (sin_port_of ns s))
        (\<lambda>s. ntohs ns (sin6_port_of ns s)) 0 w)"

text \<open>Kept for compatibility.\<close>

definition ack :: "size_t \<Rightarrow> size_t" where
  "ack len = len"

end
