(* ===== verification/AddressProperties.thy ===== *)
theory AddressProperties
  imports Client ClientProperties
begin

text \<open>
  The error texts, and the address queries, which lose the size the socket layer reports.
\<close>

section \<open>Error texts\<close>

text \<open>
  For any numbering of lwIP's errors that keeps them apart (and apart from the code of a
  failed name resolution), every error of the table gets its own text, a failed resolution is
  named, and everything else, the code of an already established connection included, is
  unknown.
\<close>

lemma error_texts:
  assumes "inj code" and "-55 \<notin> range code"
  shows "(\<forall>(e, s) \<in> set err_texts. errorToString code (code e) = s) \<and>
    errorToString code (-55) = ''DNS failed'' \<and>
    errorToString code (code E_ISCONN) = ''UNKNOWN'' \<and>
    (\<forall>n. n \<notin> range code \<longrightarrow> n \<noteq> -55 \<longrightarrow> errorToString code n = ''UNKNOWN'')"
proof -
  have eq: "code a = code b \<longleftrightarrow> a = b" for a b using assms(1) by (simp add: inj_eq)
  have none: "find (\<lambda>(e, s). code e = n) err_texts = None" if "n \<notin> range code" for n
    using that by (auto simp: find_None_iff)
  have dns: "code e \<noteq> -55" for e using assms(2) by (metis rangeI)
  have "\<forall>(e, s) \<in> set err_texts. errorToString code (code e) = s"
    by (simp add: errorToString_def err_texts_def eq)
  moreover have "errorToString code (code E_ISCONN) = ''UNKNOWN''"
    by (simp add: errorToString_def err_texts_def eq dns)
  ultimately show ?thesis using none assms(2) by (simp add: errorToString_def)
qed

fun lwip_code :: "err_t \<Rightarrow> int" where
  "lwip_code E_OK = 0" | "lwip_code E_MEM = -1" | "lwip_code E_BUF = -2"
| "lwip_code E_TIMEOUT = -3" | "lwip_code E_RTE = -4" | "lwip_code E_INPROGRESS = -5"
| "lwip_code E_VAL = -6" | "lwip_code E_WOULDBLOCK = -7" | "lwip_code E_USE = -8"
| "lwip_code E_ALREADY = -9" | "lwip_code E_ISCONN = -10" | "lwip_code E_CONN = -11"
| "lwip_code E_IF = -12" | "lwip_code E_ABRT = -13" | "lwip_code E_RST = -14"
| "lwip_code E_CLSD = -15" | "lwip_code E_ARG = -16"

lemma lwip_code_inj: "inj lwip_code"
proof (rule injI)
  fix a b assume "lwip_code a = lwip_code b"
  then show "a = b" by (cases a; cases b) simp_all
qed

lemma error_texts_example: "errorToString lwip_code (-13) = ''Connection aborted''"
proof -
  have "-55 \<notin> range lwip_code"
  proof
    assume "-55 \<in> range lwip_code"
    then obtain e where "lwip_code e = -55" by force
    then show False by (cases e) simp_all
  qed
  from error_texts [OF lwip_code_inj this] show ?thesis by (simp add: err_texts_def)
qed

section \<open>Addresses\<close>

text \<open>
  C36: on a platform where \<open>sockaddr_storage\<close> is as large as \<open>sockaddr_in6\<close> and larger than
  \<open>sockaddr_in\<close>, the address queries always read the answer as an IPv6 address, whatever size
  (and so whatever family) the socket layer reports: the size is handed to the getter by value.
\<close>

theorem addresses_always_read_as_ipv6:
  assumes "isOpen c" and "sizeof_storage ns = sizeof_in6 ns" and "sizeof_in ns \<noteq> sizeof_in6 ns"
    and "getpeername ns (socket c) (replicate (unat (sizeof_storage ns)) 0) (sizeof_storage ns) w =
      ((res, addr, reported), w1)"
  shows "remoteIP ns c w = (ip_v6 ns (take (unat (sizeof_in6 ns)) addr), w1) \<and>
    remotePort ns c w = (ntohs ns (sin6_port_of ns (take (unat (sizeof_in6 ns)) addr)), w1)"
  using assms by (simp add: remoteIP_def remotePort_def withSockAddr_def peer_getter_def Let_def)

text \<open>
  lwIP's layout: length, family, port in network order, then the address, at offset 4 in a
  \<open>sockaddr_in\<close> and at offset 8 in a \<open>sockaddr_in6\<close>. An \<open>IPAddress\<close> is its first four bytes here.
\<close>

definition sample_sockaddr :: "byte list \<Rightarrow> u32 \<Rightarrow> (sample_world, u32) sockaddr_os" where
  "sample_sockaddr answer reported =
     \<lparr>sizeof_in = 16, sizeof_in6 = 28, sizeof_storage = 28,
      sin_addr_of = (\<lambda>s. word_rcat (take 4 (drop 4 s))),
      sin_port_of = (\<lambda>s. word_rcat (take 2 (drop 2 s))),
      sin6_addr_of = (\<lambda>s. take 16 (drop 8 s)),
      sin6_port_of = (\<lambda>s. word_rcat (take 2 (drop 2 s))),
      sin6_scope_id_of = (\<lambda>s. word_rcat (take 4 (drop 24 s))),
      ntohs = (\<lambda>p. p), IPAddress_empty = 0,
      IPAddress_v4 = (\<lambda>a. a),
      IPAddress_v6 = (\<lambda>a z. word_rcat (take 4 a)),
      getpeername = (\<lambda>fd buf sz w. ((0, answer @ drop (length answer) buf, reported), w)),
      getsockname = (\<lambda>fd buf sz w. ((0, answer @ drop (length answer) buf, reported), w))\<rparr>"

theorem addresses_always_read_as_ipv6_witness:
  "fst (remoteIP (sample_sockaddr [16, 2, 0, 80, 192, 168, 0, 7] 16) (sample_client True CONNECTED 50)
      (sample_start [])) = 0 \<and>
   ip_v4 (sample_sockaddr [16, 2, 0, 80, 192, 168, 0, 7] 16) [16, 2, 0, 80, 192, 168, 0, 7] = 3232235527"
proof -
  let ?ns = "sample_sockaddr [16, 2, 0, 80, 192, 168, 0, 7] 16"
  let ?addr = "[16, 2, 0, 80, 192, 168, 0, 7] @ replicate 20 0"
  have g: "getpeername ?ns (socket (sample_client True CONNECTED 50))
      (replicate (unat (sizeof_storage ?ns)) 0) (sizeof_storage ?ns) (sample_start []) =
      ((0, ?addr, 16), sample_start [])"
    by (simp add: sample_sockaddr_def)
  have s: "sizeof_storage ?ns = sizeof_in6 ?ns" "sizeof_in ?ns \<noteq> sizeof_in6 ?ns"
    by (simp_all add: sample_sockaddr_def)
  have op: "isOpen (sample_client True CONNECTED 50)" by (simp add: isOpen_def)
  have "remoteIP ?ns (sample_client True CONNECTED 50) (sample_start []) =
      (ip_v6 ?ns (take (unat (sizeof_in6 ?ns)) ?addr), sample_start [])"
    by (rule addresses_always_read_as_ipv6 [OF op s g, THEN conjunct1])
  moreover have "ip_v6 ?ns (take (unat (sizeof_in6 ?ns)) ?addr) = 0" by code_simp
  moreover have "ip_v4 ?ns [16, 2, 0, 80, 192, 168, 0, 7] = 3232235527" by code_simp
  ultimately show ?thesis by simp
qed

end
