(* ===== verification/Concepts.thy ===== *)
theory Concepts
  imports Prelude
begin

text \<open>
  The compile-time side of the manager: the C++ concepts of \<open>SocketConnection.hpp\<close>, the traits of
  the variants it is instantiated with, and the static assertions of \<open>AsyncTCP.h\<close>, as executable
  predicates over the declarations of the classes. A call is well-formed if name lookup finds
  one function that takes the arguments and may be called from outside the class. Types must
  match as written: none of the calls in question needs a conversion. Function templates,
  constructors and operators are left out of the declarations, and so are data members.
\<close>

section \<open>Declarations\<close>

datatype ctype = Named string | Pointer ctype | Variant "ctype list"

datatype access = Public | Protected | Private

text \<open>The last \<open>defaults\<close> parameters of a function have a default argument.\<close>

record member =
  mem_name :: string
  params :: "ctype list"
  defaults :: nat
  returns :: ctype
  visibility :: access

record class_decl =
  base :: "string option"
  IS_SERVER :: "bool option"
  members :: "member list"

text \<open>A translation unit: a class stands before the one it is derived from.\<close>

type_synonym unit_decl = "(string \<times> class_decl) list"

definition fn :: "access \<Rightarrow> ctype \<Rightarrow> string \<Rightarrow> ctype list \<Rightarrow> member" where
  "fn a r f ps = \<lparr>mem_name = f, params = ps, defaults = 0, returns = r, visibility = a\<rparr>"

definition fn_default :: "access \<Rightarrow> ctype \<Rightarrow> string \<Rightarrow> ctype list \<Rightarrow> nat \<Rightarrow> member" where
  "fn_default a r f ps n = \<lparr>mem_name = f, params = ps, defaults = n, returns = r, visibility = a\<rparr>"

section \<open>Lookup and calls\<close>

text \<open>A name declared in a class hides every function of that name in its bases.\<close>

fun lookup :: "unit_decl \<Rightarrow> string \<Rightarrow> string \<Rightarrow> member list" where
  "lookup [] C f = []"
| "lookup ((D, d) # P) C f =
     (if C = D then
        let own = filter (\<lambda>m. mem_name m = f) (members d)
        in if own \<noteq> [] then own
           else (case base d of None \<Rightarrow> [] | Some B \<Rightarrow> lookup P B f)
      else lookup P C f)"

fun static_IS_SERVER :: "unit_decl \<Rightarrow> string \<Rightarrow> bool option" where
  "static_IS_SERVER [] C = None"
| "static_IS_SERVER ((D, d) # P) C =
     (if C = D then
        (case IS_SERVER d of
           Some b \<Rightarrow> Some b
         | None \<Rightarrow> (case base d of None \<Rightarrow> None | Some B \<Rightarrow> static_IS_SERVER P B))
      else static_IS_SERVER P C)"

definition takes :: "ctype list \<Rightarrow> member \<Rightarrow> bool" where
  "takes args m \<longleftrightarrow> length args \<le> length (params m) \<and>
     length (params m) \<le> length args + defaults m \<and> take (length args) (params m) = args"

text \<open>The type of \<open>impl.f(args)\<close>; \<open>None\<close>: ill-formed, ambiguous or inaccessible.\<close>

definition call_type :: "unit_decl \<Rightarrow> ctype \<Rightarrow> string \<Rightarrow> ctype list \<Rightarrow> ctype option" where
  "call_type P T f args =
     (case T of
        Named C \<Rightarrow>
          (case filter (takes args) (lookup P C f) of
             [m] \<Rightarrow> if visibility m = Public then Some (returns m) else None
           | _ \<Rightarrow> None)
      | _ \<Rightarrow> None)"

section \<open>Concepts\<close>

abbreviation "t_void \<equiv> Named ''void''"
abbreviation "t_bool \<equiv> Named ''bool''"
abbreviation "t_int \<equiv> Named ''int''"
abbreviation "t_time_point \<equiv> Named ''steady_clock::time_point''"

definition ManagedConnection :: "unit_decl \<Rightarrow> ctype \<Rightarrow> bool" where
  "ManagedConnection P Impl \<longleftrightarrow>
     call_type P Impl ''isOpen'' [] = Some t_bool \<and>
     call_type P Impl ''getSocket'' [] = Some t_int \<and>
     call_type P Impl ''isDnsFinished'' [] = Some t_bool \<and>
     call_type P Impl ''setDnsFinished'' [t_bool] = Some t_void \<and>
     call_type P Impl ''getLastActive'' [] = Some t_time_point \<and>
     call_type P Impl ''setLastActive'' [t_time_point] = Some t_void \<and>
     call_type P Impl ''setLastActive'' [] = Some t_void"

definition type_IS_SERVER :: "unit_decl \<Rightarrow> ctype \<Rightarrow> bool option" where
  "type_IS_SERVER P T = (case T of Named C \<Rightarrow> static_IS_SERVER P C | _ \<Rightarrow> None)"

definition ManagedClient :: "unit_decl \<Rightarrow> ctype \<Rightarrow> bool" where
  "ManagedClient P Impl \<longleftrightarrow> ManagedConnection P Impl \<and>
     type_IS_SERVER P Impl = Some False \<and>
     call_type P Impl ''_sockIsWriteable'' [] = Some t_bool \<and>
     call_type P Impl ''_sockIsReadable'' [] = Some t_void \<and>
     call_type P Impl ''_sockDelayedConnect'' [] = Some t_void \<and>
     call_type P Impl ''_sockPoll'' [] = Some t_void \<and>
     call_type P Impl ''_processingDone'' [] = Some t_void \<and>
     call_type P Impl ''_pendingWrite'' [] = Some t_bool"

definition ManagedServer :: "unit_decl \<Rightarrow> ctype \<Rightarrow> bool" where
  "ManagedServer P Impl \<longleftrightarrow> ManagedConnection P Impl \<and>
     type_IS_SERVER P Impl = Some True \<and>
     call_type P Impl ''_sockIsReadable'' [] = Some t_void"

section \<open>Variants of pointers\<close>

fun is_pointer :: "ctype \<Rightarrow> bool" where
  "is_pointer (Pointer T) = True"
| "is_pointer T = False"

fun remove_pointer :: "ctype \<Rightarrow> ctype" where
  "remove_pointer (Pointer T) = T"
| "remove_pointer T = T"

fun isVariantOfClientPointers :: "unit_decl \<Rightarrow> ctype \<Rightarrow> bool" where
  "isVariantOfClientPointers P (Variant Elements) \<longleftrightarrow>
     list_all is_pointer Elements \<and> list_all (\<lambda>T. ManagedClient P (remove_pointer T)) Elements"
| "isVariantOfClientPointers P T \<longleftrightarrow> False"

fun isVariantOfServerPointers :: "unit_decl \<Rightarrow> ctype \<Rightarrow> bool" where
  "isVariantOfServerPointers P (Variant Elements) \<longleftrightarrow>
     list_all is_pointer Elements \<and> list_all (\<lambda>T. ManagedServer P (remove_pointer T)) Elements"
| "isVariantOfServerPointers P T \<longleftrightarrow> False"

definition ClientVariantType :: "unit_decl \<Rightarrow> ctype \<Rightarrow> bool" where
  "ClientVariantType P V = isVariantOfClientPointers P V"

definition ServerVariantType :: "unit_decl \<Rightarrow> ctype \<Rightarrow> bool" where
  "ServerVariantType P V = isVariantOfServerPointers P V"

section \<open>The classes of the library\<close>

abbreviation "t_size \<equiv> Named ''std::size_t''"
abbreviation "t_port \<equiv> Named ''std::uint16_t''"
abbreviation "t_IPAddress \<equiv> Named ''IPAddress''"
abbreviation "t_bytes \<equiv> Pointer (Named ''const std::uint8_t'')"
abbreviation "t_chars \<equiv> Pointer (Named ''const char'')"
abbreviation "t_span \<equiv> Named ''std::span<const std::uint8_t>''"
abbreviation "t_flags \<equiv> Named ''ClientApiFlags''"
abbreviation "t_arg \<equiv> Pointer (Named ''void'')"
abbreviation "t_lock \<equiv> Named ''std::unique_lock<std::mutex>&''"
abbreviation "t_duration \<equiv> Named ''std::optional<steady_clock::duration>''"

definition SocketConnection_members :: "member list" where
  "SocketConnection_members =
     [fn Public t_bool ''isOpen'' [],
      fn Public t_int ''getSocket'' [],
      fn Public t_bool ''isDnsFinished'' [],
      fn Public t_void ''setDnsFinished'' [t_bool],
      fn Public t_time_point ''getLastActive'' [],
      fn_default Public t_void ''setLastActive'' [t_time_point] 1,
      fn Protected t_void ''_configureSocket'' [t_int]]"

definition ClientBase_api :: "member list" where
  "ClientBase_api =
     [fn Public t_void ''dnsFoundCallback'' [t_chars, Pointer (Named ''const ip_addr_t''), t_arg],
      fn Public t_bool ''connect'' [t_IPAddress, t_port],
      fn Public t_bool ''connect'' [t_chars, t_port],
      fn_default Public t_void ''close'' [t_bool] 1,
      fn Public (Named ''err_enum_t'') ''abort'' [],
      fn Public t_bool ''freeable'' [],
      fn Public t_bool ''connected'' [],
      fn Public t_bool ''canSend'' [],
      fn Public t_size ''space'' [],
      fn_default Public t_size ''add'' [t_span, t_flags] 1,
      fn_default Public t_size ''add'' [t_bytes, t_size, t_flags] 1,
      fn_default Public t_size ''add'' [t_chars, t_size, t_flags] 2,
      fn Public t_bool ''send'' [],
      fn_default Public t_size ''write'' [t_chars, t_size, t_flags] 2,
      fn_default Public t_size ''write'' [t_bytes, t_size, t_flags] 1,
      fn Public t_void ''setNoDelay'' [t_bool],
      fn Public t_bool ''getNoDelay'' [],
      fn Public t_void ''setAckTimeout'' [t_duration],
      fn Public t_void ''setRxTimeout'' [t_duration]]"

definition ClientBase_internal :: "member list" where
  "ClientBase_internal =
     [fn Protected t_void ''_close'' [],
      fn Protected t_void ''_error'' [t_int],
      fn Protected t_bool ''_processWriteQueue'' [t_lock],
      fn Protected t_void ''_cleanupWriteQueue'' [t_lock],
      fn Protected t_void ''_clearWriteQueue'' [],
      fn Protected t_bool ''_checkAckTimeout'' [],
      fn Protected t_bool ''_checkRxTimeout'' [],
      fn Public t_bool ''_pendingWrite'' [],
      fn Public t_bool ''_sockIsWriteable'' [],
      fn Public t_void ''_sockIsReadable'' [],
      fn Public t_void ''_sockDelayedConnect'' [],
      fn Public t_void ''_sockPoll'' [],
      fn Public t_void ''_processingDone'' []]"

text \<open>The handlers are named after the type of their function object.\<close>

definition Client_members :: "member list" where
  "Client_members =
     [fn Public t_chars ''errorToString'' [Named ''int8_t''],
      fn Public t_IPAddress ''remoteIP'' [],
      fn Public t_port ''remotePort'' [],
      fn Public t_IPAddress ''localIP'' [],
      fn Public t_port ''localPort'' [],
      fn_default Public t_void ''onConnect'' [Named ''ConnectHandler'', t_arg] 1,
      fn_default Public t_void ''onDisconnect'' [Named ''DisconnectHandler'', t_arg] 1,
      fn_default Public t_void ''onPoll'' [Named ''PollHandler'', t_arg] 1,
      fn_default Public t_void ''onAck'' [Named ''SentHandler'', t_arg] 1,
      fn_default Public t_void ''onData'' [Named ''RecvHandler'', t_arg] 1,
      fn_default Public t_void ''onError'' [Named ''ErrorHandler'', t_arg] 1,
      fn_default Public t_void ''onTimeout'' [Named ''TimeoutHandler'', t_arg] 1,
      fn Public t_size ''ack'' [t_size],
      fn Public t_void ''ackLater'' []]"

definition Server_members :: "member list" where
  "Server_members =
     [fn Public t_void ''begin'' [],
      fn Public t_void ''end'' [],
      fn_default Public t_void ''onClient'' [Named ''AcceptHandler'', t_arg] 1,
      fn Public t_void ''setNoDelay'' [t_bool],
      fn Public t_void ''_sockIsReadable'' []]"

text \<open>\<open>class SslClient : public Client {\<close> is followed by no \<open>public:\<close>.\<close>

definition SslClient_members :: "member list" where
  "SslClient_members =
     [fn Private t_bool ''connect'' [t_IPAddress, t_port],
      fn Private t_bool ''connect'' [t_chars, t_port],
      fn Private t_void ''setRootCa'' [t_chars, t_size],
      fn Private t_void ''setClientCert'' [t_chars, t_size],
      fn Private t_void ''setClientKey'' [t_chars, t_size],
      fn Private t_void ''setPsk'' [t_chars, t_chars],
      fn Protected t_int ''_runSSLHandshakeLoop'' [],
      fn Protected t_void ''_close'' [],
      fn Protected t_bool ''_processWriteQueue'' [t_lock],
      fn Protected t_bool ''_sockIsWriteable'' [],
      fn Protected t_void ''_sockIsReadable'' []]"

definition library :: unit_decl where
  "library =
     [(''SslClient'', \<lparr>base = Some ''Client'', IS_SERVER = None, members = SslClient_members\<rparr>),
      (''Server'', \<lparr>base = Some ''SocketConnection'', IS_SERVER = Some True, members = Server_members\<rparr>),
      (''Client'', \<lparr>base = Some ''ClientBase<Client>'', IS_SERVER = Some False, members = Client_members\<rparr>),
      (''ClientBase<Client>'', \<lparr>base = Some ''SocketConnection'', IS_SERVER = None,
          members = ClientBase_api @ ClientBase_internal\<rparr>),
      (''SocketConnection'', \<lparr>base = None, IS_SERVER = None, members = SocketConnection_members\<rparr>)]"

text \<open>\<open>AsyncTCP.h\<close>: the assertions, and the variants the manager is instantiated with.\<close>

definition static_asserts :: "unit_decl \<Rightarrow> bool" where
  "static_asserts P \<longleftrightarrow> ManagedClient P (Named ''Client'') \<and> ManagedServer P (Named ''Server'')"

definition client_variant :: ctype where
  "client_variant = Variant [Pointer (Named ''Client'')]"

definition server_variant :: ctype where
  "server_variant = Variant [Pointer (Named ''Server'')]"

end
