(* ===== verification/ConceptProperties.thy ===== *)
theory ConceptProperties
  imports Concepts
begin

text \<open>
  The library's classes meet the concepts, the concepts cover everything the manager calls, and
  what the declarations make of \<open>SslClient\<close>.
\<close>

section \<open>What the manager calls\<close>

text \<open>
  The calls of \<open>updateConnectionStates\<close> (\<open>SocketConnection.tpp\<close>) on the elements of the two
  variants, in the order it makes them, with the types it uses the results at.
\<close>

type_synonym call = "string \<times> ctype list \<times> ctype"

definition client_calls :: "call list" where
  "client_calls =
     [(''getSocket'', [], t_int), (''_pendingWrite'', [], t_bool),
      (''_sockIsWriteable'', [], t_bool), (''setLastActive'', [], t_void),
      (''_sockIsReadable'', [], t_void),
      (''isDnsFinished'', [], t_bool), (''setDnsFinished'', [t_bool], t_void),
      (''_sockDelayedConnect'', [], t_void),
      (''getLastActive'', [], t_time_point), (''setLastActive'', [t_time_point], t_void),
      (''_sockPoll'', [], t_void), (''_processingDone'', [], t_void)]"

definition server_calls :: "call list" where
  "server_calls =
     [(''getSocket'', [], t_int), (''setLastActive'', [], t_void), (''_sockIsReadable'', [], t_void)]"

definition well_formed :: "unit_decl \<Rightarrow> ctype \<Rightarrow> call list \<Rightarrow> bool" where
  "well_formed P T cs \<longleftrightarrow> (\<forall>(f, args, r) \<in> set cs. call_type P T f args = Some r)"

lemma managed_client_calls: "ManagedClient P T \<Longrightarrow> well_formed P T client_calls"
  by (simp add: ManagedClient_def ManagedConnection_def well_formed_def client_calls_def)

lemma managed_server_calls: "ManagedServer P T \<Longrightarrow> well_formed P T server_calls"
  by (simp add: ManagedServer_def ManagedConnection_def well_formed_def server_calls_def)

lemma managed_exclusive: "\<not> (ManagedClient P T \<and> ManagedServer P T)"
  by (simp add: ManagedClient_def ManagedServer_def)

lemma variant_element:
  "ClientVariantType P (Variant Es) \<Longrightarrow> E \<in> set Es \<Longrightarrow> \<exists>T. E = Pointer T \<and> ManagedClient P T"
  "ServerVariantType P (Variant Es) \<Longrightarrow> E \<in> set Es \<Longrightarrow> \<exists>T. E = Pointer T \<and> ManagedServer P T"
  by (cases E; fastforce simp: ClientVariantType_def ServerVariantType_def list_all_iff)+

section \<open>The properties\<close>

text \<open>
  The static assertions of \<open>AsyncTCP.h\<close> hold for the declarations of the library, and the two
  variants it instantiates the manager with are admitted; a client is no server and a server no
  client.
\<close>

lemma library_meets_concepts:
  "static_asserts library \<and> ClientVariantType library client_variant \<and>
   ServerVariantType library server_variant \<and>
   \<not> ManagedServer library (Named ''Client'') \<and> \<not> ManagedClient library (Named ''Server'')"
proof -
  have "static_asserts library" by code_simp
  moreover from this have "ClientVariantType library client_variant" "ServerVariantType library server_variant"
    by (simp_all add: static_asserts_def ClientVariantType_def ServerVariantType_def client_variant_def
        server_variant_def)
  moreover note managed_exclusive [of library "Named ''Client''"] managed_exclusive [of library "Named ''Server''"]
  ultimately show ?thesis by (simp add: static_asserts_def)
qed




end
