(* ===== verification/TLS_Context.thy ===== *)
theory TLS_Context
  imports Lwip
begin

text \<open>
  \<open>src/src/AsyncTCP_TLS_Context.h\<close> and \<open>.cpp\<close>: the TLS session of one connection, over
  mbedTLS, which is a parameter (record \<open>tls_os\<close>). What the code must get right is the
  life cycle of mbedTLS's objects, so each is a \<open>tls_obj\<close>: raw memory, initialised, or freed;
  freeing one that is not initialised sets the flag \<open>bad_free\<close>, which is not part of the code.
  The settings of \<open>ssl_conf\<close> that decide what is verified are fields of the model.
\<close>

section \<open>mbedTLS\<close>

record 'w tls_os =
  WANT_READ :: int
  WANT_WRITE :: int
  PSK_MAX_LEN :: nat
  lwip_setsockopt :: "int \<Rightarrow> sockopt \<Rightarrow> 'w \<Rightarrow> int \<times> 'w"
  ctr_drbg_seed :: "'w \<Rightarrow> int \<times> 'w"
  ssl_config_defaults :: "'w \<Rightarrow> int \<times> 'w"
  x509_crt_parse :: "byte list \<Rightarrow> 'w \<Rightarrow> int \<times> 'w"
  pk_parse_key :: "byte list \<Rightarrow> 'w \<Rightarrow> int \<times> 'w"
  ssl_conf_psk :: "byte list \<Rightarrow> byte list \<Rightarrow> 'w \<Rightarrow> int \<times> 'w"
  ssl_set_hostname :: "byte list \<Rightarrow> 'w \<Rightarrow> int \<times> 'w"
  ssl_setup :: "'w \<Rightarrow> int \<times> 'w"
  ssl_handshake :: "'w \<Rightarrow> int \<times> 'w"
  ssl_get_record_expansion :: "'w \<Rightarrow> int"
  ssl_get_verify_result :: "'w \<Rightarrow> int"
  ssl_write :: "byte list \<Rightarrow> 'w \<Rightarrow> int \<times> 'w"
  ssl_read :: "size_t \<Rightarrow> 'w \<Rightarrow> (int \<times> byte list) \<times> 'w"
  millis :: "'w \<Rightarrow> u32 \<times> 'w"

datatype tls_obj = Raw | Init | Freed

datatype tls_authmode = AUTH_DEFAULT | VERIFY_NONE | VERIFY_REQUIRED

section \<open>State\<close>

record AsyncTCP_TLS_Context =
  ssl_ctx :: tls_obj
  ssl_conf :: tls_obj
  drbg_ctx :: tls_obj
  entropy_ctx :: tls_obj
  ca_cert :: tls_obj
  client_cert :: tls_obj
  client_key :: tls_obj
  have_ca_cert :: bool
  have_client_cert :: bool
  have_client_key :: bool
  handshake_timeout :: u32
  handshake_start_time :: u32
  tls_socket :: int
  authmode :: tls_authmode
  ca_chain :: bool
  own_cert :: bool
  bad_free :: bool

text \<open>
  The constructor. \<open>start_time\<close> is what the memory of \<open>handshake_start_time\<close> happens to hold:
  the constructor does not set it.
\<close>

definition TLS_new :: "u32 \<Rightarrow> AsyncTCP_TLS_Context" where
  "TLS_new start_time =
     \<lparr>ssl_ctx = Init, ssl_conf = Init, drbg_ctx = Init, entropy_ctx = Raw,
      ca_cert = Raw, client_cert = Raw, client_key = Raw,
      have_ca_cert = False, have_client_cert = False, have_client_key = False,
      handshake_timeout = 120000, handshake_start_time = start_time, tls_socket = -1,
      authmode = AUTH_DEFAULT, ca_chain = False, own_cert = False, bad_free = False\<rparr>"

text \<open>\<open>_handle_error\<close> logs the error and returns it.\<close>

definition handle_error :: "int \<Rightarrow> int" where
  "handle_error err = err"

definition deleteHandshakeCerts :: "AsyncTCP_TLS_Context \<Rightarrow> AsyncTCP_TLS_Context" where
  "deleteHandshakeCerts c =
     (let c1 = (if have_ca_cert c
                then c\<lparr>bad_free := bad_free c \<or> ca_cert c \<noteq> Init, ca_cert := Freed,
                       have_ca_cert := False\<rparr>
                else c);
          c2 = (if have_client_cert c1
                then c1\<lparr>bad_free := bad_free c1 \<or> client_cert c1 \<noteq> Init, client_cert := Freed,
                        have_client_cert := False\<rparr>
                else c1)
      in if have_client_key c2
         then c2\<lparr>bad_free := bad_free c2 \<or> client_key c2 \<noteq> Init, client_key := Freed,
                 have_client_key := False\<rparr>
         else c2)"

text \<open>The destructor: the certificates, then the four long-lived objects.\<close>

definition TLS_delete :: "AsyncTCP_TLS_Context \<Rightarrow> AsyncTCP_TLS_Context" where
  "TLS_delete c =
     (let c1 = deleteHandshakeCerts c
      in c1\<lparr>bad_free := bad_free c1 \<or> ssl_ctx c1 \<noteq> Init \<or> ssl_conf c1 \<noteq> Init \<or>
              drbg_ctx c1 \<noteq> Init \<or> entropy_ctx c1 \<noteq> Init,
            ssl_ctx := Freed, ssl_conf := Freed, drbg_ctx := Freed, entropy_ctx := Freed\<rparr>)"

section \<open>The pre-shared key\<close>

text \<open>One hexadecimal digit, as the \<open>if\<close> chains read it.\<close>

definition hex_digit :: "byte \<Rightarrow> byte option" where
  "hex_digit c =
     (if 48 \<le> c \<and> c \<le> 57 then Some (c - 48)
      else if 65 \<le> c \<and> c \<le> 70 then Some (c - (65 - 10))
      else if 97 \<le> c \<and> c \<le> 102 then Some (c - (97 - 10))
      else None)"

fun psk_loop :: "byte list \<Rightarrow> byte list option" where
  "psk_loop [] = Some []"
| "psk_loop [c] = None"
| "psk_loop (c1 # c2 # cs) =
     (case hex_digit c1 of
        None \<Rightarrow> None
      | Some hi \<Rightarrow>
          (case hex_digit c2 of
             None \<Rightarrow> None
           | Some lo \<Rightarrow> map_option (\<lambda>bs. or (push_bit 4 hi) lo # bs) (psk_loop cs)))"

definition psk_decode :: "nat \<Rightarrow> byte list \<Rightarrow> byte list option" where
  "psk_decode max_len key =
     (if odd (length key) \<or> 2 * max_len < length key then None else psk_loop key)"

section \<open>Starting a session\<close>

text \<open>
  A stage of \<open>_startSSLClient\<close> either makes the function return (\<open>Inl\<close>: its result, with the
  state) or goes on (\<open>Inr\<close>).
\<close>

type_synonym 'w stage = "(int \<times> AsyncTCP_TLS_Context \<times> 'w) + (AsyncTCP_TLS_Context \<times> 'w)"

fun next_stage :: "'w stage \<Rightarrow> (AsyncTCP_TLS_Context \<Rightarrow> 'w \<Rightarrow> 'w stage) \<Rightarrow> 'w stage" where
  "next_stage (Inl r) f = Inl r"
| "next_stage (Inr (c, w)) f = f c w"

definition start_setup ::
  "'w tls_os \<Rightarrow> int \<Rightarrow> AsyncTCP_TLS_Context \<Rightarrow> 'w \<Rightarrow> 'w stage"
where
  "start_setup ts sck c w =
     (let (r1, w1) = lwip_setsockopt ts sck (TCP_NODELAY 1) w
      in if r1 < 0 then Inl (-1, c, w1)
         else
           let (r2, w2) = lwip_setsockopt ts sck (SO_KEEPALIVE 1) w1
           in if r2 < 0 then Inl (-1, c, w2)
              else
                let c1 = c\<lparr>entropy_ctx := Init\<rparr>;
                    (ret, w3) = ctr_drbg_seed ts w2
                in if ret < 0 then Inl (handle_error ret, c1, w3)
                   else
                     let (ret, w4) = ssl_config_defaults ts w3
                     in if ret \<noteq> 0 then Inl (handle_error ret, c1, w4) else Inr (c1, w4))"

definition start_auth ::
  "'w tls_os \<Rightarrow> byte list option \<Rightarrow> byte list option \<Rightarrow> byte list option \<Rightarrow> bool \<Rightarrow>
     AsyncTCP_TLS_Context \<Rightarrow> 'w \<Rightarrow> 'w stage"
where
  "start_auth ts rootCA pskIdent psKey insecure c w =
     (if insecure then Inr (c\<lparr>authmode := VERIFY_NONE\<rparr>, w)
      else
        case rootCA of
          Some ca \<Rightarrow>
            let c1 = c\<lparr>ca_cert := Init, authmode := VERIFY_REQUIRED\<rparr>;
                (ret, w1) = x509_crt_parse ts ca w;
                c2 = c1\<lparr>have_ca_cert := True, ca_chain := True\<rparr>
            in if ret < 0 then Inl (handle_error ret, deleteHandshakeCerts c2, w1)
               else Inr (c2, w1)
        | None \<Rightarrow>
            (case (pskIdent, psKey) of
               (Some ident, Some key) \<Rightarrow>
                 (case psk_decode (PSK_MAX_LEN ts) key of
                    None \<Rightarrow> Inl (-1, c, w)
                  | Some psk \<Rightarrow>
                      let (ret, w1) = ssl_conf_psk ts psk ident w
                      in if ret \<noteq> 0 then Inl (handle_error ret, c, w1) else Inr (c, w1))
             | _ \<Rightarrow> Inl (-1, c, w)))"

definition start_own_cert ::
  "'w tls_os \<Rightarrow> byte list option \<Rightarrow> byte list option \<Rightarrow> bool \<Rightarrow>
     AsyncTCP_TLS_Context \<Rightarrow> 'w \<Rightarrow> 'w stage"
where
  "start_own_cert ts cli_cert cli_key insecure c w =
     (case (cli_cert, cli_key) of
        (Some cert, Some key) \<Rightarrow>
          if insecure then Inr (c, w)
          else
            let c1 = c\<lparr>client_cert := Init, client_key := Init\<rparr>;
                (ret, w1) = x509_crt_parse ts cert w;
                c2 = c1\<lparr>have_client_cert := True\<rparr>
            in if ret < 0 then Inl (handle_error ret, deleteHandshakeCerts c2, w1)
               else
                 let (ret, w2) = pk_parse_key ts key w1;
                     c3 = c2\<lparr>have_client_key := True\<rparr>
                 in if ret \<noteq> 0 then Inl (handle_error ret, deleteHandshakeCerts c3, w2)
                    else Inr (c3\<lparr>own_cert := True\<rparr>, w2)
      | _ \<Rightarrow> Inr (c, w))"

definition start_finish ::
  "'w tls_os \<Rightarrow> int \<Rightarrow> byte list \<Rightarrow> AsyncTCP_TLS_Context \<Rightarrow> 'w \<Rightarrow> 'w stage"
where
  "start_finish ts sck host_or_ip c w =
     (let (ret, w1) = ssl_set_hostname ts host_or_ip w
      in if ret \<noteq> 0 then Inl (handle_error ret, deleteHandshakeCerts c, w1)
         else
           let (ret, w2) = ssl_setup ts w1
           in if ret \<noteq> 0 then Inl (handle_error ret, deleteHandshakeCerts c, w2)
              else Inr (c\<lparr>tls_socket := sck, handshake_start_time := 0\<rparr>, w2))"

text \<open>\<open>_startSSLClient\<close>. A null pointer is \<open>None\<close>; a buffer comes with its length.\<close>

definition startSSLClient_full ::
  "'w tls_os \<Rightarrow> int \<Rightarrow> byte list \<Rightarrow> byte list option \<Rightarrow> byte list option \<Rightarrow>
     byte list option \<Rightarrow> byte list option \<Rightarrow> byte list option \<Rightarrow> bool \<Rightarrow>
     AsyncTCP_TLS_Context \<Rightarrow> 'w \<Rightarrow> int \<times> AsyncTCP_TLS_Context \<times> 'w"
where
  "startSSLClient_full ts sck host rootCA cli_cert cli_key pskIdent psKey insecure c w =
     (if rootCA = None \<and> pskIdent = None \<and> psKey = None \<and> \<not> insecure then (-1, c, w)
      else
        case next_stage (start_setup ts sck c w) (\<lambda>c1 w1.
             next_stage (start_auth ts rootCA pskIdent psKey insecure c1 w1) (\<lambda>c2 w2.
             next_stage (start_own_cert ts cli_cert cli_key insecure c2 w2) (\<lambda>c3 w3.
             start_finish ts sck host c3 w3))) of
          Inl r \<Rightarrow> r
        | Inr (c4, w4) \<Rightarrow> (0, c4, w4))"

definition startSSLClientInsecure ::
  "'w tls_os \<Rightarrow> int \<Rightarrow> byte list \<Rightarrow> AsyncTCP_TLS_Context \<Rightarrow> 'w \<Rightarrow>
     int \<times> AsyncTCP_TLS_Context \<times> 'w"
where
  "startSSLClientInsecure ts sck host =
     startSSLClient_full ts sck host None None None None None True"

definition startSSLClient_psk ::
  "'w tls_os \<Rightarrow> int \<Rightarrow> byte list \<Rightarrow> byte list option \<Rightarrow> byte list option \<Rightarrow>
     AsyncTCP_TLS_Context \<Rightarrow> 'w \<Rightarrow> int \<times> AsyncTCP_TLS_Context \<times> 'w"
where
  "startSSLClient_psk ts sck host pskIdent psKey =
     startSSLClient_full ts sck host None None None pskIdent psKey False"

definition startSSLClient ::
  "'w tls_os \<Rightarrow> int \<Rightarrow> byte list \<Rightarrow> byte list option \<Rightarrow> byte list option \<Rightarrow>
     byte list option \<Rightarrow> AsyncTCP_TLS_Context \<Rightarrow> 'w \<Rightarrow> int \<times> AsyncTCP_TLS_Context \<times> 'w"
where
  "startSSLClient ts sck host rootCA cli_cert cli_key =
     startSSLClient_full ts sck host rootCA cli_cert cli_key None None False"

text \<open>The variant for C strings passes each with its terminating zero.\<close>

definition startSSLClient_str ::
  "'w tls_os \<Rightarrow> int \<Rightarrow> byte list \<Rightarrow> byte list option \<Rightarrow> byte list option \<Rightarrow>
     byte list option \<Rightarrow> AsyncTCP_TLS_Context \<Rightarrow> 'w \<Rightarrow> int \<times> AsyncTCP_TLS_Context \<times> 'w"
where
  "startSSLClient_str ts sck host rootCA cli_cert cli_key =
     startSSLClient ts sck host (map_option (\<lambda>s. s @ [0]) rootCA)
       (map_option (\<lambda>s. s @ [0]) cli_cert) (map_option (\<lambda>s. s @ [0]) cli_key)"

section \<open>The handshake and the data\<close>

definition runSSLHandshake ::
  "'w tls_os \<Rightarrow> AsyncTCP_TLS_Context \<Rightarrow> 'w \<Rightarrow> int \<times> AsyncTCP_TLS_Context \<times> 'w"
where
  "runSSLHandshake ts c w =
     (if tls_socket c < 0 then (-1, c, w)
      else
        let (c1, w1) =
              (if handshake_start_time c = 0
               then let (t, w') = millis ts w in (c\<lparr>handshake_start_time := t\<rparr>, w')
               else (c, w));
            (ret, w2) = ssl_handshake ts w1
        in if ret \<noteq> 0 then
             if ret \<noteq> WANT_READ ts \<and> ret \<noteq> WANT_WRITE ts then (handle_error ret, c1, w2)
             else
               let (now, w3) = millis ts w2
               in if handshake_timeout c1 < now - handshake_start_time c1 then (-1, c1, w3)
                  else (ret, c1, w3)
           else
             let ret1 = (if have_client_cert c1 \<and> have_client_key c1
                         then ssl_get_record_expansion ts w2 else ret)
             in if ssl_get_verify_result ts w2 \<noteq> 0
                then (handle_error ret1, deleteHandshakeCerts c1, w2)
                else (0, deleteHandshakeCerts c1, w2))"

definition tls_write ::
  "'w tls_os \<Rightarrow> byte list \<Rightarrow> AsyncTCP_TLS_Context \<Rightarrow> 'w \<Rightarrow> int \<times> 'w"
where
  "tls_write ts data c w =
     (if tls_socket c < 0 then (-1, w)
      else
        let (ret, w1) = ssl_write ts data w
        in if ret \<noteq> WANT_READ ts \<and> ret \<noteq> WANT_WRITE ts \<and> ret < 0 then (handle_error ret, w1)
           else (ret, w1))"

definition tls_read ::
  "'w tls_os \<Rightarrow> size_t \<Rightarrow> AsyncTCP_TLS_Context \<Rightarrow> 'w \<Rightarrow> (int \<times> byte list) \<times> 'w"
where
  "tls_read ts len c w =
     (let ((ret, data), w1) = ssl_read ts len w
      in if ret \<noteq> WANT_READ ts \<and> ret \<noteq> WANT_WRITE ts \<and> ret < 0
         then ((handle_error ret, data), w1)
         else ((ret, data), w1))"

end
