(* ===== verification/TLSProperties.thy ===== *)
theory TLSProperties
  imports TLS_Context
begin

text \<open>
  What the TLS session promises: certificates are freed exactly when they are held, a failed
  start leaves none behind, the verification mode matches what was asked for, the pre-shared
  key is decoded faithfully, and the handshake's time limit survives the wrap of the
  millisecond counter; and where it reports success although verification failed.
\<close>

section \<open>A sample mbedTLS\<close>

text \<open>Every call succeeds, except for the results given.\<close>

definition sample_tls :: "int \<Rightarrow> int \<Rightarrow> int \<Rightarrow> (u32) tls_os" where
  "sample_tls key_result handshake_result verify_result =
     \<lparr>WANT_READ = -26880, WANT_WRITE = -26752, PSK_MAX_LEN = 32,
      lwip_setsockopt = (\<lambda>fd opt w. (0, w)), ctr_drbg_seed = (\<lambda>w. (0, w)),
      ssl_config_defaults = (\<lambda>w. (0, w)), x509_crt_parse = (\<lambda>bs w. (0, w)),
      pk_parse_key = (\<lambda>bs w. (key_result, w)), ssl_conf_psk = (\<lambda>k i w. (0, w)),
      ssl_set_hostname = (\<lambda>h w. (0, w)), ssl_setup = (\<lambda>w. (0, w)),
      ssl_handshake = (\<lambda>w. (handshake_result, w)), ssl_get_record_expansion = (\<lambda>w. 29),
      ssl_get_verify_result = (\<lambda>w. verify_result),
      ssl_write = (\<lambda>bs w. (int (length bs), w)), ssl_read = (\<lambda>n w. ((0, []), w)),
      millis = (\<lambda>w. (w, w))\<rparr>"

section \<open>Certificates\<close>

text \<open>The flags say which certificates are held; the key is initialised before it is.\<close>

definition certs_ok :: "AsyncTCP_TLS_Context \<Rightarrow> bool" where
  "certs_ok c \<longleftrightarrow> \<not> bad_free c \<and> (have_ca_cert c \<longleftrightarrow> ca_cert c = Init) \<and>
     (have_client_cert c \<longleftrightarrow> client_cert c = Init) \<and> (have_client_key c \<longrightarrow> client_key c = Init)"

definition no_certs :: "AsyncTCP_TLS_Context \<Rightarrow> bool" where
  "no_certs c \<longleftrightarrow> \<not> bad_free c \<and> \<not> have_ca_cert c \<and> \<not> have_client_cert c \<and>
     \<not> have_client_key c \<and> ca_cert c \<noteq> Init \<and> client_cert c \<noteq> Init"

lemma delete_certs: "certs_ok c \<Longrightarrow> no_certs (deleteHandshakeCerts c)"
  by (auto simp: certs_ok_def no_certs_def deleteHandshakeCerts_def Let_def)

lemma no_certs_ok: "no_certs c \<Longrightarrow> certs_ok c"
  by (simp add: certs_ok_def no_certs_def)

definition stage_keeps ::
  "(AsyncTCP_TLS_Context \<Rightarrow> bool) \<Rightarrow> 'w stage \<Rightarrow> bool"
where
  "stage_keeps P r =
     (case r of Inl (ret, c, w) \<Rightarrow> ret \<noteq> 0 \<and> no_certs c | Inr (c, w) \<Rightarrow> P c)"

lemma stage_keeps_simps [simp]:
  "stage_keeps P (Inl (ret, c, w)) \<longleftrightarrow> ret \<noteq> 0 \<and> no_certs c"
  "stage_keeps P (Inr (c, w)) \<longleftrightarrow> P c"
  by (simp_all add: stage_keeps_def)

lemma next_stage_keeps:
  assumes "stage_keeps P r" and "\<And>c w. P c \<Longrightarrow> stage_keeps Q (f c w)"
  shows "stage_keeps Q (next_stage r f)"
  using assms by (cases "(r, f)" rule: next_stage.cases) auto

lemma start_setup_keeps: "no_certs c \<Longrightarrow> stage_keeps no_certs (start_setup ts sck c w)"
  by (auto simp: start_setup_def handle_error_def no_certs_def Let_def split: prod.splits)

text \<open>After authentication is set up: what is held, and how strictly the peer is verified.\<close>

definition auth_done :: "byte list option \<Rightarrow> bool \<Rightarrow> AsyncTCP_TLS_Context \<Rightarrow> bool" where
  "auth_done rootCA insecure c \<longleftrightarrow>
     certs_ok c \<and> \<not> have_client_cert c \<and> \<not> have_client_key c \<and>
     (authmode c = VERIFY_NONE \<longleftrightarrow> insecure) \<and>
     (rootCA \<noteq> None \<and> \<not> insecure \<longrightarrow> authmode c = VERIFY_REQUIRED \<and> ca_chain c \<and> have_ca_cert c)"

lemma start_auth_keeps:
  assumes "no_certs c" and "authmode c \<noteq> VERIFY_NONE"
  shows "stage_keeps (auth_done rootCA insecure) (start_auth ts rootCA pskIdent psKey insecure c w)"
  using assms
  by (auto simp: start_auth_def handle_error_def auth_done_def certs_ok_def no_certs_def Let_def
      deleteHandshakeCerts_def split: prod.splits option.splits)

definition started :: "byte list option \<Rightarrow> bool \<Rightarrow> AsyncTCP_TLS_Context \<Rightarrow> bool" where
  "started rootCA insecure c \<longleftrightarrow>
     certs_ok c \<and> (authmode c = VERIFY_NONE \<longleftrightarrow> insecure) \<and>
     (rootCA \<noteq> None \<and> \<not> insecure \<longrightarrow> authmode c = VERIFY_REQUIRED \<and> ca_chain c \<and> have_ca_cert c)"

lemma start_own_cert_keeps:
  assumes "auth_done rootCA insecure c"
  shows "stage_keeps (started rootCA insecure) (start_own_cert ts cli_cert cli_key insecure c w)"
  using assms
  by (auto simp: start_own_cert_def handle_error_def auth_done_def started_def certs_ok_def
      no_certs_def Let_def deleteHandshakeCerts_def split: prod.splits option.splits)

lemma start_finish_keeps:
  assumes "started rootCA insecure c"
  shows "stage_keeps (started rootCA insecure) (start_finish ts sck host c w)"
  using assms
  by (auto simp: start_finish_def handle_error_def started_def certs_ok_def
      no_certs_def Let_def deleteHandshakeCerts_def split: prod.splits)

lemma start_setup_mode:
  "stage_keeps P (start_setup ts sck c w) \<Longrightarrow>
    stage_keeps (\<lambda>c'. P c' \<and> authmode c' = authmode c) (start_setup ts sck c w)"
  by (auto simp: start_setup_def Let_def split: prod.splits if_splits)

lemma start_outcome:
  assumes "startSSLClient_full ts sck host rootCA cli_cert cli_key pskIdent psKey insecure
    (TLS_new t) w = (ret, c, w')"
  shows "if ret = 0 then started rootCA insecure c else no_certs c"
proof (cases "rootCA = None \<and> pskIdent = None \<and> psKey = None \<and> \<not> insecure")
  case True
  with assms show ?thesis
    by (auto simp: startSSLClient_full_def TLS_new_def no_certs_def)
next
  case False
  have "no_certs (TLS_new t)" by (simp add: TLS_new_def no_certs_def)
  from start_setup_mode [OF start_setup_keeps [OF this, of ts sck w]]
  have "stage_keeps (\<lambda>c. no_certs c \<and> authmode c \<noteq> VERIFY_NONE) (start_setup ts sck (TLS_new t) w)"
    by (cases "start_setup ts sck (TLS_new t) w") (auto simp: TLS_new_def stage_keeps_def)
  then have "stage_keeps (started rootCA insecure)
      (next_stage (start_setup ts sck (TLS_new t) w) (\<lambda>c1 w1.
         next_stage (start_auth ts rootCA pskIdent psKey insecure c1 w1) (\<lambda>c2 w2.
         next_stage (start_own_cert ts cli_cert cli_key insecure c2 w2) (\<lambda>c3 w3.
         start_finish ts sck host c3 w3))))" (is "stage_keeps _ ?r")
    by (rule next_stage_keeps)
      (auto intro: next_stage_keeps [OF start_auth_keeps] next_stage_keeps [OF start_own_cert_keeps]
        start_finish_keeps)
  with assms False show ?thesis
    by (auto simp: startSSLClient_full_def stage_keeps_def split: sum.splits if_splits)
qed

text \<open>
  C25: starting a session on a new context: if it fails, at whatever step, no certificate is left
  behind and nothing uninitialised was freed. If it succeeds, the peer goes unverified exactly
  when the caller asked for an insecure session, and with a root certificate its verification
  is required and the certificate is in place.
\<close>

theorem start_cleans_up_or_verifies:
  assumes "startSSLClient_full ts sck host rootCA cli_cert cli_key pskIdent psKey insecure
    (TLS_new t) w = (ret, c, w')"
  shows "\<not> bad_free c \<and>
    (ret \<noteq> 0 \<longrightarrow> \<not> have_ca_cert c \<and> \<not> have_client_cert c \<and> \<not> have_client_key c \<and>
       ca_cert c \<noteq> Init \<and> client_cert c \<noteq> Init) \<and>
    (ret = 0 \<longrightarrow> (authmode c = VERIFY_NONE \<longleftrightarrow> insecure)) \<and>
    (ret = 0 \<and> rootCA \<noteq> None \<and> \<not> insecure \<longrightarrow>
       authmode c = VERIFY_REQUIRED \<and> ca_chain c \<and> ca_cert c = Init)"
  using start_outcome [OF assms]
  by (auto simp: started_def no_certs_def certs_ok_def split: if_splits)

theorem start_cleans_up_or_verifies_witness:
  "\<exists>c. startSSLClient_full (sample_tls (-15360) 0 0) 50 [104] (Some [1]) (Some [2]) (Some [3])
      None None False (TLS_new 7) 0 = (-15360, c, 0) \<and> \<not> have_ca_cert c \<and> ca_cert c \<noteq> Init"
proof -
  let ?r = "startSSLClient_full (sample_tls (-15360) 0 0) 50 [104] (Some [1]) (Some [2]) (Some [3])
      None None False (TLS_new 7) 0"
  have "fst ?r = -15360 \<and> snd (snd ?r) = 0" by code_simp
  then obtain c where r: "?r = (-15360, c, 0)" by (metis prod.collapse)
  from start_cleans_up_or_verifies [OF r] r show ?thesis by auto
qed

section \<open>The pre-shared key\<close>

text \<open>The digits of a byte, in either case.\<close>

definition hex_char :: "bool \<Rightarrow> byte \<Rightarrow> byte" where
  "hex_char upper d = (if d < 10 then d + 48 else if upper then d + 55 else d + 87)"

definition hex_string :: "bool \<Rightarrow> byte list \<Rightarrow> byte list" where
  "hex_string upper bs =
     concat (map (\<lambda>b. [hex_char upper (drop_bit 4 b), hex_char upper (and b 15)]) bs)"

lemma hex_digit_char:
  assumes "d < 16"
  shows "hex_digit (hex_char upper d) = Some d"
proof -
  have "list_all (\<lambda>d. hex_digit (hex_char True d) = Some d \<and> hex_digit (hex_char False d) = Some d)
      (map of_nat [0..<16])" by code_simp
  moreover have "d \<in> set (map of_nat [0..<16])"
  proof -
    from assms have "unat d < 16" by (simp add: word_less_nat_alt)
    moreover have "d = of_nat (unat d)" by simp
    ultimately show ?thesis by (auto simp del: of_nat_unat)
  qed
  ultimately show ?thesis by (cases upper) (auto simp: list_all_iff simp del: set_map)
qed

lemma nibbles: "or (push_bit 4 (drop_bit 4 b)) (and b 15) = (b :: byte)"
  and nibble_bounds: "drop_bit 4 b < (16 :: byte)" "and b 15 < (16 :: byte)"
proof -
  have m: "and b 15 = take_bit 4 b" by (simp add: take_bit_eq_mask mask_eq_exp_minus_1)
  show "or (push_bit 4 (drop_bit 4 b)) (and b 15) = b"
    unfolding m by (rule bit_word_eqI) (auto simp: bit_simps)
  have "unat b < 2 ^ LENGTH(8)" by (rule unsigned_less)
  then have "unat (drop_bit 4 b) < 16" by (simp add: drop_bit_eq_div unat_div)
  then show "drop_bit 4 b < 16" by (simp add: word_less_nat_alt)
  have "unat (take_bit 4 b) < 16" by (simp add: take_bit_eq_mod unat_mod)
  then show "and b 15 < 16" unfolding m by (simp add: word_less_nat_alt)
qed

lemma psk_loop_hex: "psk_loop (hex_string upper bs) = Some bs"
  by (induction bs) (simp_all add: hex_string_def hex_digit_char nibbles nibble_bounds)

lemma psk_loop_Some:
  "even (length k) \<Longrightarrow> psk_loop k \<noteq> None \<longleftrightarrow> (\<forall>c \<in> set k. hex_digit c \<noteq> None)"
  by (induction k rule: psk_loop.induct) (auto split: option.splits)

text \<open>
  C32: the pre-shared key: writing any key of at most \<open>MBEDTLS_PSK_MAX_LEN\<close> bytes in hexadecimal,
  in either case, and decoding it gives the key back; and the decoder accepts exactly the
  strings of even length, not too long, that consist of hexadecimal digits.
\<close>

theorem psk_roundtrip:
  "(length bs \<le> n \<longrightarrow> psk_decode n (hex_string upper bs) = Some bs) \<and>
   (psk_decode n key \<noteq> None \<longleftrightarrow>
     even (length key) \<and> length key \<le> 2 * n \<and> (\<forall>c \<in> set key. hex_digit c \<noteq> None))"
proof -
  have len: "length (hex_string upper bs) = 2 * length bs"
    by (induction bs) (simp_all add: hex_string_def)
  then have "length bs \<le> n \<longrightarrow> psk_decode n (hex_string upper bs) = Some bs"
    by (simp add: psk_decode_def psk_loop_hex)
  moreover have "psk_decode n key \<noteq> None \<longleftrightarrow>
     even (length key) \<and> length key \<le> 2 * n \<and> (\<forall>c \<in> set key. hex_digit c \<noteq> None)"
    using psk_loop_Some [of key] by (auto simp: psk_decode_def)
  ultimately show ?thesis by blast
qed

theorem psk_roundtrip_witness:
  "psk_decode 32 (hex_string False [1, 171]) = Some [1, 171] \<and> psk_decode 32 [48, 103] = None"
proof -
  have "\<not> (\<forall>c \<in> set [48, 103 :: byte]. hex_digit c \<noteq> None)" by code_simp
  then show ?thesis
    using psk_roundtrip [of "[1, 171]" 32 False "[48, 103]"] by auto
qed

section \<open>The handshake\<close>

text \<open>
  When the handshake completes but the peer's certificate does not verify, the code returns
  the last result it happens to have: 0, which its caller takes for success. The certificates
  are freed all the same.
\<close>

lemma failed_verification_reported_as_success:
  assumes "0 \<le> tls_socket c" and "handshake_start_time c \<noteq> 0" and "ssl_handshake ts w = (0, w1)"
    and "ssl_get_verify_result ts w1 \<noteq> 0" and "\<not> have_client_cert c"
  shows "runSSLHandshake ts c w = (0, deleteHandshakeCerts c, w1)"
  using assms by (simp add: runSSLHandshake_def handle_error_def Let_def)

lemma failed_verification_reported_as_success_example:
  "\<exists>c. runSSLHandshake (sample_tls 0 0 8) ((TLS_new 5)\<lparr>tls_socket := 50\<rparr>) 9 = (0, c, 9)"
  using failed_verification_reported_as_success [of "(TLS_new 5)\<lparr>tls_socket := 50\<rparr>"
      "sample_tls 0 0 8" 9 9]
  by (simp add: TLS_new_def sample_tls_def)

text \<open>
  The time limit of the handshake is exact although the millisecond counter wraps: a
  handshake started at \<open>t\<close> that still waits for the socket \<open>d\<close> milliseconds later is given up
  exactly when \<open>d\<close> exceeds the limit, for every \<open>d\<close> below \<open>2 ^ 32\<close>.
\<close>

lemma handshake_timeout_exact:
  assumes "0 \<le> tls_socket c" and "handshake_start_time c = t" and "t \<noteq> 0"
    and "ssl_handshake ts w = (WANT_READ ts, w1)" and "WANT_READ ts \<noteq> 0" and "WANT_READ ts \<noteq> -1"
    and "millis ts w1 = (t + of_nat d, w2)" and "d < 2 ^ 32"
  shows "(fst (runSSLHandshake ts c w) = -1 \<longleftrightarrow> unat (handshake_timeout c) < d) \<and>
    (d \<le> unat (handshake_timeout c) \<longrightarrow> runSSLHandshake ts c w = (WANT_READ ts, c, w2))"
proof -
  have "unat (t + of_nat d - t) = d" using assms(8) by (simp add: unsigned_of_nat take_bit_nat_eq_self)
  then show ?thesis
    using assms by (auto simp: runSSLHandshake_def Let_def word_less_nat_alt)
qed

lemma handshake_timeout_exact_example:
  "runSSLHandshake (sample_tls 0 (-26880) 0)
     ((TLS_new 4294967000)\<lparr>tls_socket := 50\<rparr>) 704 = (-26880, (TLS_new 4294967000)\<lparr>tls_socket := 50\<rparr>, 704)"
proof -
  have "(4294967000 :: u32) + of_nat 1000 = 704" by simp
  then show ?thesis
    using handshake_timeout_exact [of "(TLS_new 4294967000)\<lparr>tls_socket := 50\<rparr>" 4294967000
        "sample_tls 0 (-26880) 0" 704 704 1000 704]
    by (simp add: TLS_new_def sample_tls_def)
qed

text \<open>
  The destructor frees exactly what is held, except that it always frees the entropy source:
  on a context whose start was refused before the source was initialised it frees raw memory.
\<close>

lemma delete_frees_what_is_held:
  assumes "certs_ok c" and "ssl_ctx c = Init" and "ssl_conf c = Init" and "drbg_ctx c = Init"
  shows "no_certs (deleteHandshakeCerts c) \<and>
    (bad_free (TLS_delete c) \<longleftrightarrow> entropy_ctx c \<noteq> Init) \<and>
    bad_free (TLS_delete (TLS_new t))"
proof -
  have "bad_free (TLS_delete (TLS_new t))"
    by (simp add: TLS_delete_def TLS_new_def deleteHandshakeCerts_def)
  moreover have "bad_free (TLS_delete c) \<longleftrightarrow> entropy_ctx c \<noteq> Init"
    using assms by (auto simp: TLS_delete_def deleteHandshakeCerts_def certs_ok_def Let_def)
  ultimately show ?thesis using delete_certs [OF assms(1)] by simp
qed

lemma delete_frees_what_is_held_example:
  "bad_free (TLS_delete (TLS_new 3)) \<and>
    \<not> bad_free (TLS_delete ((TLS_new 3)\<lparr>entropy_ctx := Init, ca_cert := Init, have_ca_cert := True\<rparr>))"
  using delete_frees_what_is_held
    [of "(TLS_new 3)\<lparr>entropy_ctx := Init, ca_cert := Init, have_ca_cert := True\<rparr>" 3]
  by (simp add: certs_ok_def TLS_new_def)

end
