(* ===== verification/SslClientTLS.thy ===== *)
theory SslClientTLS
  imports TLSProperties Client ClientInvariant
begin

text \<open>
  \<open>SslClient\<close> (\<open>src/src/SslClient.cpp\<close>) as it is written for builds with
  \<open>ASYNC_TCP_SSL_ENABLED\<close>. That branch uses members the class does not declare; each is a field
  of the record below, with the meaning its uses give it, and nothing is assumed of its initial
  value. \<open>_secure\<close> and \<open>_conn_state\<close> are set nowhere in the source, so they are any constants.
  The undeclared \<open>p\<close> and \<open>n\<close> of \<open>_processWriteQueue\<close> are an argument. The TLS session is that of
  theory \<open>TLS_Context\<close>; the class's \<open>_sockIsWriteable\<close> and \<open>_sockIsReadable\<close> are what the
  manager is meant to call on such a client.
\<close>

section \<open>What it is built on\<close>

record ('w, 'ip) ssl_os =
  socks :: "('w, 'ip) os"
  addrs :: "('w, 'ip) sockaddr_os"
  mbed :: "'w tls_os"
  IPAddress_toString :: "'ip \<Rightarrow> string"
  CONN_EOF :: int
  PEER_CLOSE_NOTIFY :: int
  EPIPE :: int
  EIO :: int
  MAX_PAYLOAD_SIZE :: size_t
  errno_now :: "'w \<Rightarrow> int"
  new_context :: "'w \<Rightarrow> u32 option \<times> 'w"

text \<open>
  \<open>new_context\<close> is the allocation of an \<open>AsyncTCP_TLS_Context\<close>: it fails, or yields memory, of
  which the word at \<open>handshake_start_time\<close> matters. The macros of \<open>AsyncTCP_TLS_Context.h\<close>:
\<close>

definition ASYNCTCP_TLS_CAN_RETRY :: "('w, 'ip) ssl_os \<Rightarrow> int \<Rightarrow> bool" where
  "ASYNCTCP_TLS_CAN_RETRY so r \<longleftrightarrow> r = WANT_READ (mbed so) \<or> r = WANT_WRITE (mbed so)"

definition ASYNCTCP_TLS_EOF :: "('w, 'ip) ssl_os \<Rightarrow> int \<Rightarrow> bool" where
  "ASYNCTCP_TLS_EOF so r \<longleftrightarrow> r = CONN_EOF so \<or> r = PEER_CLOSE_NOTIFY so"

section \<open>State\<close>

text \<open>
  A null pointer is \<open>None\<close>, a buffer comes with its length. \<open>raw_free\<close> is not part of the code:
  a context was deleted whose destructor freed something that was not initialised.
\<close>

record 'ip SslClient =
  ssl_base :: "'ip ClientBase"
  ssl_hostname :: string
  ssl_root_ca :: "byte list option"
  ssl_cli_cert :: "byte list option"
  ssl_cli_key :: "byte list option"
  ssl_psk_ident :: "byte list option"
  ssl_psk :: "byte list option"
  ssl_secure :: bool
  ssl_conn_state :: int
  ssl_handshake_done :: bool
  sslctx :: "AsyncTCP_TLS_Context option"
  raw_free :: bool

section \<open>Settings\<close>

definition setRootCa :: "byte list option \<Rightarrow> 'ip SslClient \<Rightarrow> 'ip SslClient" where
  "setRootCa rootca s = s\<lparr>ssl_root_ca := rootca\<rparr>"

definition setClientCert :: "byte list option \<Rightarrow> 'ip SslClient \<Rightarrow> 'ip SslClient" where
  "setClientCert cli_cert s = s\<lparr>ssl_cli_cert := cli_cert\<rparr>"

definition setClientKey :: "byte list option \<Rightarrow> 'ip SslClient \<Rightarrow> 'ip SslClient" where
  "setClientKey cli_key s = s\<lparr>ssl_cli_key := cli_key\<rparr>"

definition setPsk :: "byte list option \<Rightarrow> byte list option \<Rightarrow> 'ip SslClient \<Rightarrow> 'ip SslClient" where
  "setPsk psk_ident psk s = s\<lparr>ssl_psk_ident := psk_ident, ssl_psk := psk\<rparr>"

section \<open>Connecting and closing\<close>

definition tls_connect_ip ::
  "('w, 'ip) ssl_os \<Rightarrow> 'ip \<Rightarrow> u16 \<Rightarrow> 'ip SslClient \<Rightarrow> 'w \<Rightarrow> bool \<times> 'ip SslClient \<times> 'w"
where
  "tls_connect_ip so ip port s w =
     (let (ok, c, w1) = connect_ip (socks so) ip port (ssl_base s) w
      in (ok, s\<lparr>ssl_base := c\<rparr>, w1))"

text \<open>
  \<open>ClientBase::connect(host)\<close> calls the virtual \<open>connect(ip)\<close>, which for this class is the one
  of \<open>ClientBase\<close> again.
\<close>

definition tls_connect_host ::
  "('w, 'ip) ssl_os \<Rightarrow> ptr \<Rightarrow> string \<Rightarrow> u16 \<Rightarrow> 'ip SslClient \<Rightarrow> 'w \<Rightarrow> bool \<times> 'ip SslClient \<times> 'w"
where
  "tls_connect_host so self host port s w =
     (let s1 = s\<lparr>ssl_hostname := host\<rparr>;
          (ok, c, w1) = connect_host (socks so) self host port (ssl_base s1) w
      in (ok, s1\<lparr>ssl_base := c\<rparr>, w1))"

text \<open>\<open>_close\<close>: the one of \<open>ClientBase\<close>, then the session is deleted.\<close>

definition tls_close ::
  "('w, 'ip) ssl_os \<Rightarrow> 'ip SslClient \<Rightarrow> 'w \<Rightarrow> ('ip SslClient \<times> 'w) res"
where
  "tls_close so s w =
     bind_res (close_socket (socks so) (ssl_base s) w) (\<lambda>(c, w1).
       let s1 = s\<lparr>ssl_base := c\<rparr>
       in case sslctx s1 of
            None \<Rightarrow> Inr (s1, w1)
          | Some ctx \<Rightarrow>
              Inr (s1\<lparr>sslctx := None, raw_free := raw_free s1 \<or> bad_free (TLS_delete ctx)\<rparr>, w1))"

text \<open>\<open>ClientBase::close\<close>, which calls the virtual \<open>_close\<close>.\<close>

definition tls_close_client ::
  "('w, 'ip) ssl_os \<Rightarrow> 'ip SslClient \<Rightarrow> 'w \<Rightarrow> ('ip SslClient \<times> 'w) res"
where
  "tls_close_client so s w = (if isOpen (ssl_base s) then tls_close so s w else Inr (s, w))"

section \<open>The handshake\<close>

text \<open>\<open>_runSSLHandshakeLoop\<close>, whose local \<open>res\<close> is the second argument.\<close>

function tls_runSSLHandshakeLoop ::
  "('w, 'ip) ssl_os \<Rightarrow> int \<Rightarrow> 'ip SslClient \<Rightarrow> 'w \<Rightarrow> (int \<times> 'ip SslClient \<times> 'w) res"
where
  "tls_runSSLHandshakeLoop so res s w =
     (if ssl_handshake_done s then Inr (res, s, w)
      else
        case sslctx s of
          None \<Rightarrow> Inl NullPointer
        | Some ctx \<Rightarrow>
            let (res1, ctx1, w1) = runSSLHandshake (mbed so) ctx w;
                s1 = s\<lparr>sslctx := Some ctx1\<rparr>
            in if res1 = 0 then
                 tls_runSSLHandshakeLoop so res1 (s1\<lparr>ssl_handshake_done := True\<rparr>) w1
               else if ASYNCTCP_TLS_CAN_RETRY so res1 then Inr (res1, s1, w1)
               else bind_res (tls_close so s1 w1) (\<lambda>(s2, w2). Inr (res1, s2, w2)))"
  by pat_completeness auto

termination
  by (relation "measure (\<lambda>(so, res, s, w). if ssl_handshake_done s then 0 else 1)") auto

declare tls_runSSLHandshakeLoop.simps [simp del]

text \<open>The beginning of a session in \<open>_sockIsWriteable\<close>.\<close>

definition tls_start ::
  "('w, 'ip) ssl_os \<Rightarrow> 'ip SslClient \<Rightarrow> 'w \<Rightarrow> (int \<times> 'ip SslClient \<times> 'w) res"
where
  "tls_start so s w =
     (let (ip, w0) = remoteIP (addrs so) (ssl_base s) w;
          remIP_str = IPAddress_toString so ip;
          host_or_ip = map of_char (if ssl_hostname s = [] then remIP_str else ssl_hostname s);
          fd = socket (ssl_base s)
      in case new_context so w0 of
           (None, w1) \<Rightarrow> Inl BadAlloc
         | (Some start_time, w1) \<Rightarrow>
             let ctx = TLS_new start_time;
                 (res, ctx1, w2) =
                   (if ssl_root_ca s \<noteq> None then
                      startSSLClient (mbed so) fd host_or_ip (ssl_root_ca s) (ssl_cli_cert s)
                        (ssl_cli_key s) ctx w1
                    else if ssl_psk_ident s \<noteq> None then
                      startSSLClient_psk (mbed so) fd host_or_ip (ssl_psk_ident s) (ssl_psk s) ctx w1
                    else startSSLClientInsecure (mbed so) fd host_or_ip ctx w1);
                 s1 = s\<lparr>sslctx := Some ctx1\<rparr>
             in if res \<noteq> 0 then bind_res (tls_close so s1 w2) (\<lambda>(s2, w3). Inr (res, s2, w3))
                else Inr (res, s1, w2))"

definition tls_sockIsWriteable ::
  "('w, 'ip) ssl_os \<Rightarrow> 'ip SslClient \<Rightarrow> 'w \<Rightarrow> (bool \<times> 'ip SslClient \<times> 'w) res"
where
  "tls_sockIsWriteable so s w =
     (if (ssl_conn_state s = 2 \<or> ssl_conn_state s = 3) \<and> ssl_secure s then
        bind_res (if sslctx s = None then tls_start so s w else Inr (0, s, w)) (\<lambda>(res, s1, w1).
        bind_res (if sslctx s1 \<noteq> None \<and> res = 0 then tls_runSSLHandshakeLoop so 0 s1 w1
                  else Inr (res, s1, w1)) (\<lambda>(res1, s2, w2).
          if \<not> ssl_handshake_done s2 then Inr (ASYNCTCP_TLS_CAN_RETRY so res1, s2, w2)
          else Inr (False, s2, w2)))
      else Inr (False, s, w))"

section \<open>The data\<close>

text \<open>
  The results \<open>r\<close> and \<open>errno\<close> that \<open>_processWriteQueue\<close> and \<open>_sockIsReadable\<close> compute. Nothing
  is done with either.
\<close>

definition tls_write_result ::
  "('w, 'ip) ssl_os \<Rightarrow> byte list \<Rightarrow> 'ip SslClient \<Rightarrow> 'w \<Rightarrow> (int \<times> int) \<times> 'w"
where
  "tls_write_result so p s w =
     (case sslctx s of
        Some ctx \<Rightarrow>
          let (r, w1) = tls_write (mbed so) p ctx w;
              errno = errno_now so w1
          in if ASYNCTCP_TLS_CAN_RETRY so r then ((-1, EAGAIN (socks so)), w1)
             else if ASYNCTCP_TLS_EOF so r then ((-1, EPIPE so), w1)
             else if r < 0 then ((r, if errno = 0 then EIO so else errno), w1)
             else ((r, errno), w1)
      | None \<Rightarrow> lwip_write (socks so) (socket (ssl_base s)) p w)"

definition tls_processWriteQueue ::
  "('w, 'ip) ssl_os \<Rightarrow> byte list \<Rightarrow> 'ip SslClient \<Rightarrow> 'w \<Rightarrow> bool \<times> 'ip SslClient \<times> 'w"
where
  "tls_processWriteQueue so p s w =
     (let ((r, errno), w1) = tls_write_result so p s w in (False, s, w1))"

definition tls_read_result ::
  "('w, 'ip) ssl_os \<Rightarrow> AsyncTCP_TLS_Context \<Rightarrow> 'w \<Rightarrow> (int \<times> int \<times> byte list) \<times> 'w"
where
  "tls_read_result so ctx w =
     (let ((r, data), w1) = tls_read (mbed so) (MAX_PAYLOAD_SIZE so) ctx w;
          errno = errno_now so w1
      in if ASYNCTCP_TLS_CAN_RETRY so r then ((-1, EAGAIN (socks so), data), w1)
         else if ASYNCTCP_TLS_EOF so r then ((0, errno, data), w1)
         else if r < 0 then ((r, if errno = 0 then EIO so else errno, data), w1)
         else ((r, errno, data), w1))"

definition tls_sockIsReadable ::
  "('w, 'ip) ssl_os \<Rightarrow> 'ip SslClient \<Rightarrow> 'w \<Rightarrow> ('ip SslClient \<times> 'w) res"
where
  "tls_sockIsReadable so s w =
     (case sslctx s of
        Some ctx \<Rightarrow>
          if \<not> ssl_handshake_done s then
            bind_res (tls_runSSLHandshakeLoop so 0 s w) (\<lambda>(res, s1, w1). Inr (s1, w1))
          else
            let ((r, errno, data), w1) = tls_read_result so ctx w in Inr (s, w1)
      | None \<Rightarrow>
          let ((r, errno, data), w1) =
                lwip_read (socks so) (socket (ssl_base s)) (MAX_PAYLOAD_SIZE so) w
          in Inr (s, w1))"

section \<open>A client over time\<close>

text \<open>The calls of the application and of the worker, one after the other.\<close>

datatype 'ip ssl_op =
    SetRootCa "byte list option"
  | SetClientCert "byte list option"
  | SetClientKey "byte list option"
  | SetPsk "byte list option" "byte list option"
  | ConnectIp 'ip u16
  | ConnectHost ptr string u16
  | CloseClient
  | SockIsWriteable
  | SockIsReadable
  | ProcessWriteQueue "byte list"

fun ssl_op_run ::
  "('w, 'ip) ssl_os \<Rightarrow> 'ip ssl_op \<Rightarrow> 'ip SslClient \<Rightarrow> 'w \<Rightarrow> ('ip SslClient \<times> 'w) res"
where
  "ssl_op_run so (SetRootCa x) s w = Inr (setRootCa x s, w)"
| "ssl_op_run so (SetClientCert x) s w = Inr (setClientCert x s, w)"
| "ssl_op_run so (SetClientKey x) s w = Inr (setClientKey x s, w)"
| "ssl_op_run so (SetPsk x y) s w = Inr (setPsk x y s, w)"
| "ssl_op_run so (ConnectIp ip port) s w = Inr (snd (tls_connect_ip so ip port s w))"
| "ssl_op_run so (ConnectHost self host port) s w = Inr (snd (tls_connect_host so self host port s w))"
| "ssl_op_run so CloseClient s w = tls_close_client so s w"
| "ssl_op_run so SockIsWriteable s w =
     bind_res (tls_sockIsWriteable so s w) (\<lambda>(activity, s1, w1). Inr (s1, w1))"
| "ssl_op_run so SockIsReadable s w = tls_sockIsReadable so s w"
| "ssl_op_run so (ProcessWriteQueue p) s w = Inr (snd (tls_processWriteQueue so p s w))"

fun ssl_run ::
  "('w, 'ip) ssl_os \<Rightarrow> 'ip ssl_op list \<Rightarrow> 'ip SslClient \<Rightarrow> 'w \<Rightarrow> ('ip SslClient \<times> 'w) res"
where
  "ssl_run so [] s w = Inr (s, w)"
| "ssl_run so (x # xs) s w = bind_res (ssl_op_run so x s w) (\<lambda>(s1, w1). ssl_run so xs s1 w1)"

end
