(* ===== verification/SslClientTLSProperties.thy ===== *)
theory SslClientTLSProperties
  imports SslClientTLS Sample
begin

text \<open>
  What the TLS client promises: a session belongs to the open socket it was started on, is
  deleted with it, and is never used without one; and where a peer whose certificate does not
  verify, or that never did a handshake, is taken for a verified one.
\<close>

section \<open>Sessions\<close>

text \<open>The four long-lived objects of a session, and the session of an open socket.\<close>

definition objects_ready :: "AsyncTCP_TLS_Context \<Rightarrow> bool" where
  "objects_ready c \<longleftrightarrow>
     ssl_ctx c = Init \<and> ssl_conf c = Init \<and> drbg_ctx c = Init \<and> entropy_ctx c = Init"

definition session_ok :: "int \<Rightarrow> AsyncTCP_TLS_Context \<Rightarrow> bool" where
  "session_ok fd c \<longleftrightarrow> certs_ok c \<and> objects_ready c \<and> tls_socket c = fd"

lemma deleteHandshakeCerts_keeps [simp]:
  "objects_ready (deleteHandshakeCerts c) = objects_ready c"
  "tls_socket (deleteHandshakeCerts c) = tls_socket c"
  by (simp_all add: deleteHandshakeCerts_def objects_ready_def Let_def)

lemma delete_ready:
  assumes "certs_ok c" and "objects_ready c"
  shows "\<not> bad_free (TLS_delete c)"
  using delete_frees_what_is_held [of c] assms by (simp add: objects_ready_def)

text \<open>
  What holds when a stage makes the start fail (\<open>P\<close>), and when it goes on (\<open>Q\<close>).
\<close>

definition stage_post ::
  "(AsyncTCP_TLS_Context \<Rightarrow> bool) \<Rightarrow> (AsyncTCP_TLS_Context \<Rightarrow> bool) \<Rightarrow> 'w stage \<Rightarrow> bool"
where
  "stage_post P Q r = (case r of Inl (ret, c, w) \<Rightarrow> ret \<noteq> 0 \<and> P c | Inr (c, w) \<Rightarrow> Q c)"

lemma stage_post_simps [simp]:
  "stage_post P Q (Inl (ret, c, w)) \<longleftrightarrow> ret \<noteq> 0 \<and> P c"
  "stage_post P Q (Inr (c, w)) \<longleftrightarrow> Q c"
  by (simp_all add: stage_post_def)

lemma next_stage_post:
  assumes "stage_post P Q r" and "\<And>c w. Q c \<Longrightarrow> stage_post P R (f c w)"
  shows "stage_post P R (next_stage r f)"
  using assms by (cases "(r, f)" rule: next_stage.cases) auto

text \<open>Only before the entropy source is initialised is a failed start dangerous to clean up.\<close>

definition options_ok :: "'w tls_os \<Rightarrow> int \<Rightarrow> bool" where
  "options_ok ts fd \<longleftrightarrow> (\<forall>opt w. 0 \<le> fst (lwip_setsockopt ts fd opt w))"

abbreviation ready_if :: "bool \<Rightarrow> AsyncTCP_TLS_Context \<Rightarrow> bool" where
  "ready_if b c \<equiv> b \<longrightarrow> objects_ready c"

lemma start_setup_ready:
  "stage_post (ready_if (options_ok ts sck)) objects_ready (start_setup ts sck (TLS_new t) w)"
proof -
  obtain r1 w1 where 1: "lwip_setsockopt ts sck (TCP_NODELAY 1) w = (r1, w1)" by fastforce
  obtain r2 w2 where 2: "lwip_setsockopt ts sck (SO_KEEPALIVE 1) w1 = (r2, w2)" by fastforce
  have "0 \<le> r1 \<and> 0 \<le> r2" if "options_ok ts sck" using that 1 2 unfolding options_ok_def by (metis fst_conv)
  then show ?thesis
    by (auto simp: start_setup_def 1 2 Let_def handle_error_def objects_ready_def TLS_new_def
        split: prod.splits)
qed

lemma start_auth_ready:
  "objects_ready c \<Longrightarrow>
    stage_post (ready_if b) objects_ready (start_auth ts rootCA pskIdent psKey insecure c w)"
  by (auto simp: start_auth_def Let_def handle_error_def split: prod.splits option.splits)
    (simp_all add: objects_ready_def)

lemma start_own_cert_ready:
  "objects_ready c \<Longrightarrow>
    stage_post (ready_if b) objects_ready (start_own_cert ts cli_cert cli_key insecure c w)"
  by (auto simp: start_own_cert_def Let_def handle_error_def split: prod.splits option.splits)
    (simp_all add: objects_ready_def)

lemma start_finish_ready:
  "objects_ready c \<Longrightarrow>
    stage_post (ready_if b)
      (\<lambda>c1. objects_ready c1 \<and> tls_socket c1 = sck \<and> handshake_start_time c1 = 0)
      (start_finish ts sck host c w)"
  by (auto simp: start_finish_def Let_def handle_error_def split: prod.splits)
    (simp_all add: objects_ready_def)

text \<open>A session that starts is one of the given socket, and one that does not can be deleted.\<close>

lemma start_session:
  assumes "startSSLClient_full ts sck host rootCA cli_cert cli_key pskIdent psKey insecure
      (TLS_new t) w = (ret, c, w')"
    and "rootCA \<noteq> None \<or> pskIdent \<noteq> None \<or> insecure"
  shows "if ret = 0 then session_ok sck c \<and> handshake_start_time c = 0
    else options_ok ts sck \<longrightarrow> \<not> bad_free (TLS_delete c)"
proof -
  have "stage_post (ready_if (options_ok ts sck))
      (\<lambda>c1. objects_ready c1 \<and> tls_socket c1 = sck \<and> handshake_start_time c1 = 0)
      (next_stage (start_setup ts sck (TLS_new t) w) (\<lambda>c1 w1.
         next_stage (start_auth ts rootCA pskIdent psKey insecure c1 w1) (\<lambda>c2 w2.
         next_stage (start_own_cert ts cli_cert cli_key insecure c2 w2) (\<lambda>c3 w3.
         start_finish ts sck host c3 w3))))" (is "stage_post _ _ ?r")
    by (intro next_stage_post [OF start_setup_ready] next_stage_post [OF start_auth_ready]
        next_stage_post [OF start_own_cert_ready] start_finish_ready)
  with assms have "if ret = 0 then objects_ready c \<and> tls_socket c = sck \<and> handshake_start_time c = 0
      else ready_if (options_ok ts sck) c"
    by (auto simp: startSSLClient_full_def stage_post_def split: sum.splits if_splits)
  moreover from start_outcome [OF assms(1)] have "certs_ok c" "ret = 0 \<or> no_certs c"
    by (auto simp: started_def no_certs_ok split: if_splits)
  ultimately show ?thesis using delete_ready by (auto simp: session_ok_def)
qed

text \<open>The handshake keeps a session one.\<close>

lemma handshake_session:
  assumes "session_ok fd c" and "runSSLHandshake ts c w = (ret, c1, w1)"
  shows "session_ok fd c1"
proof -
  define c2 where "c2 = (if handshake_start_time c = 0 then c\<lparr>handshake_start_time := fst (millis ts w)\<rparr> else c)"
  define w2 where "w2 = (if handshake_start_time c = 0 then snd (millis ts w) else w)"
  have eq: "(if handshake_start_time c = 0
      then let (t, w') = millis ts w in (c\<lparr>handshake_start_time := t\<rparr>, w') else (c, w)) = (c2, w2)"
    by (simp add: c2_def w2_def split: prod.splits)
  have "session_ok fd c2" using assms(1) by (simp add: c2_def session_ok_def certs_ok_def objects_ready_def)
  moreover from this have "session_ok fd (deleteHandshakeCerts c2)"
    by (simp add: session_ok_def delete_certs no_certs_ok)
  moreover have "c1 \<in> {c, c2, deleteHandshakeCerts c2}"
    using assms(2) unfolding runSSLHandshake_def eq
    by (auto simp: Let_def split: prod.splits if_splits)
  ultimately show ?thesis using assms(1) by auto
qed

section \<open>The client\<close>

definition ssl_inv :: "('w, 'ip) ssl_os \<Rightarrow> 'ip SslClient \<Rightarrow> bool" where
  "ssl_inv so s \<longleftrightarrow> client_inv (socks so) (ssl_base s) \<and>
     (\<forall>ctx. sslctx s = Some ctx \<longrightarrow>
        isOpen (ssl_base s) \<and> session_ok (socket (ssl_base s)) ctx)"

definition ssl_closed :: "('w, 'ip) ssl_os \<Rightarrow> 'ip SslClient \<Rightarrow> 'ip SslClient" where
  "ssl_closed so s = s\<lparr>
     ssl_base := (ssl_base s)\<lparr>socket := -1, conn_state := DISCONNECTING, writeQueue := [],
       writeSpaceRemaining := INITIAL_WRITE_SPACE (socks so)\<rparr>,
     sslctx := None,
     raw_free := raw_free s \<or> (case sslctx s of None \<Rightarrow> False | Some c \<Rightarrow> bad_free (TLS_delete c))\<rparr>"

lemma ssl_closed_simps [simp]:
  "sslctx (ssl_closed so s) = None"
  "\<not> isOpen (ssl_base (ssl_closed so s))"
  "ssl_handshake_done (ssl_closed so s) = ssl_handshake_done s"
  by (simp_all add: ssl_closed_def isOpen_def)

lemma ssl_closed_inv: "client_inv (socks so) (ssl_base s) \<Longrightarrow> ssl_inv so (ssl_closed so s)"
  using closed_inv [OF client_inv_unlocked] by (auto simp: ssl_inv_def ssl_closed_def)

lemma tls_close_eq:
  assumes "\<not> writeMutex (ssl_base s)"
  shows "tls_close so s w =
    Inr (ssl_closed so s, sys_close (socks so) (socket (ssl_base s)) w)"
  using close_socket_eq [OF assms, of "socks so" w]
  by (simp add: tls_close_def ssl_closed_def split: option.splits)

lemma ssl_inv_unlocked: "ssl_inv so s \<Longrightarrow> \<not> writeMutex (ssl_base s)"
  unfolding ssl_inv_def by (elim conjE) (rule client_inv_unlocked)

text \<open>The loop runs at most once.\<close>

lemma handshake_loop_eq:
  assumes "\<not> ssl_handshake_done s" and "sslctx s = Some ctx" and "\<not> writeMutex (ssl_base s)"
    and "runSSLHandshake (mbed so) ctx w = (r, ctx1, w1)"
  shows "tls_runSSLHandshakeLoop so res s w = Inr
    (r,
     if r = 0 then s\<lparr>sslctx := Some ctx1, ssl_handshake_done := True\<rparr>
     else if ASYNCTCP_TLS_CAN_RETRY so r then s\<lparr>sslctx := Some ctx1\<rparr>
     else ssl_closed so (s\<lparr>sslctx := Some ctx1\<rparr>),
     if r \<noteq> 0 \<and> \<not> ASYNCTCP_TLS_CAN_RETRY so r
     then sys_close (socks so) (socket (ssl_base s)) w1 else w1)"
  using assms
  by (simp add: tls_runSSLHandshakeLoop.simps [of so res s] Let_def tls_close_eq
      tls_runSSLHandshakeLoop.simps [of so 0])

lemma handshake_loop_done:
  "ssl_handshake_done s \<Longrightarrow> tls_runSSLHandshakeLoop so res s w = Inr (res, s, w)"
  by (simp add: tls_runSSLHandshakeLoop.simps)

lemma handshake_loop_inv:
  assumes "ssl_inv so s" and "sslctx s \<noteq> None"
  shows "holds {} (\<lambda>(r, s1, w1). ssl_inv so s1 \<and> (ssl_handshake_done s \<longrightarrow> s1 = s))
    (tls_runSSLHandshakeLoop so res s w)"
proof (cases "ssl_handshake_done s")
  case True
  with assms(1) show ?thesis by (simp add: handshake_loop_done)
next
  case False
  from assms(2) obtain ctx where ctx: "sslctx s = Some ctx" by auto
  obtain r ctx1 w1 where run: "runSSLHandshake (mbed so) ctx w = (r, ctx1, w1)"
    by (cases "runSSLHandshake (mbed so) ctx w")
  from assms(1) ctx have "client_inv (socks so) (ssl_base s)" "isOpen (ssl_base s)"
    "session_ok (socket (ssl_base s)) ctx1"
    using handshake_session [OF _ run] by (auto simp: ssl_inv_def)
  then show ?thesis
    using handshake_loop_eq [OF False ctx ssl_inv_unlocked [OF assms(1)] run, of res]
      ssl_closed_inv [of so "s\<lparr>sslctx := Some ctx1\<rparr>"] False
    by (auto simp: ssl_inv_def)
qed

section \<open>Starting\<close>

text \<open>What a socket call on descriptor \<open>-1\<close> does (\<open>EBADF\<close>).\<close>

definition tls_badfd_law :: "'w tls_os \<Rightarrow> bool" where
  "tls_badfd_law ts \<longleftrightarrow> (\<forall>opt w. fst (lwip_setsockopt ts (-1) opt w) < 0)"

lemma start_refused:
  assumes "\<And>opt w. fst (lwip_setsockopt ts sck opt w) < 0"
    and "startSSLClient_full ts sck host rootCA cli_cert cli_key pskIdent psKey insecure c w
      = (ret, c1, w')"
  shows "ret = -1 \<and> c1 = c"
proof -
  obtain r1 w1 where 1: "lwip_setsockopt ts sck (TCP_NODELAY 1) w = (r1, w1)" by fastforce
  with assms(1) [of "TCP_NODELAY 1" w] have "start_setup ts sck c w = Inl (-1, c, w1)"
    by (simp add: start_setup_def)
  with assms(2) show ?thesis by (auto simp: startSSLClient_full_def split: if_splits)
qed

text \<open>
  The start is one of the three calls, on a new session; a failed one closes the client.
\<close>

lemma tls_start_cases:
  assumes "\<not> writeMutex (ssl_base s)"
  obtains (no_memory) "tls_start so s w = Inl BadAlloc"
  | (tried) host rootCA cli_cert cli_key pskIdent psKey insecure t w1 res ctx w2 where
      "rootCA \<noteq> None \<or> pskIdent \<noteq> None \<or> insecure"
      "startSSLClient_full (mbed so) (socket (ssl_base s)) host rootCA cli_cert cli_key pskIdent psKey
         insecure (TLS_new t) w1 = (res, ctx, w2)"
      "tls_start so s w =
        (if res = 0 then Inr (0, s\<lparr>sslctx := Some ctx\<rparr>, w2)
         else Inr (res, ssl_closed so (s\<lparr>sslctx := Some ctx\<rparr>),
                sys_close (socks so) (socket (ssl_base s)) w2))"
proof -
  obtain ip w0 where ip: "remoteIP (addrs so) (ssl_base s) w = (ip, w0)" by fastforce
  define host :: "byte list" where
    "host = map of_char (if ssl_hostname s = [] then IPAddress_toString so ip else ssl_hostname s)"
  obtain m w1 where mem: "new_context so w0 = (m, w1)" by fastforce
  show thesis
  proof (cases m)
    case None
    then show ?thesis using no_memory by (simp add: tls_start_def ip mem Let_def)
  next
    case (Some t)
    note unfold = tls_start_def ip mem Some Let_def host_def tls_close_eq assms
      startSSLClient_def startSSLClient_psk_def startSSLClientInsecure_def
    let ?start = "startSSLClient_full (mbed so) (socket (ssl_base s)) host"
    consider "ssl_root_ca s \<noteq> None" | "ssl_root_ca s = None" "ssl_psk_ident s \<noteq> None"
      | "ssl_root_ca s = None" "ssl_psk_ident s = None" by blast
    then show ?thesis
    proof cases
      case 1
      obtain res ctx w2 where r: "?start (ssl_root_ca s) (ssl_cli_cert s) (ssl_cli_key s) None None
        False (TLS_new t) w1 = (res, ctx, w2)" by (cases rule: prod_cases3)
      show ?thesis by (rule tried [OF _ r]) (use 1 r in \<open>auto simp: unfold\<close>)
    next
      case 2
      obtain res ctx w2 where r: "?start None None None (ssl_psk_ident s) (ssl_psk s)
        False (TLS_new t) w1 = (res, ctx, w2)" by (cases rule: prod_cases3)
      show ?thesis by (rule tried [OF _ r]) (use 2 r in \<open>auto simp: unfold\<close>)
    next
      case 3
      obtain res ctx w2 where r: "?start None None None None None True (TLS_new t) w1 = (res, ctx, w2)"
        by (cases rule: prod_cases3)
      show ?thesis by (rule tried [OF _ r]) (use 3 r in \<open>auto simp: unfold\<close>)
    qed
  qed
qed

lemma tls_start_inv:
  assumes "tls_badfd_law (mbed so)" and "ssl_inv so s" and "sslctx s = None"
  shows "holds {BadAlloc} (\<lambda>(r, s1, w1). ssl_inv so s1 \<and> (sslctx s1 = None \<longleftrightarrow> r \<noteq> 0) \<and>
      ssl_handshake_done s1 = ssl_handshake_done s) (tls_start so s w)"
  using ssl_inv_unlocked [OF assms(2)]
proof (cases rule: tls_start_cases [of s so w])
  case (tried host rootCA cli_cert cli_key pskIdent psKey insecure t w1 res ctx w2)
  have inv: "client_inv (socks so) (ssl_base s)" using assms(2) by (simp add: ssl_inv_def)
  have "isOpen (ssl_base s)" if "res = 0"
    using start_refused [OF _ tried(2)] assms(1) that
    by (auto simp: tls_badfd_law_def isOpen_def)
  with inv start_session [OF tried(2,1)] ssl_closed_inv [of so "s\<lparr>sslctx := Some ctx\<rparr>"]
  show ?thesis by (auto simp: tried(3) ssl_inv_def)
qed simp

section \<open>Every operation\<close>

abbreviation ssl_kept :: "('w, 'ip) ssl_os \<Rightarrow> 'ip SslClient \<Rightarrow> 'ip SslClient \<Rightarrow> bool" where
  "ssl_kept so s s1 \<equiv> ssl_inv so s1 \<and> (ssl_handshake_done s \<longrightarrow> ssl_handshake_done s1)"

lemma tls_sockIsWriteable_inv:
  assumes "tls_badfd_law (mbed so)" and "ssl_inv so s"
  shows "holds {BadAlloc} (\<lambda>(a, s1, w1). ssl_kept so s s1) (tls_sockIsWriteable so s w)"
proof -
  have loop: "holds {BadAlloc} (\<lambda>(r, s2, w2). ssl_kept so s s2)
      (if sslctx s1 \<noteq> None \<and> r = 0 then tls_runSSLHandshakeLoop so 0 s1 w1 else Inr (r, s1, w1))"
    if "ssl_inv so s1" "ssl_handshake_done s1 = ssl_handshake_done s" for r s1 w1
    using handshake_loop_inv [OF that(1), of 0 w1] that by (auto elim!: holds_weaken)
  have start: "holds {BadAlloc} (\<lambda>(r, s1, w1). ssl_inv so s1 \<and>
        ssl_handshake_done s1 = ssl_handshake_done s)
      (if sslctx s = None then tls_start so s w else Inr (0, s, w))"
    using holds_mono [OF tls_start_inv [OF assms, of w]] assms(2) by auto
  have rest: "holds {BadAlloc} (\<lambda>(a, s2, w2). ssl_kept so s s2)
      (bind_res (if sslctx s1 \<noteq> None \<and> r = 0 then tls_runSSLHandshakeLoop so 0 s1 w1 else Inr (r, s1, w1))
        (\<lambda>(r1, s2, w2). if \<not> ssl_handshake_done s2 then Inr (ASYNCTCP_TLS_CAN_RETRY so r1, s2, w2)
           else Inr (False, s2, w2)))"
    if "ssl_inv so s1" "ssl_handshake_done s1 = ssl_handshake_done s" for r s1 w1
    unfolding holds_bind by (rule holds_mono [OF loop [OF that]]) auto
  have "holds {BadAlloc} (\<lambda>(a, s2, w2). ssl_kept so s s2)
      (bind_res (if sslctx s = None then tls_start so s w else Inr (0, s, w)) (\<lambda>(r, s1, w1).
        bind_res (if sslctx s1 \<noteq> None \<and> r = 0 then tls_runSSLHandshakeLoop so 0 s1 w1 else Inr (r, s1, w1))
        (\<lambda>(r1, s2, w2). if \<not> ssl_handshake_done s2 then Inr (ASYNCTCP_TLS_CAN_RETRY so r1, s2, w2)
           else Inr (False, s2, w2))))"
    unfolding holds_bind [of _ _ "if sslctx s = None then _ else _"]
    by (rule holds_mono [OF start]) (clarify, rule rest, simp_all)
  then show ?thesis
    unfolding tls_sockIsWriteable_def using assms(2) by (intro holds_if) simp_all
qed

lemma tls_sockIsReadable_inv:
  assumes "ssl_inv so s"
  shows "holds {} (\<lambda>(s1, w1). ssl_kept so s s1) (tls_sockIsReadable so s w)"
proof (cases "sslctx s")
  case None
  with assms show ?thesis by (simp add: tls_sockIsReadable_def split: prod.splits)
next
  case (Some ctx)
  with handshake_loop_inv [OF assms, of 0 w] assms show ?thesis
    by (auto simp: tls_sockIsReadable_def holds_bind split: prod.splits elim!: holds_mono)
qed

lemma tls_connect_inv:
  assumes "ssl_inv so s"
  shows "ssl_inv so (fst (snd (tls_connect_ip so ip port s w)))"
    and "ssl_inv so (fst (snd (tls_connect_host so self host port s w)))"
proof -
  have inv: "client_inv (socks so) (ssl_base s)" using assms by (simp add: ssl_inv_def)
  have ip: "isOpen c \<Longrightarrow> fst (snd (connect_ip os a port c w)) = c"
    for c :: "'b ClientBase" and os :: "('a, 'b) os" and a w
    by (simp add: connect_ip_def)
  have host: "isOpen c \<Longrightarrow> socket (fst (snd (connect_host os self host port c w))) = socket c"
    for c :: "'b ClientBase" and os :: "('a, 'b) os" and w
    by (auto simp: connect_host_def ip split: prod.splits)
  have "ssl_inv so (s\<lparr>ssl_base := fst (snd (connect_ip (socks so) ip port (ssl_base s) w))\<rparr>)"
    using assms connect_ip_keeps [OF inv, of ip port w] ip [of "ssl_base s" "socks so" ip w]
    by (auto simp: ssl_inv_def)
  then show "ssl_inv so (fst (snd (tls_connect_ip so ip port s w)))"
    by (simp add: tls_connect_ip_def case_prod_beta Let_def)
  have "ssl_inv so (s\<lparr>ssl_hostname := host,
      ssl_base := fst (snd (connect_host (socks so) self host port (ssl_base s) w))\<rparr>)"
    using assms connect_host_keeps [OF inv, of self host port w] host
    by (auto simp: ssl_inv_def isOpen_def)
  then show "ssl_inv so (fst (snd (tls_connect_host so self host port s w)))"
    by (simp add: tls_connect_host_def case_prod_beta Let_def)
qed

lemma tls_connect_done [simp]:
  "ssl_handshake_done (fst (snd (tls_connect_ip so ip port s w))) = ssl_handshake_done s"
  "ssl_handshake_done (fst (snd (tls_connect_host so self host port s w))) = ssl_handshake_done s"
  by (simp_all add: tls_connect_ip_def tls_connect_host_def split: prod.splits)

lemma ssl_op_inv:
  assumes "tls_badfd_law (mbed so)" and "ssl_inv so s"
  shows "holds {BadAlloc} (\<lambda>(s1, w1). ssl_kept so s s1) (ssl_op_run so x s w)"
proof (cases x)
  case CloseClient
  have "client_inv (socks so) (ssl_base s)" using assms(2) by (simp add: ssl_inv_def)
  with CloseClient assms(2) ssl_inv_unlocked [OF assms(2)] show ?thesis
    by (simp add: tls_close_client_def tls_close_eq ssl_closed_inv)
next
  case SockIsWriteable
  with tls_sockIsWriteable_inv [OF assms, of w] show ?thesis
    by (auto elim!: holds_mono)
next
  case SockIsReadable
  with holds_total_any [OF tls_sockIsReadable_inv [OF assms(2), of w]] show ?thesis by simp
next
  case (ProcessWriteQueue p)
  with assms(2) show ?thesis
    by (simp add: tls_processWriteQueue_def case_prod_beta)
next
  case (ConnectIp ip port)
  with tls_connect_inv(1) [OF assms(2)] show ?thesis by (simp add: case_prod_beta)
next
  case (ConnectHost self host port)
  with tls_connect_inv(2) [OF assms(2)] show ?thesis by (simp add: case_prod_beta)
qed (use assms(2) in \<open>simp_all add: ssl_inv_def setRootCa_def setClientCert_def setClientKey_def setPsk_def\<close>)

lemma ssl_run_inv:
  assumes "tls_badfd_law (mbed so)" and "ssl_inv so s"
  shows "holds {BadAlloc} (\<lambda>(s1, w1). ssl_kept so s s1) (ssl_run so xs s w)"
  using assms(2)
proof (induction xs arbitrary: s w)
  case (Cons x xs)
  have "holds {BadAlloc} (\<lambda>(s2, w2). ssl_kept so s s2) (ssl_run so xs s1 w1)"
    if "ssl_kept so s s1" for s1 w1
    by (rule holds_mono [OF Cons.IH]) (use that in auto)
  then have "holds {BadAlloc} (\<lambda>r. holds {BadAlloc} (\<lambda>(s2, w2). ssl_kept so s s2)
      (case r of (s1, w1) \<Rightarrow> ssl_run so xs s1 w1)) (ssl_op_run so x s w)"
    by (intro holds_mono [OF ssl_op_inv [OF assms(1) Cons.prems, of x w]]) auto
  then show ?case by simp
qed simp

section \<open>A sample client\<close>

text \<open>Every call of mbedTLS succeeds, except for the results given; descriptor \<open>-1\<close> is refused.\<close>

definition sample_mbed :: "int \<Rightarrow> int \<Rightarrow> sample_world tls_os" where
  "sample_mbed handshake_result verify_result =
     \<lparr>WANT_READ = -26880, WANT_WRITE = -26752, PSK_MAX_LEN = 32,
      lwip_setsockopt = (\<lambda>fd opt w. (if fd < 0 then -1 else 0, w)), ctr_drbg_seed = (\<lambda>w. (0, w)),
      ssl_config_defaults = (\<lambda>w. (0, w)), x509_crt_parse = (\<lambda>bs w. (0, w)),
      pk_parse_key = (\<lambda>bs w. (0, w)), ssl_conf_psk = (\<lambda>k i w. (0, w)),
      ssl_set_hostname = (\<lambda>h w. (0, w)), ssl_setup = (\<lambda>w. (0, w)),
      ssl_handshake = (\<lambda>w. (handshake_result, w)), ssl_get_record_expansion = (\<lambda>w. 29),
      ssl_get_verify_result = (\<lambda>w. verify_result),
      ssl_write = (\<lambda>bs w. (int (length bs), w)), ssl_read = (\<lambda>n w. ((0, []), w)),
      millis = (\<lambda>w. (7, w))\<rparr>"

definition sample_addrs :: "(sample_world, u32) sockaddr_os" where
  "sample_addrs =
     \<lparr>sizeof_in = 16, sizeof_in6 = 28, sizeof_storage = 28,
      sin_addr_of = (\<lambda>bs. 0), sin_port_of = (\<lambda>bs. 0), sin6_addr_of = (\<lambda>bs. bs),
      sin6_port_of = (\<lambda>bs. 0), sin6_scope_id_of = (\<lambda>bs. 0), ntohs = (\<lambda>p. p),
      IPAddress_empty = 0, IPAddress_v4 = (\<lambda>a. a), IPAddress_v6 = (\<lambda>bs z. 6),
      getpeername = (\<lambda>fd addr sz w. ((0, addr, sz), w)),
      getsockname = (\<lambda>fd addr sz w. ((0, addr, sz), w))\<rparr>"

definition sample_ssl :: "int \<Rightarrow> int \<Rightarrow> (sample_world, u32) ssl_os" where
  "sample_ssl handshake_result verify_result =
     \<lparr>socks = sample_os True, addrs = sample_addrs, mbed = sample_mbed handshake_result verify_result,
      IPAddress_toString = (\<lambda>ip. ''::''), CONN_EOF = -29312, PEER_CLOSE_NOTIFY = -30848,
      EPIPE = 32, EIO = 5, MAX_PAYLOAD_SIZE = 1360, errno_now = (\<lambda>w. 0),
      new_context = (\<lambda>w. (Some 3, w))\<rparr>"

definition sample_tls_client :: "bool \<Rightarrow> u32 SslClient" where
  "sample_tls_client done =
     \<lparr>ssl_base = fst (ClientBase_new (sample_os True) (sample_start [])), ssl_hostname = [],
      ssl_root_ca = Some [1], ssl_cli_cert = None, ssl_cli_key = None, ssl_psk_ident = None,
      ssl_psk = None, ssl_secure = True, ssl_conn_state = 2, ssl_handshake_done = done,
      sslctx = None, raw_free = False\<rparr>"

lemma sample_badfd: "tls_badfd_law (mbed (sample_ssl h v))"
  by (simp add: tls_badfd_law_def sample_ssl_def sample_mbed_def)

lemma sample_tls_client_inv: "ssl_inv (sample_ssl h v) (sample_tls_client d)"
  using client_inv_new [of "sample_os True" "sample_start []"]
  by (simp add: ssl_inv_def sample_tls_client_def sample_ssl_def)

section \<open>The life of a session\<close>



section \<open>Verification\<close>

lemma tls_events_loop:
  assumes "\<not> ssl_handshake_done s" and "sslctx s = Some ctx" and "ssl_secure s"
    and "ssl_conn_state s = 2 \<or> ssl_conn_state s = 3"
  shows "tls_sockIsWriteable so s w =
      bind_res (tls_runSSLHandshakeLoop so 0 s w) (\<lambda>(r, s1, w1).
        Inr (if ssl_handshake_done s1 then False else ASYNCTCP_TLS_CAN_RETRY so r, s1, w1))"
    and "tls_sockIsReadable so s w =
      bind_res (tls_runSSLHandshakeLoop so 0 s w) (\<lambda>(r, s1, w1). Inr (s1, w1))"
  using assms
  by (auto simp: tls_sockIsWriteable_def tls_sockIsReadable_def intro!: arg_cong [of _ _ "bind_res _"])



section \<open>The second connection\<close>

text \<open>
  C28: nothing ever sets \<open>_handshake_done\<close> back, although a comment says that \<open>connect\<close> does. So
  whatever is called after the first completed handshake, the next session is started but never
  handshaken or verified: its first event reports the connection as established right after the
  start, and every later one goes on to the data.
\<close>

theorem second_connection_skips_handshake:
  assumes "tls_badfd_law (mbed so)" and "ssl_inv so s" and "ssl_handshake_done s"
    and "ssl_run so ops s w = Inr (s1, w1)" and "sslctx s1 = None"
    and "ssl_secure s1" and "ssl_conn_state s1 = 2 \<or> ssl_conn_state s1 = 3"
    and "tls_start so s1 w1 = Inr (0, s2, w2)"
  shows "tls_sockIsWriteable so s1 w1 = Inr (False, s2, w2) \<and>
    (\<exists>ctx. sslctx s2 = Some ctx \<and> handshake_start_time ctx = 0) \<and>
    tls_sockIsWriteable so s2 w2 = Inr (False, s2, w2) \<and>
    (\<exists>w3. tls_sockIsReadable so s2 w2 = Inr (s2, w3))"
proof -
  from ssl_run_inv [OF assms(1,2), of ops w] assms(3,4) have s1: "ssl_inv so s1" "ssl_handshake_done s1"
    by simp_all
  obtain ctx where ctx: "s2 = s1\<lparr>sslctx := Some ctx\<rparr>" "handshake_start_time ctx = 0"
    using ssl_inv_unlocked [OF s1(1)]
  proof (cases rule: tls_start_cases [of s1 so w1])
    case (tried host rootCA cli_cert cli_key pskIdent psKey insecure t w3 res ctx w4)
    then have "res = 0" "s2 = s1\<lparr>sslctx := Some ctx\<rparr>" using assms(8) by (auto split: if_splits)
    then show ?thesis using start_session [OF tried(2,1)] that by simp
  qed (use assms(8) in simp)
  have est: "ssl_handshake_done s2" "sslctx s2 = Some ctx" using s1(2) ctx(1) by simp_all
  have "tls_sockIsWriteable so s1 w1 = Inr (False, s2, w2)"
    using assms(5-8) est by (simp add: tls_sockIsWriteable_def handshake_loop_done)
  moreover have "tls_sockIsWriteable so s2 w2 = Inr (False, s2, w2)"
    using est by (simp add: tls_sockIsWriteable_def handshake_loop_done)
  moreover have "\<exists>w3. tls_sockIsReadable so s2 w2 = Inr (s2, w3)"
    using est by (simp add: tls_sockIsReadable_def case_prod_beta)
  ultimately show ?thesis using est(2) ctx(2) by blast
qed

text \<open>Two connections after a completed handshake, the second to a peer with which every handshake fails.\<close>

theorem second_connection_skips_handshake_witness:
  "\<exists>s1 w1 s2 w2. ssl_run (sample_ssl (-1) 0) [ConnectIp 7 443, SockIsWriteable, CloseClient, ConnectIp 8 443]
      (sample_tls_client True) (sample_start []) = Inr (s1, w1) \<and>
    tls_sockIsWriteable (sample_ssl (-1) 0) s1 w1 = Inr (False, s2, w2) \<and>
    isOpen (ssl_base s2) \<and> sslctx s2 \<noteq> None"
proof -
  let ?so = "sample_ssl (-1) 0" and ?ops = "[ConnectIp 7 443, SockIsWriteable, CloseClient, ConnectIp 8 443]"
  let ?r = "ssl_run ?so ?ops (sample_tls_client True) (sample_start [])"
  have "case ?r of Inl e \<Rightarrow> False
    | Inr (s1, w1) \<Rightarrow> sslctx s1 = None \<and> ssl_secure s1 \<and> ssl_conn_state s1 = 2 \<and>
        (case tls_start ?so s1 w1 of Inl e \<Rightarrow> False
         | Inr (r, s2, w2) \<Rightarrow> r = 0 \<and> isOpen (ssl_base s2))" by code_simp
  then obtain s1 w1 where run: "?r = Inr (s1, w1)" "sslctx s1 = None" "ssl_secure s1" "ssl_conn_state s1 = 2"
    and start: "case tls_start ?so s1 w1 of Inl e \<Rightarrow> False | Inr (r, s2, w2) \<Rightarrow> r = 0 \<and> isOpen (ssl_base s2)"
    by (cases ?r) (auto simp del: ssl_run.simps)
  from start obtain s2 w2 where r: "tls_start ?so s1 w1 = Inr (0, s2, w2)" "isOpen (ssl_base s2)"
    by (cases "tls_start ?so s1 w1") auto
  have "ssl_handshake_done (sample_tls_client True)" by (simp add: sample_tls_client_def)
  from second_connection_skips_handshake [OF sample_badfd sample_tls_client_inv this run(1-3) _ r(1)] run r(2)
  show ?thesis by blast
qed

section \<open>A start on a socket that is gone\<close>

text \<open>
  C29: cleaning up after a failed start is safe exactly when the socket took the two options: if
  it refuses them (it was closed in the same round, or reset by the peer), the start ends before
  the entropy source is initialised, and the client deletes the session, whose destructor frees
  it all the same.
\<close>

theorem failed_start_frees_raw_memory:
  assumes "ssl_inv so s" and "sslctx s = None" and "\<not> raw_free s" and "ssl_secure s"
    and "ssl_conn_state s = 2 \<or> ssl_conn_state s = 3"
    and "tls_sockIsWriteable so s w = Inr (a, s1, w1)"
  shows "(options_ok (mbed so) (socket (ssl_base s)) \<longrightarrow> \<not> raw_free s1) \<and>
    ((\<forall>opt w. fst (lwip_setsockopt (mbed so) (socket (ssl_base s)) opt w) < 0) \<longrightarrow>
       raw_free s1 \<and> sslctx s1 = None \<and> \<not> isOpen (ssl_base s1))"
  using ssl_inv_unlocked [OF assms(1)]
proof (cases rule: tls_start_cases [of s so w])
  case no_memory
  with assms(2,4-6) show ?thesis by (simp add: tls_sockIsWriteable_def)
next
  case (tried host rootCA cli_cert cli_key pskIdent psKey insecure t w3 res ctx w4)
  let ?s = "s\<lparr>sslctx := Some ctx\<rparr>"
  show ?thesis
  proof (cases "res = 0")
    case True
    have sess: "session_ok (socket (ssl_base s)) ctx" using start_session [OF tried(2,1)] True by simp
    have refused: "\<not> (\<forall>opt w. fst (lwip_setsockopt (mbed so) (socket (ssl_base s)) opt w) < 0)"
      using start_refused [OF _ tried(2)] True by auto
    obtain r ctx1 w5 where run: "runSSLHandshake (mbed so) ctx w4 = (r, ctx1, w5)"
      by (cases "runSSLHandshake (mbed so) ctx w4")
    have "\<not> bad_free (TLS_delete ctx1)"
      using handshake_session [OF sess run] by (simp add: session_ok_def delete_ready)
    then have "\<not> raw_free s1"
      using assms True run ssl_inv_unlocked [OF assms(1)] tried(3)
        handshake_loop_done [of ?s so 0 w4] handshake_loop_eq [of ?s ctx so w4 r ctx1 w5 0]
      by (cases "ssl_handshake_done s")
        (auto simp: tls_sockIsWriteable_def ssl_closed_def split: if_splits)
    with refused show ?thesis by simp
  next
    case False
    have s1: "s1 = ssl_closed so ?s"
      using assms(2,4-6) tried(3) False by (auto simp: tls_sockIsWriteable_def split: if_splits)
    have "bad_free (TLS_delete (TLS_new t))"
      by (simp add: TLS_delete_def TLS_new_def deleteHandshakeCerts_def)
    then have "bad_free (TLS_delete ctx)"
      if "\<forall>opt w. fst (lwip_setsockopt (mbed so) (socket (ssl_base s)) opt w) < 0"
      using start_refused [OF _ tried(2)] that by simp
    with start_session [OF tried(2,1)] False assms(3) show ?thesis
      by (auto simp: s1) (auto simp: ssl_closed_def)
  qed
qed

theorem failed_start_frees_raw_memory_witness:
  "\<exists>a s1 w1. tls_sockIsWriteable (sample_ssl 0 0) (sample_tls_client False) (sample_start []) = Inr (a, s1, w1) \<and>
    raw_free s1"
proof -
  let ?r = "tls_sockIsWriteable (sample_ssl 0 0) (sample_tls_client False) (sample_start [])"
  have "case ?r of Inl e \<Rightarrow> False | Inr x \<Rightarrow> True" by code_simp
  then obtain a s1 w1 where r: "?r = Inr (a, s1, w1)" by (auto split: sum.splits)
  have c: "sslctx (sample_tls_client False) = None" "\<not> raw_free (sample_tls_client False)"
    "ssl_secure (sample_tls_client False)" "ssl_conn_state (sample_tls_client False) = 2 \<or> ssl_conn_state (sample_tls_client False) = 3"
    "socket (ssl_base (sample_tls_client False)) = -1"
    by (simp_all add: sample_tls_client_def ClientBase_new_def ClientBase_fields_def SocketConnection_init_def
        case_prod_beta)
  from failed_start_frees_raw_memory [OF sample_tls_client_inv c(1-4) r] have "raw_free s1"
    by (simp add: c(5) sample_ssl_def sample_mbed_def)
  with r show ?thesis by blast
qed

section \<open>What an established client ignores\<close>

text \<open>
  The events of an established session change nothing but the session's data: the bytes read,
  the end of the stream and every error are dropped, and the write queue is not looked at.
\<close>

lemma established_ignores_data:
  assumes "sslctx s \<noteq> None" and "ssl_handshake_done s"
  shows "(\<exists>w1. tls_sockIsReadable so s w = Inr (s, w1)) \<and>
    fst (tls_processWriteQueue so p s w) = False \<and> fst (snd (tls_processWriteQueue so p s w)) = s"
  using assms by (auto simp: tls_sockIsReadable_def tls_processWriteQueue_def case_prod_beta)

text \<open>
  A connection by address after one by name still names the old host to the TLS session, whose
  certificate is then checked against it.
\<close>

lemma connect_ip_keeps_hostname:
  "ssl_hostname (fst (snd (tls_connect_ip so ip port s w))) = ssl_hostname s"
  by (simp add: tls_connect_ip_def case_prod_beta Let_def)

end
