(* ===== verification/Spec2Isabelle.thy ===== *)
theory Spec2Isabelle
  imports QueueProperties ClientThreadsAtomic Conversation Liveness Isolation StartupProperties SystemProperties AddressProperties ConceptProperties
    SslClientTLSProperties
begin

text \<open>
  A verification development for AsyncTCPSock, an asynchronous TCP library for a 32-bit
  microcontroller over lwIP's BSD sockets (C++, files under \<open>src/src/\<close>).

  The program. An application creates \<open>Client\<close> and \<open>Server\<close> objects, which register with the
  one \<open>SocketConnectionManager\<close>. The application's threads call the client API (\<open>connect\<close>,
  \<open>add\<close>, \<open>send\<close>, \<open>write\<close>, \<open>close\<close>, and so on); a worker task owned by the manager waits with
  \<open>select\<close> and calls the handlers of the connections (\<open>_sockIsWriteable\<close>, \<open>_sockIsReadable\<close>,
  \<open>_sockDelayedConnect\<close>, \<open>_sockPoll\<close>, \<open>_processingDone\<close>), which in turn run the application's
  callbacks. A callback may use the API of any object, create clients, and delete them. Two
  kinds of mutex protect the state: the manager's, and one per client for its write queue.

  The theories, from the bottom up.
  \<^item> \<open>Prelude\<close>: machine types, the faults a call can end in (endless loop, deadlock, use of a
    deleted object, no memory), the result type and the rule \<open>holds\<close> for pre- and
    postconditions.
  \<^item> \<open>Lwip\<close>: everything the library calls and does not define, as one record \<open>os\<close> over an
    arbitrary world, and the documented behaviour the theorems rely on, as named predicates:
    \<open>write_sound\<close>, \<open>stream_law\<close>, \<open>sticky_law\<close>, \<open>new_law\<close>, \<open>badfd_law\<close>. \<open>Sample\<close> is a
    concrete platform on which they hold; the witnesses run on it.
  \<^item> \<open>WriteQueueBuffer\<close>, \<open>WriteQueue\<close> (\<open>WriteQueueBuffer.hpp\<close>, and the two queue loops of
    \<open>ClientBase.tpp\<close>): an entry of the write queue, the loop that pushes one into the socket,
    \<open>_processWriteQueue\<close> and the scan of \<open>_cleanupWriteQueue\<close>. The queue loop is proved over
    locales for the interface of an entry, interpreted on the buffers.
  \<^item> \<open>SocketConnection\<close>, \<open>Callbacks\<close>, \<open>ClientBase\<close>, \<open>Server\<close>, \<open>Client\<close>: the state of each class
    as a record, one definition per member function that runs no callback.
  \<^item> \<open>Machine\<close>: the whole state (objects by address, the manager's lists and mutex, the trace of
    callbacks, the world), registration, construction and deletion, and application code as a
    parameter: a handler yields a list of API calls, creations and deletions.
  \<^item> \<open>ClientHandlers\<close>, \<open>ServerHandlers\<close>, \<open>Manager\<close>: the handlers the worker calls, which look
    the object up again after every callback, and one round of the worker
    (\<open>updateConnectionStates\<close> in \<open>SocketConnection.tpp\<close>), phase by phase.
  \<^item> \<open>TLS_Context\<close> (\<open>AsyncTCP_TLS_Context.cpp\<close>): the TLS session over mbedTLS, a parameter too.
  \<^item> \<open>ClientInvariant\<close>, \<open>MachineInvariant\<close>, \<open>HandlerInvariant\<close>, \<open>ManagerInvariant\<close>: the invariant
    of a client (send-buffer accounting; state and socket agree; mutex free), of the whole state
    (the lists hold exactly the live objects), and that every operation keeps it. The contract
    between handlers and callbacks is the locale \<open>app_contract\<close>; the C++ concepts
    \<open>ManagedConnection\<close>, \<open>ManagedClient\<close>, \<open>ManagedServer\<close> are locales as well, and the
    handlers provide them.
  \<^item> \<open>Applications\<close>: the contract holds for every application, with the faults an application
    can cause itself, and for those that respect lifetimes, without use of deleted objects.
  \<^item> \<open>System\<close>: the program as a transition relation, one round of the worker or one action of
    another thread a step, and its reachable states.
  \<^item> \<open>Worker\<close>: the worker's loop in small steps, with a program counter; it is proved to do what
    the rounds of \<open>Manager\<close> do. \<open>Interleaving\<close>: the program with other threads running between
    any two of these steps, what they may do as a parameter, and that every step keeps the
    invariant.
  \<^item> \<open>ClientThreads\<close>, \<open>ClientThreadsInvariant\<close>: one client used by many threads, interleaved
    between the statements of \<open>add\<close>, \<open>send\<close>, \<open>close\<close>, \<open>_sockIsWriteable\<close>, \<open>_sockPoll\<close> and
    \<open>_processingDone\<close>, with \<open>_writeMutex\<close> taken and released step by step; and the invariant
    that ties the mutex to the thread that holds it.
  \<^item> \<open>Concepts\<close> (\<open>SocketConnection.hpp\<close>, \<open>AsyncTCP.h\<close> and the class declarations): the C++
    concepts and variant traits, as executable predicates on declarations, with name lookup,
    hiding, default arguments and access.
  \<^item> \<open>Startup\<close> (\<open>instance\<close> and the manager's constructor and destructor in
    \<open>SocketConnection.tpp\<close>, \<open>manage\<close> and \<open>unmanage\<close> in \<open>AsyncTCP.cpp\<close>): the program from its
    boot on. The manager is a static that the first connection constructs; its constructor
    creates the worker task or throws. Operations end in an \<open>outcome\<close>: a value, an exception, a
    fault or \<open>std::terminate\<close>.
  \<^item> \<open>SslClient\<close> (\<open>SslClient.cpp\<close>, built without TLS): the class and the virtual dispatch into
    it; the contract of the virtual \<open>_processWriteQueue\<close> as a locale, interpreted on both classes.
    \<open>SslClientTLS\<close>: the same class as written for builds with TLS, over \<open>TLS_Context\<close>.
  \<^item> \<open>WriteDevice\<close>: a socket that takes what fits into its send buffer.

  The theorems, by theory.
  \<^item> \<open>InterleavingProperties\<close>: no deadlock, exact registries, accounting and the types of the state
    under every interleaving; no use after free when callbacks and threads respect lifetimes;
    and two runs that show what goes wrong when a thread deletes a client the worker has still
    to visit, or one that waits for a name.
  \<^item> \<open>ClientThreadsProperties\<close>: mutual exclusion, the account of the free space, progress, and
    that the account is exact as long as one thread adds; and four runs that go wrong.
    \<open>ClientThreadsAtomic\<close>: a call that is not interrupted does what \<open>ClientBase\<close> and
    \<open>ClientHandlers\<close> say.
  \<^item> \<open>StartupProperties\<close>: the worker task is created once, with the first connection; a failure
    to create it leaves nothing behind; once it exists, the program is the interleaved system;
    and no destructor terminates it. The contract of the other threads with the worker is the
    locale \<open>threads_contract\<close>, interpreted on all threads and on those that respect lifetimes.
  \<^item> \<open>SystemProperties\<close>: the same for whole rounds, and that the rule on callbacks is needed.
  \<^item> \<open>Isolation\<close>: a phase leaves the connections it does not visit alone.
  \<^item> \<open>QueueProperties\<close>: a pass over the queue returns, accounts for every byte and keeps the order
    on a socket that stays full; the order is lost otherwise. \<open>WriteDevice\<close>: a pass does what one
    write of all queued bytes does. \<open>StreamProperties\<close>: the socket gets exactly what the
    application queued, for every sequence of calls; an \<open>SslClient\<close> sends nothing. \<open>Conversation\<close>:
    what the application hears of a connection, in the order of an automaton of callbacks, and that
    the data it is handed is what the socket received. \<open>Liveness\<close>:
    the queue empties, and all of it is reported, while the network takes data.
  \<^item> \<open>ClientProperties\<close>: each API call on every branch, and the connection state as an automaton.
    \<open>HandlerProperties\<close>, \<open>ManagerProperties\<close>: what each handler and phase reports to the
    application, once and in order; what the worker waits for; registration.
    \<open>ConceptProperties\<close>: the concepts cover what the manager calls. \<open>AddressProperties\<close>: the texts and addresses. \<open>TLSProperties\<close>: one session's certificates,
    keys and time limit. \<open>SslClientTLSProperties\<close>: the life of the sessions of a TLS client, over
    every sequence of calls, and the peers it accepts without verifying them.
  Several state where the code does less than it says: they are named after what goes wrong.

  Loops. The loop of \<open>write\<close> and \<open>strlen\<close> are \<open>partial_function (option)\<close>: not returning is
  \<open>None\<close>, and that they return is proved from \<open>write_sound\<close> and from the presence of a
  terminator. No fuel is used; \<open>update_rounds n\<close> is a number of rounds of the worker's endless
  loop.

  Interleaving. The steps of \<open>Interleaving\<close> are one visit of the worker to one connection, one
  collection of connections (with the manager mutex held), or one action of another thread, so a
  visit is atomic there. What happens within one, when other threads use the client the worker is
  visiting, is the subject of \<open>ClientThreads\<close>, one statement a step; \<open>connect\<close> is one step in it,
  the timers of \<open>_sockPoll\<close> and \<open>_pendingWrite\<close> are not part of it, and fields that are not
  atomic in the code are read and written whole. A descriptor set is the list of its descriptors; \<open>-1\<close> is never in one. A
  callback that deletes its own client also destroys the function object being executed; that
  is not counted as a use after free.

  The TLS branch of \<open>SslClient\<close> uses members and variables that are declared nowhere (\<open>_sslctx\<close>,
  \<open>_handshake_done\<close>, \<open>_secure\<close>, \<open>_conn_state\<close>, \<open>r\<close>, \<open>p\<close>, \<open>n\<close>). They are fields and arguments of the
  model, with arbitrary values to begin with; \<open>_secure\<close> and \<open>_conn_state\<close> never change.

  Not modelled: the watchdog and logging; the remaining headers (macros and
  aliases); the examples, which use
  members of \<open>Client\<close> that do not exist (\<open>state\<close>, \<open>setRootCa\<close>, \<open>connect\<close> with three arguments).
\<close>

end
